(* ===== verification/Prelude.thy ===== *)
theory Prelude
  imports Complex_Main "HOL-Library.Word" "HOL-Library.Multiset"
    "HOL-Library.Char_ord" "HOL-Library.List_Lexorder" "HOL-Library.Product_Lexorder"
begin

text \<open>
  Shared vocabulary of the development: names for the machine types of the C and C++
  sources, the result type for operations that can fail, the collections of facts the
  component proofs use, and generic lemmas on words, lists and pairwise relations.
\<close>

unbundle bit_operations_syntax

section \<open>Machine types\<close>

type_synonym u8 = "8 word"
type_synonym u16 = "16 word"
type_synonym u32 = "32 word"
type_synonym u64 = "64 word"

text \<open>A signed 32-bit value is the same bit pattern, read with \<^const>\<open>sint\<close>.\<close>

type_synonym i32 = "32 word"

type_synonym bytes = "u8 list"

section \<open>Results of operations that can fail\<close>

definition bindE :: "'e + 'a \<Rightarrow> ('a \<Rightarrow> 'e + 'b) \<Rightarrow> 'e + 'b" where
  "bindE r f = (case r of Inl e \<Rightarrow> Inl e | Inr x \<Rightarrow> f x)"

named_theorems word_nat "unsigned word facts moved to natural numbers"
named_theorems frame "fields and entries an operation leaves alone"
named_theorems preserve "preservation of component invariants"

lemma bindE_simps [simp]:
  "bindE (Inl e) f = Inl e"
  "bindE (Inr x) f = f x"
  by (simp_all add: bindE_def)

lemma bindE_eq_Inr: "bindE r f = Inr y \<longleftrightarrow> (\<exists>x. r = Inr x \<and> f x = Inr y)"
  by (cases r) simp_all

section \<open>Unsigned words as natural numbers\<close>

lemma unat_add_small [word_nat]:
  fixes a b :: "'a::len word"
  assumes "unat a + unat b < 2 ^ LENGTH('a)"
  shows "unat (a + b) = unat a + unat b"
  using assms by (simp add: unat_word_ariths)

lemma unat_mult_small [word_nat]:
  fixes a b :: "'a::len word"
  assumes "unat a * unat b < 2 ^ LENGTH('a)"
  shows "unat (a * b) = unat a * unat b"
  using assms by (simp add: unat_word_ariths)

lemma unat_diff_le [word_nat]:
  fixes a b :: "'a::len word"
  assumes "b \<le> a"
  shows "unat (a - b) = unat a - unat b"
  using assms by (simp add: unat_sub word_le_nat_alt)

lemma unat_bound32: "unat (w :: u32) < 4294967296"
  using unsigned_less [of w] by simp

lemma unat_bound64: "unat (w :: u64) < 18446744073709551616"
  using unsigned_less [of w] by simp

lemma unat_ucast_32_64 [simp]: "unat (ucast (w :: u32) :: u64) = unat w"
  using unat_bound32 [of w] by (simp add: unsigned_ucast_eq take_bit_eq_mod)

lemma unat_ucast_64_32: "unat (ucast (w :: u64) :: u32) = unat w mod 4294967296"
  by (simp add: unsigned_ucast_eq take_bit_eq_mod)

lemma sint_small:
  fixes w :: u32
  assumes "unat w < 2147483648"
  shows "sint w = int (unat w)"
proof -
  have "uint w < 2147483648"
    unfolding uint_nat using assms by linarith
  then have "signed_take_bit 31 (uint w) = uint w"
    using order_trans [OF _ uint_ge_0 [of w], of "- (2 ^ 31)"]
    by (intro signed_take_bit_int_eq_self) simp_all
  then show ?thesis by (simp add: sint_uint)
qed

lemma sint_large:
  fixes w :: u32
  assumes "2147483648 \<le> unat w"
  shows "sint w = int (unat w) - 4294967296"
proof -
  have "(int (unat w) + 2147483648) mod 4294967296 = int (unat w) - 2147483648"
  proof -
    have "int (unat w) + 2147483648 = (int (unat w) - 2147483648) + 4294967296" by simp
    then have "(int (unat w) + 2147483648) mod 4294967296
        = (int (unat w) - 2147483648) mod 4294967296"
      by (metis mod_add_self2)
    also have "\<dots> = int (unat w) - 2147483648"
      using assms unat_bound32 [of w] by (intro mod_pos_pos_trivial) linarith+
    finally show ?thesis .
  qed
  then show ?thesis
    by (simp add: sint_uint signed_take_bit_eq_take_bit_shift take_bit_eq_mod)
qed

lemma sint_nonneg_iff: "0 \<le> sint (w :: u32) \<longleftrightarrow> unat w < 2147483648"
proof (cases "unat w < 2147483648")
  case True
  then show ?thesis by (simp add: sint_small)
next
  case False
  then show ?thesis
    using sint_large [of w] unat_bound32 [of w] by linarith
qed

section \<open>Lists\<close>

lemma sorted_wrt_mset_pairwise:
  assumes "mset xs = mset ys"
    and "\<And>x y. R x y \<Longrightarrow> R y x"
    and "sorted_wrt R xs"
  shows "sorted_wrt R ys"
  using assms(1,3)
proof (induction ys arbitrary: xs)
  case Nil
  then show ?case by simp
next
  case (Cons y ys)
  from Cons.prems(1) obtain us vs where xs: "xs = us @ y # vs"
    by (metis list.set_intros(1) mset_eq_setD split_list)
  have "mset (us @ vs) = mset ys" using Cons.prems(1) by (simp add: xs)
  moreover have "sorted_wrt R (us @ vs)"
    using Cons.prems(2) by (auto simp: xs sorted_wrt_append)
  ultimately have "sorted_wrt R ys" by (rule Cons.IH)
  moreover have "R y z" if "z \<in> set ys" for z
  proof -
    from that \<open>mset (us @ vs) = mset ys\<close> have "z \<in> set us \<union> set vs"
      by (metis mset_eq_setD set_append)
    then show ?thesis
      using Cons.prems(2) assms(2) by (auto simp: xs sorted_wrt_append)
  qed
  ultimately show ?case by simp
qed

lemma sum_list_map_mset:
  assumes "mset xs = mset ys"
  shows "sum_list (map f xs) = (sum_list (map f ys) :: 'a::comm_monoid_add)"
  by (metis assms mset_map sum_mset_sum_list)

end
