(* ===== verification/Serialize.thy ===== *)
theory Serialize
  imports Prelude
begin

text \<open>
  The serializer of \<open>libtrpc/src/serialize.c\<close>: a growable byte buffer used as a stack.
  Values are appended at \<open>pos\<close> in network byte order and read back from the end, so a
  reader takes them in the reverse of the order they were written.

  A buffer's \<open>data\<close> block is the list of its bytes. The C allocator is a parameter:
  \<open>env n\<close> is \<open>None\<close> when an allocation of \<open>n\<close> bytes fails and otherwise gives the
  indeterminate contents of the new block. Floating-point values are their bit patterns,
  which is all the code touches of them.
\<close>

section \<open>Memory and byte order\<close>

datatype byte_order = Little_endian | Big_endian

type_synonym malloc_env = "u64 \<Rightarrow> (nat \<Rightarrow> u8) option"

definition malloc_block :: "malloc_env \<Rightarrow> u64 \<Rightarrow> bytes option" where
  "malloc_block env n = map_option (\<lambda>f. map f [0..<unat n]) (env n)"

definition realloc_block :: "malloc_env \<Rightarrow> bytes \<Rightarrow> u64 \<Rightarrow> bytes option" where
  "realloc_block env d n =
     map_option (\<lambda>f. map (\<lambda>i. if i < length d then d ! i else f i) [0..<unat n]) (env n)"

definition memcpy_at :: "bytes \<Rightarrow> nat \<Rightarrow> bytes \<Rightarrow> bytes" where
  "memcpy_at d p bs = take p d @ bs @ drop (p + length bs) d"

definition slice :: "bytes \<Rightarrow> nat \<Rightarrow> nat \<Rightarrow> bytes" where
  "slice d p n = take n (drop p d)"

text \<open>The object representation of an \<open>n\<close>-byte integer, least significant byte first.\<close>

definition bytes_le :: "nat \<Rightarrow> 'a::len word \<Rightarrow> bytes" where
  "bytes_le n x = map (\<lambda>i. word_of_nat (unat x div 256 ^ i)) [0..<n]"

definition word_le :: "bytes \<Rightarrow> 'a::len word" where
  "word_le bs = word_of_nat (foldr (\<lambda>b acc. unat b + 256 * acc) bs 0)"

definition store :: "byte_order \<Rightarrow> nat \<Rightarrow> 'a::len word \<Rightarrow> bytes" where
  "store h n x = (case h of Little_endian \<Rightarrow> bytes_le n x | Big_endian \<Rightarrow> rev (bytes_le n x))"

definition load :: "byte_order \<Rightarrow> bytes \<Rightarrow> 'a::len word" where
  "load h bs = (case h of Little_endian \<Rightarrow> word_le bs | Big_endian \<Rightarrow> word_le (rev bs))"

definition bswap :: "nat \<Rightarrow> 'a::len word \<Rightarrow> 'a word" where
  "bswap n x = word_le (rev (bytes_le n x))"

text \<open>
  \<open>htons\<close>, \<open>htonl\<close> and the \<open>htonll\<close>, \<open>htonf\<close>, \<open>htond\<close> of the file swap the bytes on a
  little-endian host and do nothing on a big-endian one; so do their inverses.
\<close>

definition hton :: "byte_order \<Rightarrow> nat \<Rightarrow> 'a::len word \<Rightarrow> 'a word" where
  "hton h n x = (case h of Little_endian \<Rightarrow> bswap n x | Big_endian \<Rightarrow> x)"

definition htonll :: "byte_order \<Rightarrow> u64 \<Rightarrow> u64" where
  "htonll h val = (if h = Little_endian then bswap 8 val else val)"

definition ntohll :: "byte_order \<Rightarrow> u64 \<Rightarrow> u64" where
  "ntohll h val = (if h = Little_endian then bswap 8 val else val)"

definition htonf :: "byte_order \<Rightarrow> u32 \<Rightarrow> u32" where
  "htonf h val = (if h = Little_endian then bswap 4 val else val)"

definition ntohf :: "byte_order \<Rightarrow> u32 \<Rightarrow> u32" where
  "ntohf h val = (if h = Little_endian then bswap 4 val else val)"

definition htond :: "byte_order \<Rightarrow> u64 \<Rightarrow> u64" where
  "htond h val = (if h = Little_endian then bswap 8 val else val)"

definition ntohd :: "byte_order \<Rightarrow> u64 \<Rightarrow> u64" where
  "ntohd h val = (if h = Little_endian then bswap 8 val else val)"

section \<open>Buffers\<close>

record serial_buf =
  sb_data :: bytes
  sb_pos :: u64
  sb_size :: u64

definition INITIAL_SERIAL_BUF_SIZE :: u64 where
  "INITIAL_SERIAL_BUF_SIZE = 32"

text \<open>The flag says whether the allocation of the header struct succeeds.\<close>

definition new_serial_buf :: "bool \<Rightarrow> malloc_env \<Rightarrow> u64 \<Rightarrow> serial_buf option" where
  "new_serial_buf header env sz =
     (if \<not> header then None
      else let sz' = (if sz \<le> 0 then INITIAL_SERIAL_BUF_SIZE else sz)
           in case malloc_block env sz' of
                None \<Rightarrow> None
              | Some d \<Rightarrow> Some \<lparr>sb_data = d, sb_pos = 0, sb_size = sz'\<rparr>)"

definition make_serial_buf :: "bool \<Rightarrow> bytes \<Rightarrow> u64 \<Rightarrow> serial_buf option" where
  "make_serial_buf header data sz =
     (if \<not> header then None else Some \<lparr>sb_data = data, sb_pos = sz, sb_size = sz\<rparr>)"

definition reset_serial_buf :: "serial_buf option \<Rightarrow> serial_buf option" where
  "reset_serial_buf b = map_option (\<lambda>b. b\<lparr>sb_pos := 0\<rparr>) b"

text \<open>\<open>None\<close> is the return value -1; the buffer is then left as it was.\<close>

definition reserve_space :: "malloc_env \<Rightarrow> serial_buf option \<Rightarrow> u64 \<Rightarrow> serial_buf option" where
  "reserve_space env p bytes =
     (case p of None \<Rightarrow> None
      | Some b \<Rightarrow>
          if sb_size b < sb_pos b + bytes then
            let new_size = sb_size b * 2;
                new_size' = (if new_size < sb_pos b + bytes then new_size + bytes else new_size)
            in case realloc_block env (sb_data b) new_size' of
                 None \<Rightarrow> None
               | Some d \<Rightarrow> Some (b\<lparr>sb_data := d, sb_size := new_size'\<rparr>)
          else Some b)"

text \<open>The macro \<open>DEFINE_SERIALIZE_T\<close>: \<open>conv\<close> is the conversion the switch selects.\<close>

definition serialize_T ::
  "malloc_env \<Rightarrow> byte_order \<Rightarrow> nat \<Rightarrow> ('a::len word \<Rightarrow> 'a word) \<Rightarrow> serial_buf option \<Rightarrow> 'a word
   \<Rightarrow> serial_buf option" where
  "serialize_T env h n conv p t =
     (let x = conv t
      in case reserve_space env p (of_nat n) of
           None \<Rightarrow> None
         | Some b \<Rightarrow> Some (b\<lparr>sb_data := memcpy_at (sb_data b) (unat (sb_pos b)) (store h n x),
                             sb_pos := sb_pos b + of_nat n\<rparr>))"

definition deserialize_T ::
  "byte_order \<Rightarrow> nat \<Rightarrow> ('a::len word \<Rightarrow> 'a word) \<Rightarrow> serial_buf \<Rightarrow> ('a word \<times> serial_buf) option" where
  "deserialize_T h n conv b =
     (if sb_pos b < of_nat n then None
      else let b' = b\<lparr>sb_pos := sb_pos b - of_nat n\<rparr>;
               x = load h (slice (sb_data b') (unat (sb_pos b')) n)
           in Some (conv x, b'))"

definition serialize_int8_t :: "malloc_env \<Rightarrow> byte_order \<Rightarrow> serial_buf option \<Rightarrow> u8 \<Rightarrow> serial_buf option" where
  "serialize_int8_t env h = serialize_T env h 1 (\<lambda>t. t)"

definition serialize_int16_t :: "malloc_env \<Rightarrow> byte_order \<Rightarrow> serial_buf option \<Rightarrow> u16 \<Rightarrow> serial_buf option" where
  "serialize_int16_t env h = serialize_T env h 2 (hton h 2)"

definition serialize_int32_t :: "malloc_env \<Rightarrow> byte_order \<Rightarrow> serial_buf option \<Rightarrow> u32 \<Rightarrow> serial_buf option" where
  "serialize_int32_t env h = serialize_T env h 4 (hton h 4)"

definition serialize_int64_t :: "malloc_env \<Rightarrow> byte_order \<Rightarrow> serial_buf option \<Rightarrow> u64 \<Rightarrow> serial_buf option" where
  "serialize_int64_t env h = serialize_T env h 8 (htonll h)"

definition serialize_float :: "malloc_env \<Rightarrow> byte_order \<Rightarrow> serial_buf option \<Rightarrow> u32 \<Rightarrow> serial_buf option" where
  "serialize_float env h = serialize_T env h 4 (htonf h)"

definition serialize_double :: "malloc_env \<Rightarrow> byte_order \<Rightarrow> serial_buf option \<Rightarrow> u64 \<Rightarrow> serial_buf option" where
  "serialize_double env h = serialize_T env h 8 (htond h)"

definition deserialize_int8_t :: "byte_order \<Rightarrow> serial_buf \<Rightarrow> (u8 \<times> serial_buf) option" where
  "deserialize_int8_t h = deserialize_T h 1 (\<lambda>x. x)"

definition deserialize_int16_t :: "byte_order \<Rightarrow> serial_buf \<Rightarrow> (u16 \<times> serial_buf) option" where
  "deserialize_int16_t h = deserialize_T h 2 (hton h 2)"

definition deserialize_int32_t :: "byte_order \<Rightarrow> serial_buf \<Rightarrow> (u32 \<times> serial_buf) option" where
  "deserialize_int32_t h = deserialize_T h 4 (hton h 4)"

definition deserialize_int64_t :: "byte_order \<Rightarrow> serial_buf \<Rightarrow> (u64 \<times> serial_buf) option" where
  "deserialize_int64_t h = deserialize_T h 8 (ntohll h)"

definition deserialize_float :: "byte_order \<Rightarrow> serial_buf \<Rightarrow> (u32 \<times> serial_buf) option" where
  "deserialize_float h = deserialize_T h 4 (ntohf h)"

definition deserialize_double :: "byte_order \<Rightarrow> serial_buf \<Rightarrow> (u64 \<times> serial_buf) option" where
  "deserialize_double h = deserialize_T h 8 (ntohd h)"

text \<open>
  \<open>serialize_blob\<close> writes the \<open>bytes\<close> first bytes at \<open>t\<close>; \<open>t\<close> is the memory there, read
  by \<open>memcpy\<close> up to that count. The sum with \<open>sizeof(bytes)\<close> is a \<open>size_t\<close>.
\<close>

definition serialize_blob ::
  "malloc_env \<Rightarrow> byte_order \<Rightarrow> serial_buf option \<Rightarrow> bytes \<Rightarrow> u32 \<Rightarrow> serial_buf option" where
  "serialize_blob env h p t bytes =
     (case reserve_space env p (ucast bytes + 4) of
        None \<Rightarrow> None
      | Some b \<Rightarrow>
          let b1 = b\<lparr>sb_data := memcpy_at (sb_data b) (unat (sb_pos b)) (take (unat bytes) t),
                     sb_pos := sb_pos b + ucast bytes\<rparr>;
              len = hton h 4 bytes
          in Some (b1\<lparr>sb_data := memcpy_at (sb_data b1) (unat (sb_pos b1)) (store h 4 len),
                      sb_pos := sb_pos b1 + 4\<rparr>))"

text \<open>
  The first component is the data copied out, \<open>None\<close> for the return value -1; the buffer is
  the state the call leaves, which has moved past the length word when that word is bad.
\<close>

definition deserialize_blob :: "byte_order \<Rightarrow> serial_buf \<Rightarrow> bytes option \<times> serial_buf" where
  "deserialize_blob h b =
     (if sb_pos b < 4 then (None, b)
      else let b1 = b\<lparr>sb_pos := sb_pos b - 4\<rparr>;
               bytes = hton h 4 (load h (slice (sb_data b1) (unat (sb_pos b1)) 4) :: u32)
           in if sb_pos b1 < ucast bytes then (None, b1)
              else let b2 = b1\<lparr>sb_pos := sb_pos b1 - ucast bytes\<rparr>
                   in (Some (slice (sb_data b2) (unat (sb_pos b2)) (unat bytes)), b2))"

text \<open>\<open>serialize_str\<close> takes the bytes before the terminator; \<open>strlen\<close> is cut to 32 bits.\<close>

definition serialize_str ::
  "malloc_env \<Rightarrow> byte_order \<Rightarrow> serial_buf option \<Rightarrow> bytes \<Rightarrow> serial_buf option" where
  "serialize_str env h p t =
     (let s = takeWhile (\<lambda>c. c \<noteq> 0) t
      in serialize_blob env h p s (word_of_nat (length s)))"

definition deserialize_str :: "byte_order \<Rightarrow> serial_buf \<Rightarrow> bytes option \<times> serial_buf" where
  "deserialize_str h b =
     (case deserialize_blob h b of
        (None, b') \<Rightarrow> (None, b')
      | (Some d, b') \<Rightarrow> (Some (d @ [0]), b'))"

section \<open>Specification: a stack of bytes\<close>

text \<open>
  The abstract view of a buffer is the bytes below \<open>pos\<close>. A buffer is well formed when
  \<open>data\<close> has \<open>size\<close> bytes and \<open>pos\<close> is within them; an allocator never hands out
  \<open>PTRDIFF_MAX\<close> bytes or more.
\<close>

definition contents :: "serial_buf \<Rightarrow> bytes" where
  "contents b = take (unat (sb_pos b)) (sb_data b)"

definition buf_ok :: "serial_buf \<Rightarrow> bool" where
  "buf_ok b \<longleftrightarrow> length (sb_data b) = unat (sb_size b) \<and> sb_pos b \<le> sb_size b \<and> unat (sb_size b) < 2 ^ 63"

definition env_ok :: "malloc_env \<Rightarrow> bool" where
  "env_ok env \<longleftrightarrow> (\<forall>n. env n \<noteq> None \<longrightarrow> unat n < 2 ^ 63)"

definition wire :: "nat \<Rightarrow> 'a::len word \<Rightarrow> bytes" where
  "wire n x = rev (bytes_le n x)"

fun des_list :: "(serial_buf \<Rightarrow> ('v \<times> serial_buf) option) \<Rightarrow> nat \<Rightarrow> serial_buf \<Rightarrow> ('v list \<times> serial_buf) option" where
  "des_list des 0 b = Some ([], b)"
| "des_list des (Suc n) b =
     (case des b of None \<Rightarrow> None
      | Some (v, b') \<Rightarrow> (case des_list des n b' of None \<Rightarrow> None | Some (vs, b'') \<Rightarrow> Some (v # vs, b'')))"

text \<open>The values a message is made of, and one call per value.\<close>

datatype item =
    Int8 u8 | Int16 u16 | Int32 u32 | Int64 u64 | Float u32 | Double u64 | Blob bytes | Str bytes

fun ser_item :: "malloc_env \<Rightarrow> byte_order \<Rightarrow> serial_buf option \<Rightarrow> item \<Rightarrow> serial_buf option" where
  "ser_item env h p (Int8 x) = serialize_int8_t env h p x"
| "ser_item env h p (Int16 x) = serialize_int16_t env h p x"
| "ser_item env h p (Int32 x) = serialize_int32_t env h p x"
| "ser_item env h p (Int64 x) = serialize_int64_t env h p x"
| "ser_item env h p (Float x) = serialize_float env h p x"
| "ser_item env h p (Double x) = serialize_double env h p x"
| "ser_item env h p (Blob d) = serialize_blob env h p d (word_of_nat (length d))"
| "ser_item env h p (Str d) = serialize_str env h p (d @ [0])"

text \<open>The reader calls the operation of the same type; \<open>shape\<close> is any item of that type.\<close>

definition out :: "('a \<Rightarrow> item) \<Rightarrow> ('a \<times> serial_buf) option \<Rightarrow> (item \<times> serial_buf) option" where
  "out f r = map_option (\<lambda>(x, b). (f x, b)) r"

fun des_item :: "byte_order \<Rightarrow> item \<Rightarrow> serial_buf \<Rightarrow> (item \<times> serial_buf) option" where
  "des_item h (Int8 _) b = out Int8 (deserialize_int8_t h b)"
| "des_item h (Int16 _) b = out Int16 (deserialize_int16_t h b)"
| "des_item h (Int32 _) b = out Int32 (deserialize_int32_t h b)"
| "des_item h (Int64 _) b = out Int64 (deserialize_int64_t h b)"
| "des_item h (Float _) b = out Float (deserialize_float h b)"
| "des_item h (Double _) b = out Double (deserialize_double h b)"
| "des_item h (Blob _) b = (case deserialize_blob h b of (None, _) \<Rightarrow> None | (Some d, b') \<Rightarrow> Some (Blob d, b'))"
| "des_item h (Str _) b = (case deserialize_str h b of (None, _) \<Rightarrow> None | (Some d, b') \<Rightarrow> Some (Str (butlast d), b'))"

fun des_items :: "byte_order \<Rightarrow> item list \<Rightarrow> serial_buf \<Rightarrow> (item list \<times> serial_buf) option" where
  "des_items h [] b = Some ([], b)"
| "des_items h (i # is) b =
     (case des_item h i b of None \<Rightarrow> None
      | Some (v, b') \<Rightarrow> (case des_items h is b' of None \<Rightarrow> None | Some (vs, b'') \<Rightarrow> Some (v # vs, b'')))"

fun enc_item :: "item \<Rightarrow> bytes" where
  "enc_item (Int8 x) = wire 1 x"
| "enc_item (Int16 x) = wire 2 x"
| "enc_item (Int32 x) = wire 4 x"
| "enc_item (Int64 x) = wire 8 x"
| "enc_item (Float x) = wire 4 x"
| "enc_item (Double x) = wire 8 x"
| "enc_item (Blob d) = d @ wire 4 (word_of_nat (length d) :: u32)"
| "enc_item (Str d) = d @ wire 4 (word_of_nat (length d) :: u32)"

fun item_ok :: "item \<Rightarrow> bool" where
  "item_ok (Blob d) = (length d < 2 ^ 32)"
| "item_ok (Str d) = (length d < 2 ^ 32 \<and> 0 \<notin> set d)"
| "item_ok _ = True"

section \<open>Byte order\<close>

lemma length_bytes_le [simp]: "length (bytes_le n x) = n"
  by (simp add: bytes_le_def)

lemma length_wire [simp]: "length (wire n x) = n"
  by (simp add: wire_def)

lemma length_store [simp]: "length (store h n x) = n"
  by (cases h) (simp_all add: store_def)

lemma le_value_bound: "foldr (\<lambda>b acc. unat (b :: u8) + 256 * acc) bs 0 < 256 ^ length bs"
proof (induction bs)
  case (Cons b bs)
  have "unat b < 256" using unsigned_less [of b] by simp
  with Cons.IH show ?case by simp
qed simp

lemma le_value_digit:
  "i < length bs \<Longrightarrow> foldr (\<lambda>b acc. unat (b :: u8) + 256 * acc) bs 0 div 256 ^ i mod 256 = unat (bs ! i)"
proof (induction bs arbitrary: i)
  case (Cons b bs)
  have b: "unat b < 256" using unsigned_less [of b] by simp
  show ?case
  proof (cases i)
    case 0
    with b show ?thesis by simp
  next
    case (Suc j)
    have "(unat b + 256 * v) div (256 * 256 ^ j) = v div 256 ^ j" for v :: nat
      using b by (simp add: div_mult2_eq)
    with Suc Cons show ?thesis by simp
  qed
qed simp

lemma bytes_le_word_le:
  assumes "length bs = n" and "LENGTH('a::len) = 8 * n"
  shows "bytes_le n (word_le bs :: 'a word) = bs"
proof (rule nth_equalityI)
  let ?v = "foldr (\<lambda>b acc. unat (b :: u8) + 256 * acc) bs 0"
  have pow: "(256::nat) ^ n = 2 ^ LENGTH('a)"
    by (simp add: assms(2) power_mult)
  have v: "unat (word_le bs :: 'a word) = ?v"
    using le_value_bound [of bs] assms(1) pow
    by (simp add: word_le_def unat_of_nat)
  fix i
  assume "i < length (bytes_le n (word_le bs :: 'a word))"
  then have i: "i < n" by simp
  have "unat (bytes_le n (word_le bs :: 'a word) ! i) = ?v div 256 ^ i mod 256"
    using i by (simp add: bytes_le_def v unat_of_nat)
  also have "\<dots> = unat (bs ! i)"
    using i assms(1) by (simp add: le_value_digit)
  finally show "bytes_le n (word_le bs :: 'a word) ! i = bs ! i"
    by (simp add: word_unat_eq_iff)
qed (simp add: assms(1))

lemma digits_sum: "foldr (\<lambda>i acc. x div 256 ^ i mod 256 + 256 * acc) [k..<k + n] 0 = x div 256 ^ k mod 256 ^ (n :: nat)" for x :: nat
proof (induction n arbitrary: k)
  case (Suc n)
  have "[k..<k + Suc n] = k # [Suc k..<Suc k + n]"
    by (simp add: upt_rec)
  then have "foldr (\<lambda>i acc. x div 256 ^ i mod 256 + 256 * acc) [k..<k + Suc n] 0
      = x div 256 ^ k mod 256 + 256 * (x div 256 ^ Suc k mod 256 ^ n)"
    using Suc.IH [of "Suc k"] by simp
  also have "\<dots> = x div 256 ^ k mod 256 ^ Suc n"
    using mod_mult2_eq [of "x div 256 ^ k" 256 "256 ^ n"]
    by (simp add: mult.commute flip: div_mult2_eq)
  finally show ?case .
qed simp

lemma word_le_bytes_le:
  assumes "LENGTH('a::len) = 8 * n"
  shows "word_le (bytes_le n x) = (x :: 'a word)"
proof -
  have pow: "(256::nat) ^ n = 2 ^ LENGTH('a)"
    by (simp add: assms power_mult)
  have "foldr (\<lambda>b acc. unat (b :: u8) + 256 * acc) (bytes_le n x) 0
      = foldr (\<lambda>i acc. unat x div 256 ^ i mod 256 + 256 * acc) [0..<n] 0"
    by (simp add: bytes_le_def foldr_map comp_def unat_of_nat)
  also have "\<dots> = unat x mod 256 ^ n"
    using digits_sum [of "unat x" 0 n] by simp
  also have "\<dots> = unat x"
    using pow unsigned_less [of x] by simp
  finally show ?thesis by (simp add: word_le_def)
qed

lemma store_hton [simp]:
  assumes "LENGTH('a::len) = 8 * n"
  shows "store h n (hton h n (x :: 'a word)) = wire n x"
  using assms by (cases h) (simp_all add: store_def hton_def bswap_def wire_def bytes_le_word_le)

lemma hton_load [simp]:
  assumes "LENGTH('a::len) = 8 * n"
  shows "hton h n (load h (wire n x) :: 'a word) = x"
  using assms
  by (cases h) (simp_all add: load_def hton_def bswap_def wire_def bytes_le_word_le word_le_bytes_le)

lemma conv_hton:
  "htonll h = hton h 8" "ntohll h = hton h 8" "htonf h = hton h 4" "ntohf h = hton h 4"
  "htond h = hton h 8" "ntohd h = hton h 8"
  by (cases h; simp add: fun_eq_iff hton_def htonll_def ntohll_def htonf_def ntohf_def htond_def ntohd_def)+

lemma byte_wire: "store h 1 (x :: u8) = wire 1 x" "load h (wire 1 x) = (x :: u8)"
  by (cases h; simp add: store_def load_def wire_def bytes_le_def word_le_def)+

section \<open>Room for the next value\<close>

lemma contents_length: "buf_ok b \<Longrightarrow> length (contents b) = unat (sb_pos b)"
  by (simp add: contents_def buf_ok_def word_le_nat_alt)

lemma realloc_block_Some:
  assumes "realloc_block env d n = Some d'"
  shows "length d' = unat n" and "env n \<noteq> None"
    and "\<And>k. k \<le> length d \<Longrightarrow> k \<le> unat n \<Longrightarrow> take k d' = take k d"
proof -
  from assms obtain f where f: "env n = Some f"
    and d': "d' = map (\<lambda>i. if i < length d then d ! i else f i) [0..<unat n]"
    by (auto simp: realloc_block_def)
  show "length d' = unat n" and "env n \<noteq> None"
    by (simp_all add: d' f)
  fix k
  assume "k \<le> length d" "k \<le> unat n"
  then show "take k d' = take k d"
    by (intro nth_equalityI) (auto simp: d')
qed

text \<open>
  Growing never loses data and always makes enough room: doubling, or doubling plus the
  request, covers \<open>pos + bytes\<close> and does not wrap.
\<close>

lemma reserve_space_Some:
  assumes ok: "buf_ok b" and env: "env_ok env" and n: "unat n < 2 ^ 62"
    and r: "reserve_space env (Some b) n = Some b'"
  shows "buf_ok b'" and "sb_pos b' = sb_pos b" and "contents b' = contents b"
    and "unat (sb_pos b) + unat n \<le> unat (sb_size b')"
proof -
  have pos: "unat (sb_pos b) \<le> unat (sb_size b)" and sz: "unat (sb_size b) < 2 ^ 63"
    and len: "length (sb_data b) = unat (sb_size b)"
    using ok by (simp_all add: buf_ok_def word_le_nat_alt)
  have need: "unat (sb_pos b + n) = unat (sb_pos b) + unat n"
    using pos sz n by (intro unat_add_small) simp
  have dbl: "unat (sb_size b * 2) = unat (sb_size b) * 2"
    using sz by (simp add: unat_mult_small)
  define m where "m = (if sb_size b * 2 < sb_pos b + n then sb_size b * 2 + n else sb_size b * 2)"
  have m: "unat (sb_pos b) + unat n \<le> unat m" and m_pos: "unat (sb_pos b) \<le> unat m"
  proof -
    have "unat m = unat (sb_size b) * 2 + unat n" if "sb_size b * 2 < sb_pos b + n"
    proof -
      from that need dbl pos have "unat (sb_size b) < unat n"
        by (simp add: word_less_nat_alt)
      with n that show ?thesis by (simp add: m_def unat_add_small dbl)
    qed
    moreover have "unat m = unat (sb_size b) * 2 \<and> unat (sb_pos b) + unat n \<le> unat (sb_size b) * 2"
      if "\<not> sb_size b * 2 < sb_pos b + n"
      using that need dbl by (simp add: m_def word_less_nat_alt)
    ultimately show "unat (sb_pos b) + unat n \<le> unat m" and "unat (sb_pos b) \<le> unat m"
      using pos by (cases "sb_size b * 2 < sb_pos b + n"; simp)+
  qed
  have "buf_ok b' \<and> sb_pos b' = sb_pos b \<and> contents b' = contents b
      \<and> unat (sb_pos b) + unat n \<le> unat (sb_size b')"
  proof (cases "sb_size b < sb_pos b + n")
    case True
    with r obtain d where d: "realloc_block env (sb_data b) m = Some d"
      and b': "b' = b\<lparr>sb_data := d, sb_size := m\<rparr>"
      by (auto simp: reserve_space_def Let_def m_def split: option.splits)
    from realloc_block_Some(1,2) [OF d] env have "length d = unat m" "unat m < 2 ^ 63"
      by (auto simp: env_ok_def)
    moreover have "take (unat (sb_pos b)) d = take (unat (sb_pos b)) (sb_data b)"
      using realloc_block_Some(3) [OF d] pos len m_pos by simp
    ultimately show ?thesis
      using m m_pos by (simp add: b' buf_ok_def contents_def word_le_nat_alt)
  next
    case False
    with r ok need show ?thesis
      by (auto simp: reserve_space_def word_less_nat_alt)
  qed
  then show "buf_ok b'" "sb_pos b' = sb_pos b" "contents b' = contents b"
    "unat (sb_pos b) + unat n \<le> unat (sb_size b')"
    by simp_all
qed

section \<open>Writing and reading as stack operations\<close>

lemma write_push:
  assumes ok: "buf_ok b" and room: "unat (sb_pos b) + length bs \<le> unat (sb_size b)"
    and n: "unat n = length bs"
  shows "buf_ok (b\<lparr>sb_data := memcpy_at (sb_data b) (unat (sb_pos b)) bs, sb_pos := sb_pos b + n\<rparr>)"
    and "contents (b\<lparr>sb_data := memcpy_at (sb_data b) (unat (sb_pos b)) bs, sb_pos := sb_pos b + n\<rparr>)
         = contents b @ bs"
proof -
  have sz: "unat (sb_size b) < 2 ^ 63" "length (sb_data b) = unat (sb_size b)"
    using ok by (simp_all add: buf_ok_def)
  have pos: "unat (sb_pos b + n) = unat (sb_pos b) + length bs"
    using room sz n by (subst unat_add_small) simp_all
  show "buf_ok (b\<lparr>sb_data := memcpy_at (sb_data b) (unat (sb_pos b)) bs, sb_pos := sb_pos b + n\<rparr>)"
    using sz room pos by (simp add: buf_ok_def memcpy_at_def word_le_nat_alt)
  show "contents (b\<lparr>sb_data := memcpy_at (sb_data b) (unat (sb_pos b)) bs, sb_pos := sb_pos b + n\<rparr>)
         = contents b @ bs"
    using sz room pos by (simp add: contents_def memcpy_at_def)
qed

lemma read_pop:
  assumes ok: "buf_ok b" and c: "contents b = c @ bs" and n: "unat n = length bs"
  shows "\<not> sb_pos b < n" and "buf_ok (b\<lparr>sb_pos := sb_pos b - n\<rparr>)"
    and "contents (b\<lparr>sb_pos := sb_pos b - n\<rparr>) = c"
    and "slice (sb_data b) (unat (sb_pos b - n)) (length bs) = bs"
proof -
  have pos: "unat (sb_pos b) = length c + length bs"
    using contents_length [OF ok] c by simp
  then show le: "\<not> sb_pos b < n"
    using n by (simp add: word_less_nat_alt)
  then have diff: "unat (sb_pos b - n) = length c"
    using pos n by (simp add: unat_diff_le)
  have len: "length (sb_data b) = unat (sb_size b)" and le_sz: "unat (sb_pos b) \<le> unat (sb_size b)"
    using ok by (simp_all add: buf_ok_def word_le_nat_alt)
  show "buf_ok (b\<lparr>sb_pos := sb_pos b - n\<rparr>)"
    using ok diff pos by (simp add: buf_ok_def word_le_nat_alt)
  have d: "sb_data b = (c @ bs) @ drop (unat (sb_pos b)) (sb_data b)"
    using c by (metis append_take_drop_id contents_def)
  show "contents (b\<lparr>sb_pos := sb_pos b - n\<rparr>) = c"
    using diff arg_cong [OF d, of "take (length c)"] by (simp add: contents_def)
  show "slice (sb_data b) (unat (sb_pos b - n)) (length bs) = bs"
    using diff arg_cong [OF d, of "\<lambda>x. take (length bs) (drop (length c) x)"] by (simp add: slice_def)
qed

lemma serialize_T_push:
  assumes ok: "buf_ok b" and env: "env_ok env" and n: "n < 100"
    and r: "serialize_T env h n conv (Some b) t = Some b'"
  shows "buf_ok b'" and "contents b' = contents b @ store h n (conv t)"
proof -
  have un: "unat (of_nat n :: u64) = n" using n by (simp add: unat_of_nat)
  from r obtain b1 where b1: "reserve_space env (Some b) (of_nat n) = Some b1"
    and b': "b' = b1\<lparr>sb_data := memcpy_at (sb_data b1) (unat (sb_pos b1)) (store h n (conv t)),
                     sb_pos := sb_pos b1 + of_nat n\<rparr>"
    by (auto simp: serialize_T_def Let_def split: option.splits)
  have small: "unat (of_nat n :: u64) < 2 ^ 62" using un n by simp
  note res = reserve_space_Some [OF ok env small b1]
  have room: "unat (sb_pos b1) + length (store h n (conv t)) \<le> unat (sb_size b1)"
    using res(2,4) un by simp
  show "buf_ok b'"
    unfolding b' by (rule write_push(1) [OF res(1) room]) (simp add: un)
  show "contents b' = contents b @ store h n (conv t)"
    unfolding b' using write_push(2) [OF res(1) room] res(3) un by simp
qed

lemma deserialize_T_pop:
  assumes ok: "buf_ok b" and c: "contents b = c @ bs" and n: "length bs = n" "n < 100"
  shows "\<exists>b'. deserialize_T h n conv b = Some (conv (load h bs), b') \<and> buf_ok b' \<and> contents b' = c"
proof -
  have un: "unat (of_nat n :: u64) = length bs" using n by (simp add: unat_of_nat)
  note pop = read_pop [OF ok c un]
  show ?thesis
    using pop n by (auto simp: deserialize_T_def Let_def)
qed

section \<open>The contract of a codec\<close>

locale codec =
  fixes ser :: "serial_buf option \<Rightarrow> 'v \<Rightarrow> serial_buf option"
    and des :: "serial_buf \<Rightarrow> ('v \<times> serial_buf) option"
    and enc :: "'v \<Rightarrow> bytes"
    and valid :: "'v \<Rightarrow> bool"
  assumes ser_None: "ser None v = None"
    and ser_ok: "buf_ok b \<Longrightarrow> valid v \<Longrightarrow> ser (Some b) v = Some b' \<Longrightarrow> buf_ok b'"
    and ser_push: "buf_ok b \<Longrightarrow> valid v \<Longrightarrow> ser (Some b) v = Some b' \<Longrightarrow> contents b' = contents b @ enc v"
    and des_pop: "buf_ok b \<Longrightarrow> valid v \<Longrightarrow> contents b = c @ enc v
        \<Longrightarrow> \<exists>b'. des b = Some (v, b') \<and> buf_ok b' \<and> contents b' = c"
begin

lemma roundtrip:
  assumes "buf_ok b" "valid v" "ser (Some b) v = Some b'"
  shows "\<exists>b''. des b' = Some (v, b'') \<and> buf_ok b'' \<and> contents b'' = contents b"
  using des_pop [OF ser_ok [OF assms] assms(2) ser_push [OF assms]] .

lemma foldl_None: "foldl ser None vs = None"
  by (induction vs) (simp_all add: ser_None)

lemma ser_all:
  assumes "buf_ok b" "list_all valid vs" "foldl ser (Some b) vs = Some b'"
  shows "buf_ok b' \<and> contents b' = contents b @ concat (map enc vs)"
  using assms
proof (induction vs arbitrary: b)
  case (Cons v vs)
  then obtain b1 where b1: "ser (Some b) v = Some b1"
    by (cases "ser (Some b) v") (auto simp: foldl_None)
  with Cons.prems ser_ok ser_push have "buf_ok b1" "contents b1 = contents b @ enc v" by auto
  with Cons.IH [of b1] Cons.prems b1 show ?case by simp
qed simp

lemma des_all:
  assumes "buf_ok b" "list_all valid vs" "contents b = c @ concat (map enc vs)"
  shows "\<exists>b'. des_list des (length vs) b = Some (rev vs, b') \<and> buf_ok b' \<and> contents b' = c"
  using assms
proof (induction vs arbitrary: b rule: rev_induct)
  case (snoc v vs)
  then have v: "valid v" and vs: "list_all valid vs" by simp_all
  from snoc.prems(3) have "contents b = (c @ concat (map enc vs)) @ enc v" by simp
  from des_pop [OF snoc.prems(1) v this] obtain b1 where b1: "des b = Some (v, b1)"
    "buf_ok b1" "contents b1 = c @ concat (map enc vs)" by auto
  from snoc.IH [OF b1(2) vs b1(3)] b1(1) show ?case by auto
qed simp

lemma roundtrip_all:
  assumes "buf_ok b" "list_all valid vs" "foldl ser (Some b) vs = Some b'"
  shows "\<exists>b''. des_list des (length vs) b' = Some (rev vs, b'') \<and> buf_ok b'' \<and> contents b'' = contents b"
proof -
  have "buf_ok b'" "contents b' = contents b @ concat (map enc vs)"
    using ser_all [OF assms] by simp_all
  from des_all [OF this(1) assms(2) this(2)] show ?thesis .
qed

end

text \<open>An allocator cut to the sizes a C allocator can serve.\<close>

definition capped :: "malloc_env \<Rightarrow> malloc_env" where
  "capped env n = (if unat n < 2 ^ 63 then env n else None)"

lemma env_ok_capped [simp]: "env_ok (capped env)"
  by (simp add: env_ok_def capped_def)

lemma capped_id: "env_ok env \<Longrightarrow> capped env = env"
proof (rule ext)
  fix n
  assume "env_ok env"
  then show "capped env n = env n"
    by (cases "env n") (auto simp: env_ok_def capped_def)
qed

lemma fixed_codec:
  fixes conv conv' :: "'a::len word \<Rightarrow> 'a word"
  assumes n: "n < 100"
    and st: "\<And>x. store h n (conv x) = wire n x"
    and ld: "\<And>x. conv' (load h' (wire n x)) = x"
  shows "codec (serialize_T (capped env) h n conv) (deserialize_T h' n conv') (wire n) (\<lambda>_. True)"
proof
  fix v :: "'a word" and b b' c
  show "serialize_T (capped env) h n conv None v = None"
    by (simp add: serialize_T_def reserve_space_def Let_def)
  assume ok: "buf_ok b"
  show "contents b = c @ wire n v
      \<Longrightarrow> \<exists>b'. deserialize_T h' n conv' b = Some (v, b') \<and> buf_ok b' \<and> contents b' = c"
    using deserialize_T_pop [OF ok, of c "wire n v" n h' conv'] n ld by simp
  assume r: "serialize_T (capped env) h n conv (Some b) v = Some b'"
  from serialize_T_push [OF ok env_ok_capped n r] st
  show "buf_ok b'" "contents b' = contents b @ wire n v" by simp_all
qed

interpretation int8: codec "serialize_int8_t (capped env) h" "deserialize_int8_t h'" "wire 1" "\<lambda>_. True"
  for env h h'
  unfolding serialize_int8_t_def deserialize_int8_t_def
  by (rule fixed_codec) (simp_all add: byte_wire [simplified])

interpretation int16: codec "serialize_int16_t (capped env) h" "deserialize_int16_t h'" "wire 2" "\<lambda>_. True"
  for env h h'
  unfolding serialize_int16_t_def deserialize_int16_t_def
  by (rule fixed_codec) simp_all

interpretation int32: codec "serialize_int32_t (capped env) h" "deserialize_int32_t h'" "wire 4" "\<lambda>_. True"
  for env h h'
  unfolding serialize_int32_t_def deserialize_int32_t_def
  by (rule fixed_codec) simp_all

interpretation int64: codec "serialize_int64_t (capped env) h" "deserialize_int64_t h'" "wire 8" "\<lambda>_. True"
  for env h h'
  unfolding serialize_int64_t_def deserialize_int64_t_def conv_hton
  by (rule fixed_codec) simp_all

interpretation flt: codec "serialize_float (capped env) h" "deserialize_float h'" "wire 4" "\<lambda>_. True"
  for env h h'
  unfolding serialize_float_def deserialize_float_def conv_hton
  by (rule fixed_codec) simp_all

interpretation dbl: codec "serialize_double (capped env) h" "deserialize_double h'" "wire 8" "\<lambda>_. True"
  for env h h'
  unfolding serialize_double_def deserialize_double_def conv_hton
  by (rule fixed_codec) simp_all

lemma serialize_blob_push:
  assumes ok: "buf_ok b" and env: "env_ok env" and len: "unat bytes \<le> length t"
    and r: "serialize_blob env h (Some b) t bytes = Some b'"
  shows "buf_ok b'" and "contents b' = contents b @ take (unat bytes) t @ wire 4 bytes"
proof -
  have n: "unat (ucast bytes + 4 :: u64) = unat bytes + 4"
    using unat_bound32 [of bytes] by (subst unat_add_small) simp_all
  have small: "unat (ucast bytes + 4 :: u64) < 2 ^ 62"
    using unat_bound32 [of bytes] n by simp
  from r obtain b1 where b1: "reserve_space env (Some b) (ucast bytes + 4) = Some b1"
    by (auto simp: serialize_blob_def split: option.splits)
  note res = reserve_space_Some [OF ok env small b1]
  let ?t = "take (unat bytes) t"
  define b2 where "b2 = b1\<lparr>sb_data := memcpy_at (sb_data b1) (unat (sb_pos b1)) ?t,
    sb_pos := sb_pos b1 + ucast bytes\<rparr>"
  have t: "length ?t = unat bytes" using len by simp
  have room1: "unat (sb_pos b1) + length ?t \<le> unat (sb_size b1)"
    using res(2,4) n t by simp
  have b2: "buf_ok b2" "contents b2 = contents b @ ?t"
    unfolding b2_def using write_push [OF res(1) room1, of "ucast bytes"] t res(3) by simp_all
  have "unat (sb_pos b2) = unat (sb_pos b1) + unat bytes"
    using contents_length [OF b2(1)] contents_length [OF ok] b2(2) t res(2) by simp
  then have room2: "unat (sb_pos b2) + length (store h 4 (hton h 4 bytes)) \<le> unat (sb_size b2)"
    using res(2,4) n by (simp add: b2_def)
  have b': "b' = b2\<lparr>sb_data := memcpy_at (sb_data b2) (unat (sb_pos b2)) (store h 4 (hton h 4 bytes)),
      sb_pos := sb_pos b2 + 4\<rparr>"
    using r b1 by (simp add: serialize_blob_def Let_def b2_def)
  show "buf_ok b'" and "contents b' = contents b @ ?t @ wire 4 bytes"
    unfolding b' using write_push [OF b2(1) room2, of 4] b2(2) by simp_all
qed

lemma deserialize_blob_pop:
  assumes ok: "buf_ok b" and c: "contents b = c @ d @ wire 4 (word_of_nat (length d) :: u32)"
    and len: "length d < 2 ^ 32"
  shows "\<exists>b'. deserialize_blob h b = (Some d, b') \<and> buf_ok b' \<and> contents b' = c"
proof -
  let ?n = "word_of_nat (length d) :: u32"
  have n: "unat ?n = length d" "unat (ucast ?n :: u64) = length d"
    using len by (simp_all add: unat_of_nat)
  from c have c1: "contents b = (c @ d) @ wire 4 ?n" by simp
  note p1 = read_pop [OF ok c1, of 4, simplified]
  let ?b1 = "b\<lparr>sb_pos := sb_pos b - 4\<rparr>"
  note p2 = read_pop [OF p1(2) p1(3) n(2)]
  show ?thesis
    using p1 p2 n by (auto simp: deserialize_blob_def Let_def)
qed

lemma serialize_blob_None [simp]: "serialize_blob env h None t n = None"
  by (simp add: serialize_blob_def reserve_space_def)

interpretation blob: codec
    "\<lambda>p d. serialize_blob (capped env) h p d (word_of_nat (length d))"
    "\<lambda>b. case deserialize_blob h' b of (None, _) \<Rightarrow> None | (Some d, b') \<Rightarrow> Some (d, b')"
    "\<lambda>d. d @ wire 4 (word_of_nat (length d) :: u32)" "\<lambda>d. length d < 2 ^ 32"
  for env h h'
proof
  fix b b' :: serial_buf and c d :: bytes
  let ?n = "word_of_nat (length d) :: u32"
  show "serialize_blob (capped env) h None d ?n = None" by simp
  assume ok: "buf_ok b" and len: "length d < 2 ^ 32"
  have n: "unat ?n = length d" using len by (simp add: unat_of_nat)
  show "contents b = c @ d @ wire 4 ?n \<Longrightarrow>
      \<exists>b'. (case deserialize_blob h' b of (None, _) \<Rightarrow> None | (Some d, b') \<Rightarrow> Some (d, b')) = Some (d, b')
        \<and> buf_ok b' \<and> contents b' = c"
    using deserialize_blob_pop [OF ok _ len, of c h'] by auto
  assume "serialize_blob (capped env) h (Some b) d ?n = Some b'"
  from serialize_blob_push [OF ok env_ok_capped _ this] n
  show "buf_ok b'" "contents b' = contents b @ d @ wire 4 ?n" by simp_all
qed

lemma serialize_str_blob:
  "0 \<notin> set d \<Longrightarrow> serialize_str env h p (d @ [0]) = serialize_blob env h p d (word_of_nat (length d))"
proof -
  assume "0 \<notin> set d"
  then have "takeWhile (\<lambda>c. c \<noteq> 0) (d @ [0]) = d"
    by (induction d) auto
  then show ?thesis by (simp add: serialize_str_def)
qed

section \<open>Messages of mixed values\<close>

lemma ser_item_None [simp]: "ser_item env h None i = None"
  by (cases i)
    (simp_all add: serialize_int8_t_def serialize_int16_t_def serialize_int32_t_def serialize_int64_t_def
      serialize_float_def serialize_double_def serialize_T_def serialize_str_def reserve_space_def)

lemma foldl_ser_item_None: "foldl (ser_item env h) None is = None"
  by (induction "is") simp_all

lemma ser_item_push:
  assumes ok: "buf_ok b" and i: "item_ok i" and r: "ser_item (capped env) h (Some b) i = Some b'"
  shows "buf_ok b'" and "contents b' = contents b @ enc_item i"
proof -
  have "buf_ok b' \<and> contents b' = contents b @ enc_item i"
  proof (cases i)
    case (Str d)
    with i r have "serialize_blob (capped env) h (Some b) d (word_of_nat (length d)) = Some b'"
      by (simp add: serialize_str_blob)
    with Str i blob.ser_ok [OF ok _ this] blob.ser_push [OF ok _ this] show ?thesis by simp
  qed (use r i int8.ser_ok [OF ok] int8.ser_push [OF ok] int16.ser_ok [OF ok] int16.ser_push [OF ok]
      int32.ser_ok [OF ok] int32.ser_push [OF ok] int64.ser_ok [OF ok] int64.ser_push [OF ok]
      flt.ser_ok [OF ok] flt.ser_push [OF ok] dbl.ser_ok [OF ok] dbl.ser_push [OF ok]
      blob.ser_ok [OF ok] blob.ser_push [OF ok] in \<open>simp; blast\<close>)+
  then show "buf_ok b'" "contents b' = contents b @ enc_item i" by simp_all
qed

lemma des_item_pop:
  assumes ok: "buf_ok b" and i: "item_ok i" and c: "contents b = c @ enc_item i"
  shows "\<exists>b'. des_item h i b = Some (i, b') \<and> buf_ok b' \<and> contents b' = c"
proof (cases i)
  case (Int8 x)
  with int8.des_pop [OF ok TrueI, of c x h] c show ?thesis by (auto simp: out_def)
next
  case (Int16 x)
  with int16.des_pop [OF ok TrueI, of c x h] c show ?thesis by (auto simp: out_def)
next
  case (Int32 x)
  with int32.des_pop [OF ok TrueI, of c x h] c show ?thesis by (auto simp: out_def)
next
  case (Int64 x)
  with int64.des_pop [OF ok TrueI, of c x h] c show ?thesis by (auto simp: out_def)
next
  case (Float x)
  with flt.des_pop [OF ok TrueI, of c x h] c show ?thesis by (auto simp: out_def)
next
  case (Double x)
  with dbl.des_pop [OF ok TrueI, of c x h] c show ?thesis by (auto simp: out_def)
next
  case (Blob d)
  with deserialize_blob_pop [OF ok, of c d h] c i show ?thesis by auto
next
  case (Str d)
  with deserialize_blob_pop [OF ok, of c d h] c i show ?thesis
    by (auto simp: deserialize_str_def)
qed

lemma ser_items_push:
  assumes "buf_ok b" "list_all item_ok is" "foldl (ser_item (capped env) h) (Some b) is = Some b'"
  shows "buf_ok b' \<and> contents b' = contents b @ concat (map enc_item is)"
  using assms
proof (induction "is" arbitrary: b)
  case (Cons i "is")
  then obtain b1 where b1: "ser_item (capped env) h (Some b) i = Some b1"
    by (cases "ser_item (capped env) h (Some b) i") (auto simp: foldl_ser_item_None)
  with Cons.prems ser_item_push [of b i env h b1]
  have "buf_ok b1" "contents b1 = contents b @ enc_item i" by auto
  with Cons.IH [of b1] Cons.prems b1 show ?case by simp
qed simp

lemma des_items_pop:
  assumes "buf_ok b" "list_all item_ok is" "contents b = c @ concat (map enc_item is)"
  shows "\<exists>b'. des_items h (rev is) b = Some (rev is, b') \<and> buf_ok b' \<and> contents b' = c"
  using assms
proof (induction "is" arbitrary: b rule: rev_induct)
  case (snoc i "is")
  then have ok: "item_ok i" and oks: "list_all item_ok is" by simp_all
  from snoc.prems(3) have "contents b = (c @ concat (map enc_item is)) @ enc_item i" by simp
  from des_item_pop [OF snoc.prems(1) ok this, of h] obtain b1 where b1: "des_item h i b = Some (i, b1)"
    "buf_ok b1" "contents b1 = c @ concat (map enc_item is)" by auto
  from snoc.IH [OF b1(2) oks b1(3)] b1(1) show ?case by auto
qed simp

text \<open>Serialization fails only when the allocator does.\<close>

definition generous :: "malloc_env \<Rightarrow> bool" where
  "generous env \<longleftrightarrow> (\<forall>n. unat n < 2 ^ 63 \<longrightarrow> env n \<noteq> None)"

lemma reserve_space_total:
  assumes ok: "buf_ok b" and gen: "generous env" and n: "unat (sb_pos b) + unat n < 2 ^ 61"
  shows "reserve_space env (Some b) n \<noteq> None"
proof (cases "sb_size b < sb_pos b + n")
  case True
  have need: "unat (sb_pos b + n) = unat (sb_pos b) + unat n"
    using n by (intro unat_add_small) simp
  with True n have sz: "unat (sb_size b) < 2 ^ 61" by (simp add: word_less_nat_alt)
  then have dbl: "unat (sb_size b * 2) = unat (sb_size b) * 2" by (simp add: unat_mult_small)
  define m where "m = (if sb_size b * 2 < sb_pos b + n then sb_size b * 2 + n else sb_size b * 2)"
  have "unat (sb_size b * 2 + n) = unat (sb_size b) * 2 + unat n"
    using sz n by (subst unat_add_small) (simp_all add: dbl)
  then have "unat m < 2 ^ 63" using sz n dbl by (simp add: m_def)
  with gen have "env m \<noteq> None" by (simp add: generous_def)
  with True show ?thesis
    by (auto simp: reserve_space_def Let_def realloc_block_def m_def [symmetric])
qed (simp add: reserve_space_def)

lemma serialize_T_total:
  assumes "buf_ok b" "generous env" "n < 100" "unat (sb_pos b) + n < 2 ^ 61"
  shows "\<exists>b'. serialize_T env h n conv (Some b) x = Some b'"
  using reserve_space_total [OF assms(1,2), of "of_nat n"] assms(3,4)
  by (auto simp: serialize_T_def Let_def unat_of_nat split: option.splits)

lemma ser_item_total:
  assumes ok: "buf_ok b" and gen: "generous env" and i: "item_ok i"
    and n: "unat (sb_pos b) + length (enc_item i) < 2 ^ 61"
  shows "ser_item env h (Some b) i \<noteq> None"
proof -
  have var: "serialize_blob env h (Some b) d (word_of_nat (length d)) \<noteq> None"
    if "length d < 2 ^ 32" "unat (sb_pos b) + (length d + 4) < 2 ^ 61" for d
  proof -
    have "unat (ucast (word_of_nat (length d) :: u32) + 4 :: u64) = length d + 4"
      using that by (subst unat_add_small) (simp_all add: unat_of_nat)
    with reserve_space_total [OF ok gen, of "ucast (word_of_nat (length d) :: u32) + 4"] that
    show ?thesis by (auto simp: serialize_blob_def Let_def split: option.splits)
  qed
  show ?thesis
    using n i var
    by (cases i) (simp_all add: serialize_T_total [OF ok gen] serialize_int8_t_def serialize_int16_t_def serialize_int32_t_def
      serialize_int64_t_def serialize_float_def serialize_double_def serialize_str_blob)
qed

lemma ser_items_total:
  assumes "buf_ok b" "generous env" "env_ok env" "list_all item_ok is"
    "unat (sb_pos b) + length (concat (map enc_item is)) < 2 ^ 61"
  shows "foldl (ser_item env h) (Some b) is \<noteq> None"
  using assms
proof (induction "is" arbitrary: b)
  case (Cons i "is")
  then obtain b1 where b1: "ser_item env h (Some b) i = Some b1"
    using ser_item_total [of b env i h] by auto
  then have "ser_item (capped env) h (Some b) i = Some b1"
    using Cons.prems by (simp add: capped_id)
  with Cons.prems ser_item_push [of b i env h b1]
  have b1': "buf_ok b1" "contents b1 = contents b @ enc_item i" by auto
  have "unat (sb_pos b1) = unat (sb_pos b) + length (enc_item i)"
    using contents_length [OF b1'(1)] contents_length [OF Cons.prems(1)] b1'(2) by simp
  with Cons.IH [OF b1'(1)] Cons.prems b1 show ?case by simp
qed simp

section \<open>Properties\<close>

text \<open>A heap that serves every request a C allocator may serve, with fresh blocks of bytes 7.\<close>

definition demo_heap :: malloc_env where
  "demo_heap n = (if n < 9223372036854775808 then Some (\<lambda>_. 7) else None)"

lemma demo_heap_ok: "env_ok demo_heap" "generous demo_heap"
  by (auto simp: env_ok_def generous_def demo_heap_def word_less_nat_alt split: if_splits)

text \<open>C34: A message of values of any of the serializer's types, written on a host of one byte order
  into any buffer, is read back on a host of the same or of the other byte order as the same values,
  last written first, and reading leaves what the buffer held before.\<close>

theorem message_roundtrip:
  assumes "buf_ok b" "env_ok env" "list_all item_ok is"
    and "foldl (ser_item env h) (Some b) is = Some b'"
  shows "\<exists>b''. des_items h' (rev is) b' = Some (rev is, b'') \<and> contents b'' = contents b"
proof -
  have "buf_ok b'" "contents b' = contents b @ concat (map enc_item is)"
    using ser_items_push [OF assms(1,3), of env h b'] assms(2,4) by (simp_all add: capped_id)
  from des_items_pop [OF this(1) assms(3) this(2)] show ?thesis by blast
qed

definition demo_buf :: serial_buf where
  "demo_buf = \<lparr>sb_data = [9, 0, 0], sb_pos = 1, sb_size = 3\<rparr>"

definition demo_items :: "item list" where
  "demo_items = [Int32 0x01020304, Str [116, 105], Int16 7]"

theorem message_roundtrip_witness:
  "\<exists>b'. foldl (ser_item demo_heap Little_endian) (Some demo_buf) demo_items = Some b'
     \<and> (\<exists>b''. des_items Big_endian (rev demo_items) b' = Some (rev demo_items, b'') \<and> contents b'' = [9])"
proof -
  have ok: "buf_ok demo_buf" "list_all item_ok demo_items" "contents demo_buf = [9]"
    by (simp_all add: buf_ok_def demo_buf_def demo_items_def contents_def)
  from ser_items_total [OF ok(1) demo_heap_ok(2,1) ok(2)]
  obtain b' where b': "foldl (ser_item demo_heap Little_endian) (Some demo_buf) demo_items = Some b'"
    by (auto simp: demo_buf_def demo_items_def)
  from message_roundtrip [OF ok(1) demo_heap_ok(1) ok(2) b', of Big_endian] ok(3) b'
  show ?thesis by auto
qed

text \<open>While the allocator serves requests and the message stays below 2 to the 61 bytes, writing
  a message succeeds: the buffer stays well formed (every write is inside the block) and holds what
  it held followed by the values in network byte order, whatever the host's byte order.\<close>

theorem message_wire_format:
  assumes "buf_ok b" "env_ok env" "generous env" "list_all item_ok is"
    and "unat (sb_pos b) + length (concat (map enc_item is)) < 2 ^ 61"
  shows "\<exists>b'. foldl (ser_item env h) (Some b) is = Some b' \<and> buf_ok b'
    \<and> contents b' = contents b @ concat (map enc_item is)"
proof -
  from ser_items_total [OF assms(1,3,2,4,5)] obtain b'
    where b': "foldl (ser_item env h) (Some b) is = Some b'" by blast
  with ser_items_push [OF assms(1,4), of env h b'] assms(2) show ?thesis by (simp add: capped_id)
qed

theorem message_wire_format_witness:
  "\<exists>b'. foldl (ser_item demo_heap Little_endian) (Some demo_buf) demo_items = Some b' \<and> buf_ok b'
    \<and> contents b' = [9, 1, 2, 3, 4, 116, 105, 0, 0, 0, 2, 0, 7]"
proof -
  have ok: "buf_ok demo_buf" "list_all item_ok demo_items"
    "unat (sb_pos demo_buf) + length (concat (map enc_item demo_items)) < 2 ^ 61"
    by (simp_all add: buf_ok_def demo_buf_def demo_items_def)
  have "contents demo_buf @ concat (map enc_item demo_items)
      = [9, 1, 2, 3, 4, 116, 105, 0, 0, 0, 2, 0, 7]"
    by (simp add: contents_def demo_buf_def demo_items_def wire_def bytes_le_def upt_rec)
  with message_wire_format [OF ok(1) demo_heap_ok ok(2,3), of Little_endian] show ?thesis by simp
qed

text \<open>C35: Reading a blob from any well-formed buffer, whatever bytes a peer put in it, stays inside
  the buffer: the position only moves down, the buffer stays well formed, and a successful read
  returns exactly the bytes below the length word that claims them.\<close>

theorem deserialize_blob_safe:
  assumes "buf_ok b" and "deserialize_blob h b = (r, b')"
  shows "buf_ok b' \<and> sb_pos b' \<le> sb_pos b
    \<and> (\<forall>d. r = Some d \<longrightarrow> (\<exists>w. length w = 4 \<and> contents b = contents b' @ d @ w
                              \<and> hton h 4 (load h w :: u32) = word_of_nat (length d)))"
proof (cases "sb_pos b < 4")
  case True
  with assms show ?thesis by (auto simp: deserialize_blob_def)
next
  case False
  define w where "w = drop (unat (sb_pos b) - 4) (contents b)"
  let ?c = "take (unat (sb_pos b) - 4) (contents b)"
  have len: "length (contents b) = unat (sb_pos b)" using assms(1) by (rule contents_length)
  have w: "length w = 4" using False len by (simp add: w_def word_less_nat_alt)
  have c: "contents b = ?c @ w" by (simp add: w_def)
  note p = read_pop [OF assms(1) c, of 4, simplified w, simplified]
  let ?b1 = "b\<lparr>sb_pos := sb_pos b - 4\<rparr>" and ?n = "hton h 4 (load h w :: u32)"
  have pos1: "unat (sb_pos b - 4) = unat (sb_pos b) - 4" using False by (simp add: unat_diff_le)
  then have le1: "sb_pos b - 4 \<le> sb_pos b" by (simp add: word_le_nat_alt)
  show ?thesis
  proof (cases "sb_pos b - 4 < ucast ?n")
    case True
    with False assms(2) p le1 show ?thesis by (auto simp: deserialize_blob_def Let_def)
  next
    case small: False
    define d where "d = drop (length ?c - unat ?n) ?c"
    have le: "unat ?n \<le> length ?c"
      using small len pos1 by (simp add: word_less_nat_alt)
    then have d: "length d = unat ?n" by (simp add: d_def)
    have c2: "contents ?b1 = take (length ?c - unat ?n) ?c @ d"
      using p(3) unfolding d_def by (simp only: append_take_drop_id)
    note q = read_pop [OF p(2) c2, of "ucast ?n", simplified d, simplified]
    have b': "b' = ?b1\<lparr>sb_pos := sb_pos b - 4 - ucast ?n\<rparr>" and r: "r = Some d"
      using False small assms(2) p(4) q(4) by (auto simp: deserialize_blob_def Let_def)
    have "sb_pos b - 4 - ucast ?n \<le> sb_pos b - 4"
      using small unat_diff_le [of "ucast ?n" "sb_pos b - 4"] by (simp only: word_le_nat_alt not_less)
    moreover have "contents b = contents b' @ d @ w"
      using c c2 p(3) q(3) by (simp add: b')
    moreover have "?n = word_of_nat (length d)" by (simp add: d)
    ultimately show ?thesis using q(2) le1 r w by (auto simp: b')
  qed
qed

definition forged_buf :: serial_buf where
  "forged_buf = \<lparr>sb_data = [1, 2, 0, 0, 0, 9], sb_pos = 6, sb_size = 6\<rparr>"

theorem deserialize_blob_safe_witness:
  "deserialize_blob Little_endian forged_buf = (None, forged_buf\<lparr>sb_pos := 2\<rparr>)
   \<and> buf_ok (forged_buf\<lparr>sb_pos := 2\<rparr>)"
proof -
  have ok: "buf_ok forged_buf" by (simp add: buf_ok_def forged_buf_def)
  have r: "deserialize_blob Little_endian forged_buf = (None, forged_buf\<lparr>sb_pos := 2\<rparr>)"
    by (simp add: deserialize_blob_def Let_def forged_buf_def slice_def hton_def bswap_def load_def
        word_le_def bytes_le_def upt_rec word_less_nat_alt)
  from deserialize_blob_safe [OF ok r] r show ?thesis by simp
qed

end
