(* ===== verification/Peer_Bus.thy ===== *)
theory Peer_Bus
  imports Serialize
begin

text \<open>
  The peer-to-peer D-Bus calls of \<open>libtrpc/src/peer_dbus.c\<close>: the server's method handlers with their table, the
  client's calls, and the set-up of both ends with the file descriptors and bus objects they leave open.
  The sd-bus library carries a call to the other end and brings back the reply; it is a parameter, with the
  contract \<open>bus_link\<close>. The results of the socket and sd-bus set-up calls are parameters too.
\<close>

section \<open>Server\<close>

text \<open>The values of the message types the methods use: \<open>s\<close>, \<open>b\<close>, \<open>t\<close> and \<open>ay\<close>.\<close>

datatype bus_value = BString string | BBool bool | BUint64 u64 | BArray bytes

datatype bus_reply = Return "bus_value list" | Failed

text \<open>The callbacks of the application, acting on its state.\<close>

record 's trpc_server_ops_t =
  register_cb :: "(string \<Rightarrow> 's \<Rightarrow> 's) option"
  schedinfo_cb :: "(string \<Rightarrow> 's \<Rightarrow> bytes \<times> 's) option"
  dmiss_cb :: "(string \<Rightarrow> string \<Rightarrow> 's \<Rightarrow> 's) option"
  sync_cb :: "(string \<Rightarrow> 's \<Rightarrow> (int \<times> u64 \<times> u64) \<times> 's) option"

definition TRPC_METHOD_REGISTER :: string where "TRPC_METHOD_REGISTER = ''Register''"
definition TRPC_METHOD_SCHEDINFO :: string where "TRPC_METHOD_SCHEDINFO = ''SchedInfo''"
definition TRPC_METHOD_DMISS :: string where "TRPC_METHOD_DMISS = ''DMiss''"
definition TRPC_METHOD_SYNC :: string where "TRPC_METHOD_SYNC = ''Sync''"

definition trpc_method_register ::
  "'s trpc_server_ops_t option \<Rightarrow> bus_value list \<Rightarrow> 's \<Rightarrow> bus_reply \<times> 's" where
  "trpc_method_register ops m st =
     (case m of
        BString name # _ \<Rightarrow>
          (Return [], case Option.bind ops register_cb of None \<Rightarrow> st | Some cb \<Rightarrow> cb name st)
      | _ \<Rightarrow> (Failed, st))"

text \<open>The reply message of \<open>SchedInfo\<close> is built by two calls, whose results are \<open>new_ret\<close> and \<open>append_ret\<close>.\<close>

definition trpc_method_schedinfo ::
  "int \<Rightarrow> int \<Rightarrow> 's trpc_server_ops_t option \<Rightarrow> bus_value list \<Rightarrow> 's \<Rightarrow> bus_reply \<times> 's" where
  "trpc_method_schedinfo new_ret append_ret ops m st =
     (case m of
        BString name # _ \<Rightarrow>
          (let (buf, st) = (case Option.bind ops schedinfo_cb of None \<Rightarrow> ([], st) | Some cb \<Rightarrow> cb name st)
           in if new_ret < 0 then (Failed, st)
              else if append_ret < 0 then (Failed, st)
              else (Return [BArray buf], st))
      | _ \<Rightarrow> (Failed, st))"

definition trpc_method_dmiss ::
  "'s trpc_server_ops_t option \<Rightarrow> bus_value list \<Rightarrow> 's \<Rightarrow> bus_reply \<times> 's" where
  "trpc_method_dmiss ops m st =
     (case m of
        BString name # BString task # _ \<Rightarrow>
          (Return [], case Option.bind ops dmiss_cb of None \<Rightarrow> st | Some cb \<Rightarrow> cb name task st)
      | _ \<Rightarrow> (Failed, st))"

text \<open>Without a callback the reply holds the uninitialised variables \<open>ack\<close> and \<open>ts\<close>, here \<open>junk\<close>.\<close>

definition trpc_method_sync ::
  "int \<times> u64 \<times> u64 \<Rightarrow> 's trpc_server_ops_t option \<Rightarrow> bus_value list \<Rightarrow> 's \<Rightarrow> bus_reply \<times> 's" where
  "trpc_method_sync junk ops m st =
     (case m of
        BString name # _ \<Rightarrow>
          (let ((ack, sec, nsec), st) = (case Option.bind ops sync_cb of None \<Rightarrow> (junk, st) | Some cb \<Rightarrow> cb name st)
           in (Return [BBool (ack \<noteq> 0), BUint64 sec, BUint64 nsec], st))
      | _ \<Rightarrow> (Failed, st))"

fun value_type :: "bus_value \<Rightarrow> string" where
  "value_type (BString s) = ''s''"
| "value_type (BBool b) = ''b''"
| "value_type (BUint64 n) = ''t''"
| "value_type (BArray bs) = ''ay''"

definition signature :: "bus_value list \<Rightarrow> string" where
  "signature vs = concat (map value_type vs)"

record handler_answers =
  ha_new :: int
  ha_append :: int
  ha_junk :: "int \<times> u64 \<times> u64"

text \<open>The method table: a call of an unknown method or with another signature is answered with an error.\<close>

definition trpc_vtable ::
  "handler_answers \<Rightarrow> 's trpc_server_ops_t option \<Rightarrow> string \<Rightarrow> bus_value list \<Rightarrow> 's \<Rightarrow> bus_reply \<times> 's" where
  "trpc_vtable a ops meth m st =
     (if meth = TRPC_METHOD_REGISTER \<and> signature m = ''s'' then trpc_method_register ops m st
      else if meth = TRPC_METHOD_SCHEDINFO \<and> signature m = ''s'' then trpc_method_schedinfo (ha_new a) (ha_append a) ops m st
      else if meth = TRPC_METHOD_DMISS \<and> signature m = ''ss'' then trpc_method_dmiss ops m st
      else if meth = TRPC_METHOD_SYNC \<and> signature m = ''s'' then trpc_method_sync (ha_junk a) ops m st
      else (Failed, st))"

section \<open>Client\<close>

text \<open>\<open>sd_bus_call_method\<close>: its result and the values of the reply, and the state of the server afterwards.\<close>

type_synonym 's link = "string \<Rightarrow> bus_value list \<Rightarrow> 's \<Rightarrow> (int \<times> bus_value list) \<times> 's"

definition trpc_client_register :: "'s link \<Rightarrow> string \<Rightarrow> 's \<Rightarrow> int \<times> 's" where
  "trpc_client_register call name st =
     (let ((ret, reply), st) = call TRPC_METHOD_REGISTER [BString name] st in (ret, st))"

text \<open>Reading a value of another type from the reply fails with \<open>-ENXIO\<close>. The second component is what the caller
  gets through \<open>buf\<close> and \<open>bufsize\<close>; \<open>wanted\<close> says that it passed both.\<close>

definition trpc_client_schedinfo ::
  "'s link \<Rightarrow> (nat \<Rightarrow> bool) \<Rightarrow> bool \<Rightarrow> string \<Rightarrow> 's \<Rightarrow> (int \<times> bytes option) \<times> 's" where
  "trpc_client_schedinfo call allocates wanted name st =
     (let ((ret, reply), st) = call TRPC_METHOD_SCHEDINFO [BString name] st
      in (if ret < 0 then (ret, None)
          else case reply of
            BArray r_buf # _ \<Rightarrow>
              if wanted then (if allocates (length r_buf) then (1, Some r_buf) else (- 1, None)) else (1, None)
          | _ \<Rightarrow> (- 6, None), st))"

definition trpc_client_dmiss :: "'s link \<Rightarrow> string \<Rightarrow> string \<Rightarrow> 's \<Rightarrow> int \<times> 's" where
  "trpc_client_dmiss call name task st =
     (let ((ret, reply), st) = call TRPC_METHOD_DMISS [BString name, BString task] st in (ret, st))"

definition trpc_client_sync :: "'s link \<Rightarrow> string \<Rightarrow> 's \<Rightarrow> (int \<times> (int \<times> u64 \<times> u64) option) \<times> 's" where
  "trpc_client_sync call name st =
     (let ((ret, reply), st) = call TRPC_METHOD_SYNC [BString name] st
      in (if ret < 0 then (ret, None)
          else case reply of
            BBool ack # BUint64 sec # BUint64 nsec # _ \<Rightarrow> (1, Some (if ack then 1 else 0, sec, nsec))
          | _ \<Rightarrow> (- 6, None), st))"

section \<open>Setting up the two ends\<close>

text \<open>The calls that prepare a bus object, in the order of the code; each gives an \<open>int\<close> and a negative one
  ends the sequence.\<close>

datatype bus_step = Randomize_id | New_bus | Set_description | Set_trusted | Set_fd | Set_server | Set_anonymous
  | Negotiate_creds | Set_sender | Set_address | Start_bus | Add_vtable | Attach_event

definition server_steps :: "bus_step list" where
  "server_steps = [Randomize_id, New_bus, Set_description, Set_trusted, Set_fd, Set_server, Set_anonymous,
     Negotiate_creds, Set_sender, Start_bus, Add_vtable, Attach_event]"

definition client_steps :: "bus_step list" where
  "client_steps = [New_bus, Set_description, Set_trusted, Set_address, Start_bus, Attach_event]"

text \<open>The steps that succeeded, and whether all did.\<close>

fun run_steps :: "(bus_step \<Rightarrow> int) \<Rightarrow> bus_step list \<Rightarrow> bus_step list \<times> bool" where
  "run_steps ret [] = ([], True)"
| "run_steps ret (x # xs) =
     (if ret x < 0 then ([], False) else let (done1, ok) = run_steps ret xs in (x # done1, ok))"

text \<open>A bus object is \<open>Absent\<close>, handed to the caller, or created and released again.\<close>

datatype bus = Absent | Open_bus | Released

definition init_bus :: "(bus_step \<Rightarrow> int) \<Rightarrow> bus_step list \<Rightarrow> bus" where
  "init_bus ret steps =
     (case run_steps ret steps of
        (done1, True) \<Rightarrow> Open_bus
      | (done1, False) \<Rightarrow> if New_bus \<in> set done1 then Released else Absent)"

definition init_dbus_server :: "(bus_step \<Rightarrow> int) \<Rightarrow> bus" where
  "init_dbus_server ret = init_bus ret server_steps"

definition init_dbus_client :: "(bus_step \<Rightarrow> int) \<Rightarrow> string option \<Rightarrow> bus" where
  "init_dbus_client ret serv_addr = (if serv_addr = None then Absent else init_bus ret client_steps)"

definition trpc_client_create :: "(bus_step \<Rightarrow> int) \<Rightarrow> string option \<Rightarrow> int \<times> bus" where
  "trpc_client_create ret serv_addr =
     (let dbus = init_dbus_client ret serv_addr in (if dbus \<noteq> Open_bus then - 1 else 0, dbus))"

text \<open>The options of an accepted connection; a failing one leaves the rest unset. The result is 0 or \<open>-errno\<close>.\<close>

datatype sockopt = TCP_NODELAY | SO_KEEPALIVE | TCP_KEEPIDLE | TCP_KEEPINTVL | TCP_KEEPCNT

definition server_sockopts :: "(sockopt \<times> int) list" where
  "server_sockopts = [(TCP_NODELAY, 1), (SO_KEEPALIVE, 1), (TCP_KEEPIDLE, 60), (TCP_KEEPINTVL, 10), (TCP_KEEPCNT, 3)]"

fun set_sockopts :: "(sockopt \<Rightarrow> int) \<Rightarrow> (sockopt \<times> int) list \<Rightarrow> (sockopt \<times> int) list \<Rightarrow> int \<times> (sockopt \<times> int) list" where
  "set_sockopts errno [] opts = (0, opts)"
| "set_sockopts errno ((o1, v) # os) opts =
     (if 0 < errno o1 then (- errno o1, opts) else set_sockopts errno os (opts @ [(o1, v)]))"

definition set_server_sockopt :: "(sockopt \<Rightarrow> int) \<Rightarrow> int \<times> (sockopt \<times> int) list" where
  "set_server_sockopt errno = set_sockopts errno server_sockopts []"

text \<open>A system call gives a value, or fails with an errno; the open descriptors are a set.\<close>

record socket_answers =
  so_socket :: "int + int"
  so_setsockopt :: "int + int"
  so_bind :: "int + int"
  so_listen :: "int + int"

definition create_server_socket :: "socket_answers \<Rightarrow> int set \<Rightarrow> int \<times> int set" where
  "create_server_socket a fds =
     (case so_socket a of
        Inl errno \<Rightarrow> (- errno, fds)
      | Inr fd \<Rightarrow>
          (let fds = insert fd fds in
           case so_setsockopt a of
             Inl errno \<Rightarrow> (- errno, fds)
           | Inr _ \<Rightarrow>
               (case so_bind a of
                  Inl errno \<Rightarrow> (- errno, fds)
                | Inr _ \<Rightarrow> (case so_listen a of Inl errno \<Rightarrow> (- errno, fds) | Inr _ \<Rightarrow> (fd, fds)))))"

text \<open>The state of the server: its callbacks, the open descriptors and the descriptor the event loop watches.\<close>

record 's trpc_server =
  trpc_server_ops :: "'s trpc_server_ops_t option"
  open_fds :: "int set"
  event_source :: "int option"

definition trpc_server_create ::
  "socket_answers \<Rightarrow> int \<Rightarrow> 's trpc_server_ops_t option \<Rightarrow> 's trpc_server \<Rightarrow> int \<times> 's trpc_server" where
  "trpc_server_create a add_io ops srv =
     (let (ret, fds) = create_server_socket a (open_fds srv); srv = srv\<lparr>open_fds := fds\<rparr> in
      if ret < 0 then (- 1, srv)
      else let fd = ret; srv = srv\<lparr>trpc_server_ops := ops\<rparr> in
        if add_io < 0 then (- 1, if 0 \<le> fd then srv\<lparr>open_fds := open_fds srv - {fd}\<rparr> else srv)
        else (fd, srv\<lparr>event_source := Some fd\<rparr>))"

text \<open>\<open>accept4\<close> gives a descriptor or an errno; 11 is \<open>EAGAIN\<close> and \<open>EWOULDBLOCK\<close>, 4 is \<open>EINTR\<close>. A bus object owns
  the descriptor once it has been set, and closes it when it is released.\<close>

definition server_handler ::
  "int + int \<Rightarrow> (bus_step \<Rightarrow> int) \<Rightarrow> 's trpc_server \<Rightarrow> int \<times> 's trpc_server" where
  "server_handler accepted ret srv =
     (case accepted of
        Inl errno \<Rightarrow> (if errno = 11 \<or> errno = 4 then 0 else - 1, srv)
      | Inr connfd \<Rightarrow>
          (case init_dbus_server ret of
             Open_bus \<Rightarrow> (0, srv\<lparr>open_fds := insert connfd (open_fds srv)\<rparr>)
           | _ \<Rightarrow> (- 1, if Set_fd \<in> set (fst (run_steps ret server_steps)) then srv
                        else srv\<lparr>open_fds := insert connfd (open_fds srv)\<rparr>)))"

section \<open>Calls over a link\<close>

text \<open>What the client relies on: a call runs the server's method once; a reply comes back with a result that is
  not negative and the values of the reply, an error with a negative result.\<close>

locale bus_link =
  fixes call :: "'s link"
    and serve :: "string \<Rightarrow> bus_value list \<Rightarrow> 's \<Rightarrow> bus_reply \<times> 's"
  assumes call_return: "serve meth m st = (Return vs, st') \<Longrightarrow> \<exists>ret\<ge>0. call meth m st = ((ret, vs), st')"
    and call_failed: "serve meth m st = (Failed, st') \<Longrightarrow> \<exists>ret vs. ret < 0 \<and> call meth m st = ((ret, vs), st')"
begin

lemma register_return:
  "serve TRPC_METHOD_REGISTER [BString name] st = (Return vs, st') \<Longrightarrow> \<exists>ret\<ge>0. trpc_client_register call name st = (ret, st')"
  by (drule call_return) (auto simp: trpc_client_register_def)

lemma dmiss_return:
  "serve TRPC_METHOD_DMISS [BString name, BString task] st = (Return vs, st')
    \<Longrightarrow> \<exists>ret\<ge>0. trpc_client_dmiss call name task st = (ret, st')"
  by (drule call_return) (auto simp: trpc_client_dmiss_def)

lemma schedinfo_return:
  "serve TRPC_METHOD_SCHEDINFO [BString name] st = (Return [BArray r_buf], st')
    \<Longrightarrow> trpc_client_schedinfo call allocates True name st
      = ((if allocates (length r_buf) then (1, Some r_buf) else (- 1, None)), st')"
  by (drule call_return) (auto simp: trpc_client_schedinfo_def)

lemma schedinfo_failed:
  "serve TRPC_METHOD_SCHEDINFO [BString name] st = (Failed, st')
    \<Longrightarrow> \<exists>ret. ret < 0 \<and> trpc_client_schedinfo call allocates wanted name st = ((ret, None), st')"
  by (drule call_failed) (auto simp: trpc_client_schedinfo_def)

lemma sync_return:
  "serve TRPC_METHOD_SYNC [BString name] st = (Return [BBool ack, BUint64 sec, BUint64 nsec], st')
    \<Longrightarrow> trpc_client_sync call name st = ((1, Some (if ack then 1 else 0, sec, nsec)), st')"
  by (drule call_return) (auto simp: trpc_client_sync_def)

end

text \<open>The link of two ends in one process: the call runs the table of the server at once.\<close>

definition local_link :: "handler_answers \<Rightarrow> 's trpc_server_ops_t option \<Rightarrow> 's link" where
  "local_link a ops meth m st =
     (case trpc_vtable a ops meth m st of (Return vs, st') \<Rightarrow> ((0, vs), st') | (Failed, st') \<Rightarrow> ((- 22, []), st'))"

interpretation local: bus_link "local_link a ops" "trpc_vtable a ops" for a ops
  by unfold_locales (simp_all add: local_link_def)

lemmas method_names = TRPC_METHOD_REGISTER_def TRPC_METHOD_SCHEDINFO_def TRPC_METHOD_DMISS_def TRPC_METHOD_SYNC_def

lemma vtable_simps:
  "trpc_vtable a ops TRPC_METHOD_REGISTER [BString name] st = trpc_method_register ops [BString name] st"
  "trpc_vtable a ops TRPC_METHOD_SCHEDINFO [BString name] st
    = trpc_method_schedinfo (ha_new a) (ha_append a) ops [BString name] st"
  "trpc_vtable a ops TRPC_METHOD_DMISS [BString name, BString task] st
    = trpc_method_dmiss ops [BString name, BString task] st"
  "trpc_vtable a ops TRPC_METHOD_SYNC [BString name] st = trpc_method_sync (ha_junk a) ops [BString name] st"
  by (simp_all add: trpc_vtable_def method_names signature_def)

text \<open>Each of the four calls runs the callback of its method once, with the arguments of the client.\<close>

lemma calls_reach_callbacks:
  assumes "bus_link call (trpc_vtable a (Some ops))"
  shows "register_cb ops = Some rcb \<Longrightarrow> \<exists>ret\<ge>0. trpc_client_register call name st = (ret, rcb name st)"
    and "dmiss_cb ops = Some dcb \<Longrightarrow> \<exists>ret\<ge>0. trpc_client_dmiss call name task st = (ret, dcb name task st)"
    and "sync_cb ops = Some ycb \<Longrightarrow> ycb name st = ((ack, sec, nsec), st')
      \<Longrightarrow> trpc_client_sync call name st = ((1, Some (if ack \<noteq> 0 then 1 else 0, sec, nsec)), st')"
    and "schedinfo_cb ops = Some scb \<Longrightarrow> scb name st = (buf, st') \<Longrightarrow> 0 \<le> ha_new a \<Longrightarrow> 0 \<le> ha_append a
      \<Longrightarrow> trpc_client_schedinfo call allocates True name st
        = ((if allocates (length buf) then (1, Some buf) else (- 1, None)), st')"
  using bus_link.register_return [OF assms] bus_link.dmiss_return [OF assms] bus_link.sync_return [OF assms]
    bus_link.schedinfo_return [OF assms]
  by (simp_all add: vtable_simps trpc_method_register_def trpc_method_dmiss_def trpc_method_sync_def
      trpc_method_schedinfo_def)

lemma make_serial_buf_ok:
  assumes "length data < 2 ^ 63"
  shows "\<exists>b. make_serial_buf True data (of_nat (length data)) = Some b \<and> buf_ok b \<and> contents b = data"
proof -
  have "unat (of_nat (length data) :: u64) = length data"
    using assms by (simp add: unsigned_of_nat take_bit_nat_eq_self)
  then show ?thesis using assms by (simp add: make_serial_buf_def buf_ok_def contents_def)
qed

text \<open>C36: Schedule data travels from the server to the client. If the server's callback answers with a
  message that was serialised from any values on a host of one byte order, and the reply can be built and
  the client's copy allocated, then over any link that keeps the contract of sd-bus the client's call
  succeeds, runs the callback exactly once, and the buffer the client makes of the received bytes gives
  back the same values, last written first, on a host of either byte order, with nothing left over.\<close>

theorem schedinfo_over_bus:
  assumes "bus_link call (trpc_vtable a (Some ops))" "schedinfo_cb ops = Some cb" "0 \<le> ha_new a" "0 \<le> ha_append a"
    and "buf_ok b" "contents b = []" "env_ok env" "list_all item_ok is"
    and "foldl (ser_item env h) (Some b) is = Some b'" "cb name st = (contents b', st')" "allocates (length (contents b'))"
  shows "\<exists>data buf rest. trpc_client_schedinfo call allocates True name st = ((1, Some data), st')
    \<and> make_serial_buf True data (of_nat (length data)) = Some buf
    \<and> des_items h' (rev is) buf = Some (rev is, rest) \<and> contents rest = []"
proof -
  have b': "buf_ok b'" "contents b' = concat (map enc_item is)"
    using ser_items_push [OF assms(5,8), of env h b'] assms(6,7,9) by (simp_all add: capped_id)
  have "length (contents b') < 2 ^ 63"
    using b'(1) by (auto simp: buf_ok_def contents_def word_le_nat_alt)
  from make_serial_buf_ok [OF this] obtain buf where buf: "buf_ok buf" "contents buf = [] @ concat (map enc_item is)"
    "make_serial_buf True (contents b') (of_nat (length (contents b'))) = Some buf"
    using b'(2) by auto
  moreover have "trpc_client_schedinfo call allocates True name st = ((1, Some (contents b')), st')"
    using calls_reach_callbacks(4) [OF assms(1,2,10,3,4), of allocates] assms(11) by simp
  ultimately show ?thesis
    using des_items_pop [OF buf(1) assms(8) buf(2), of h'] by blast
qed

definition demo_ops :: "bytes trpc_server_ops_t" where
  "demo_ops = \<lparr>register_cb = None, schedinfo_cb = Some (\<lambda>name st. (st, st)), dmiss_cb = None, sync_cb = None\<rparr>"

definition demo_handler :: handler_answers where
  "demo_handler = \<lparr>ha_new = 0, ha_append = 0, ha_junk = (0, 0, 0)\<rparr>"

definition empty_buf :: serial_buf where
  "empty_buf = \<lparr>sb_data = [9, 0, 0], sb_pos = 0, sb_size = 3\<rparr>"

theorem schedinfo_over_bus_witness:
  "\<exists>b' data buf rest. foldl (ser_item demo_heap Little_endian) (Some empty_buf) demo_items = Some b'
    \<and> trpc_client_schedinfo (local_link demo_handler (Some demo_ops)) (\<lambda>n. True) True ''node1'' (contents b')
        = ((1, Some data), contents b')
    \<and> make_serial_buf True data (of_nat (length data)) = Some buf
    \<and> des_items Big_endian (rev demo_items) buf = Some (rev demo_items, rest)"
proof -
  have ok: "buf_ok empty_buf" "list_all item_ok demo_items" "contents empty_buf = []"
    by (simp_all add: buf_ok_def empty_buf_def demo_items_def contents_def)
  from ser_items_total [OF ok(1) demo_heap_ok(2,1) ok(2)]
  obtain b' where b': "foldl (ser_item demo_heap Little_endian) (Some empty_buf) demo_items = Some b'"
    by (auto simp: empty_buf_def demo_items_def)
  have "\<exists>data buf rest. trpc_client_schedinfo (local_link demo_handler (Some demo_ops)) (\<lambda>n. True) True ''node1'' (contents b')
        = ((1, Some data), contents b')
    \<and> make_serial_buf True data (of_nat (length data)) = Some buf
    \<and> des_items Big_endian (rev demo_items) buf = Some (rev demo_items, rest) \<and> contents rest = []"
    by (rule schedinfo_over_bus [OF local.bus_link_axioms _ _ _ ok(1,3) demo_heap_ok(1) ok(2) b'])
      (simp_all add: demo_ops_def demo_handler_def)
  with b' show ?thesis by blast
qed

section \<open>Open resources\<close>

lemma run_steps_all: "snd (run_steps ret xs) \<longleftrightarrow> (\<forall>x\<in>set xs. 0 \<le> ret x)"
  by (induction xs) (auto simp: split_def Let_def)

lemma init_bus_open: "init_bus ret steps = Open_bus \<longleftrightarrow> (\<forall>x\<in>set steps. 0 \<le> ret x)"
  using run_steps_all [of ret steps] by (auto simp: init_bus_def split: prod.splits bool.splits)

lemma trpc_client_create_result:
  "trpc_client_create ret serv_addr
    = (if serv_addr \<noteq> None \<and> (\<forall>x\<in>set client_steps. 0 \<le> ret x) then (0, Open_bus) else (- 1, init_dbus_client ret serv_addr))"
  using init_bus_open [of ret client_steps] by (auto simp: trpc_client_create_def init_dbus_client_def Let_def)

text \<open>When the listening socket is refused an option, its address or the listen queue, the server reports the failure
  but the descriptor stays open.\<close>

theorem server_create_leaks_socket:
  assumes "so_socket a = Inr fd" "so_setsockopt a = Inr 0" "so_bind a = Inl errno" "0 < errno"
  shows "trpc_server_create a add_io ops srv = (- 1, srv\<lparr>open_fds := insert fd (open_fds srv)\<rparr>)"
  using assms by (simp add: trpc_server_create_def create_server_socket_def Let_def)

lemma set_sockopts_all:
  "(\<forall>o1\<in>set (map fst os). errno o1 \<le> 0) \<Longrightarrow> set_sockopts errno os opts = (0, opts @ os)"
  by (induction os arbitrary: opts) auto

end
