(* ===== verification/Bpf_Sched.thy ===== *)
theory Bpf_Sched
  imports Prelude
begin

text \<open>
  The kernel-side scheduler of a node, \<open>timpani-n/src/bpf/timpani.bpf.c\<close>, with the map layouts of
  \<open>timpani-n/src/bpf/maps.h\<close>. The BPF maps form one state record; hash maps are partial functions
  and the per-CPU arrays are functions read through \<open>arr_lookup\<close>. Each callback of \<open>timpani_ops\<close>
  is one function on that state.

  The kernel is a parameter. \<open>kernel\<close> carries what the helpers return during one callback: the
  clock, the processor id and the record each ring buffer reservation hands out. \<open>scx\<close> carries the
  values of the kernel's enumerators. Calls into sched_ext are returned as a list of \<open>scx_call\<close>.
\<close>

section \<open>Map layouts\<close>

definition SCHED_TYPE_TT :: u8 where "SCHED_TYPE_TT = 0"
definition SCHED_TYPE_CBS :: u8 where "SCHED_TYPE_CBS = 1"
definition SCHED_TYPE_BEST_EFFORT :: u8 where "SCHED_TYPE_BEST_EFFORT = 2"
definition SLOT_NONE :: u32 where "SLOT_NONE = 0xFFFFFFFF"
definition FAULT_DMISS :: u8 where "FAULT_DMISS = 0"
definition FAULT_BUDGET_EXCEED :: u8 where "FAULT_BUDGET_EXCEED = 1"

lemmas sched_types = SCHED_TYPE_TT_def SCHED_TYPE_CBS_def SCHED_TYPE_BEST_EFFORT_def

record TtSlotKey =
  key_cpu :: u32
  key_slot_idx :: u32

record TtSlotBpf =
  ts_workload_id_hash :: u64
  ts_task_id_hash :: u64
  ts_offset_us :: u32
  ts_duration_us :: u32
  ts_deadline_us :: u32
  ts_cpu :: u32

record CbsState =
  cs_task_id_hash :: u64
  cs_budget_us :: u32
  cs_period_us :: u32
  cs_remaining_us :: u32
  cs_exec_start_ns :: u64
  cs_replenish_at_ns :: u64
  cs_deadline_us :: u32

record TaskMeta =
  tm_workload_id_hash :: u64
  tm_task_id_hash :: u64
  tm_assigned_cpu :: u32
  tm_slot_duration_us :: u32
  tm_scheduling_type :: u8
  tm_layer :: u8
  tm_tt_runnable :: u8
  tm_activation_ns :: u64
  tm_cgroup_id :: u64

record FaultEvent =
  fe_workload_id_hash :: u64
  fe_task_id_hash :: u64
  fe_cpu :: u32
  fe_expected_deadline_ns :: u64
  fe_actual_completion_ns :: u64
  fe_fault_type :: u8

record bpf_state =
  isolated_cpu_mask :: u64
  tt_table_map :: "TtSlotKey \<rightharpoonup> TtSlotBpf"
  cbs_map :: "u64 \<rightharpoonup> CbsState"
  current_slot_map :: "u32 \<Rightarrow> u32"
  tt_active_until_map :: "u32 \<Rightarrow> u64"
  next_tt_start_map :: "u32 \<Rightarrow> u64"
  tt_runnable_count_map :: "u32 \<Rightarrow> u32"
  task_meta_map :: "u32 \<rightharpoonup> TaskMeta"
  fault_ringbuf :: "FaultEvent list"

text \<open>The maps when the programs are loaded: hash maps are empty and arrays are zeroed.\<close>

definition bpf_loaded :: "u64 \<Rightarrow> bpf_state" where
  "bpf_loaded iso_mask =
     \<lparr>isolated_cpu_mask = iso_mask, tt_table_map = Map.empty, cbs_map = Map.empty,
      current_slot_map = (\<lambda>_. 0), tt_active_until_map = (\<lambda>_. 0), next_tt_start_map = (\<lambda>_. 0),
      tt_runnable_count_map = (\<lambda>_. 0), task_meta_map = Map.empty, fault_ringbuf = []\<rparr>"

definition MAX_CPUS :: u32 where "MAX_CPUS = 128"

definition arr_lookup :: "(u32 \<Rightarrow> 'a) \<Rightarrow> u32 \<Rightarrow> 'a option" where
  "arr_lookup a k = (if k < MAX_CPUS then Some (a k) else None)"

definition arr_update :: "(u32 \<Rightarrow> 'a) \<Rightarrow> u32 \<Rightarrow> 'a \<Rightarrow> (u32 \<Rightarrow> 'a)" where
  "arr_update a k v = (if k < MAX_CPUS then a(k := v) else a)"

section \<open>Kernel interface\<close>

record kernel =
  now :: u64
  cpu_id :: u32
  reserve :: "nat \<Rightarrow> FaultEvent option"

record scx =
  SCX_DSQ_GLOBAL :: u64
  SCX_DSQ_LOCAL_ON :: u64
  SCX_SLICE_DFL :: u64
  SCX_ENQ_PREEMPT :: u64
  SCX_ENQ_HEAD :: u64
  SCX_KICK_IDLE :: u64
  SCX_KICK_PREEMPT :: u64

datatype scx_call =
    scx_bpf_create_dsq u64 int
  | scx_bpf_dispatch u32 u64 u64 u64
  | scx_bpf_dispatch_from_dsq u32 u64 u64
  | scx_bpf_consume u64
  | scx_bpf_kick_cpu u32 u64

definition DSQ_CBS :: u64 where "DSQ_CBS = 101"
definition DSQ_THROTTLED :: u64 where "DSQ_THROTTLED = 102"
definition DSQ_BE :: u64 where "DSQ_BE = 103"
definition PROMOTE_BUDGET :: nat where "PROMOTE_BUDGET = 16"
definition TT_ACTIVE_RUNNING :: u64 where "TT_ACTIVE_RUNNING = 0xffffffffffffffff"

section \<open>Helpers\<close>

definition cbs_key_from_meta :: "TaskMeta \<Rightarrow> u64" where
  "cbs_key_from_meta meta = tm_workload_id_hash meta XOR tm_task_id_hash meta"

definition cbs_lazy_replenish :: "CbsState \<Rightarrow> u64 \<Rightarrow> CbsState" where
  "cbs_lazy_replenish cbs t =
     (if cs_period_us cbs = 0 \<or> t < cs_replenish_at_ns cbs then cbs
      else let period_ns = ucast (cs_period_us cbs) * 1000;
               elapsed = t - cs_replenish_at_ns cbs;
               periods = elapsed div period_ns + 1
           in cbs\<lparr>cs_remaining_us := cs_budget_us cbs,
                  cs_replenish_at_ns := cs_replenish_at_ns cbs + periods * period_ns\<rparr>)"

definition tt_active_on_cpu :: "bpf_state \<Rightarrow> u32 \<Rightarrow> u64 \<Rightarrow> bool" where
  "tt_active_on_cpu s cpu t =
     ((case arr_lookup (tt_runnable_count_map s) cpu of Some n \<Rightarrow> 0 < n | None \<Rightarrow> False)
      \<or> (case arr_lookup (tt_active_until_map s) cpu of Some until \<Rightarrow> t < until | None \<Rightarrow> False))"

definition put_meta :: "u32 \<Rightarrow> TaskMeta \<Rightarrow> bpf_state \<Rightarrow> bpf_state" where
  "put_meta pid meta s = s\<lparr>task_meta_map := (task_meta_map s)(pid \<mapsto> meta)\<rparr>"

definition put_cbs :: "u64 \<Rightarrow> CbsState \<Rightarrow> bpf_state \<Rightarrow> bpf_state" where
  "put_cbs key cbs s = s\<lparr>cbs_map := (cbs_map s)(key \<mapsto> cbs)\<rparr>"

definition mark_tt_runnable :: "u32 \<Rightarrow> TaskMeta \<Rightarrow> u32 \<Rightarrow> bpf_state \<Rightarrow> bpf_state" where
  "mark_tt_runnable pid meta cpu s =
     (let s1 = (if tm_tt_runnable meta = 0
                then put_meta pid (meta\<lparr>tm_tt_runnable := 1\<rparr>)
                       (s\<lparr>tt_runnable_count_map :=
                            arr_update (tt_runnable_count_map s) cpu (tt_runnable_count_map s cpu + 1)\<rparr>)
                else s)
      in s1\<lparr>tt_active_until_map := arr_update (tt_active_until_map s1) cpu TT_ACTIVE_RUNNING\<rparr>)"

definition mark_tt_not_runnable :: "u32 \<Rightarrow> TaskMeta \<Rightarrow> u32 \<Rightarrow> bpf_state \<Rightarrow> bpf_state" where
  "mark_tt_not_runnable pid meta cpu s =
     (if tm_tt_runnable meta = 0 then s
      else let s1 = (if 0 < tt_runnable_count_map s cpu
                     then s\<lparr>tt_runnable_count_map :=
                              arr_update (tt_runnable_count_map s) cpu (tt_runnable_count_map s cpu - 1)\<rparr>
                     else s);
               s2 = put_meta pid (meta\<lparr>tm_tt_runnable := 0\<rparr>) s1
           in case arr_lookup (tt_runnable_count_map s2) cpu of
                Some n \<Rightarrow> if n = 0 then s2\<lparr>tt_active_until_map := arr_update (tt_active_until_map s2) cpu 0\<rparr>
                          else s2
              | None \<Rightarrow> s2\<lparr>tt_active_until_map := arr_update (tt_active_until_map s2) cpu 0\<rparr>)"

definition us_until_next_tt :: "bpf_state \<Rightarrow> u32 \<Rightarrow> u64 \<Rightarrow> u32" where
  "us_until_next_tt s cpu t =
     (case arr_lookup (next_tt_start_map s) cpu of
        None \<Rightarrow> 0xffffffff
      | Some next_tt_start \<Rightarrow>
          if next_tt_start = 0 then 0xffffffff
          else if next_tt_start \<le> t then 1
          else let delta_us = (next_tt_start - t) div 1000
               in if delta_us = 0 then 1
                  else if 0xffffffff < delta_us then 0xffffffff
                  else ucast delta_us)"

definition cbs_enqueue_flags :: "scx \<Rightarrow> u64 \<Rightarrow> u64" where
  "cbs_enqueue_flags k enq_flags = enq_flags AND NOT (SCX_ENQ_PREEMPT k OR SCX_ENQ_HEAD k)"

text \<open>
  The scan of the throttled queue. The list holds the tasks the iterator yields; the number is what
  is left of \<^const>\<open>PROMOTE_BUDGET\<close>.
\<close>

fun promote_scan :: "scx \<Rightarrow> u64 \<Rightarrow> nat \<Rightarrow> u32 list \<Rightarrow> bpf_state \<Rightarrow> bpf_state \<times> scx_call list" where
  "promote_scan k t 0 pids s = (s, [])"
| "promote_scan k t (Suc left) [] s = (s, [])"
| "promote_scan k t (Suc left) (pid # pids) s =
     (case task_meta_map s pid of
        None \<Rightarrow> promote_scan k t left pids s
      | Some meta \<Rightarrow>
          if tm_scheduling_type meta \<noteq> SCHED_TYPE_CBS then promote_scan k t left pids s
          else (case cbs_map s (cbs_key_from_meta meta) of
                  None \<Rightarrow> promote_scan k t left pids s
                | Some cbs0 \<Rightarrow>
                    let cbs = cbs_lazy_replenish cbs0 t;
                        (s', calls) = promote_scan k t left pids (put_cbs (cbs_key_from_meta meta) cbs s)
                    in if 0 < cs_remaining_us cbs
                       then (s', scx_bpf_dispatch_from_dsq pid DSQ_CBS 0
                                 # scx_bpf_kick_cpu (tm_assigned_cpu meta) (SCX_KICK_IDLE k) # calls)
                       else (s', calls)))"

definition promote_throttled_if_replenished ::
  "scx \<Rightarrow> u64 \<Rightarrow> u32 list \<Rightarrow> bpf_state \<Rightarrow> bpf_state \<times> scx_call list" where
  "promote_throttled_if_replenished k t throttled s = promote_scan k t PROMOTE_BUDGET throttled s"

section \<open>Callbacks\<close>

definition init_task :: int where "init_task = 0"

definition on_isolated_cpu :: "bpf_state \<Rightarrow> u32 \<Rightarrow> bool" where
  "on_isolated_cpu s cpu = (cpu < 64 \<and> isolated_cpu_mask s AND push_bit (unat cpu) 1 \<noteq> 0)"

definition select_cpu :: "kernel \<Rightarrow> u32 \<Rightarrow> u32 \<Rightarrow> bpf_state \<Rightarrow> bpf_state \<times> u32" where
  "select_cpu kn pid prev_cpu s =
     (case task_meta_map s pid of
        Some meta \<Rightarrow>
          if tm_scheduling_type meta = SCHED_TYPE_TT \<or> tm_scheduling_type meta = SCHED_TYPE_CBS
          then let s1 = put_meta pid (meta\<lparr>tm_activation_ns := now kn\<rparr>) s
               in if on_isolated_cpu s1 (tm_assigned_cpu meta) then (s1, tm_assigned_cpu meta)
                  else (s1, prev_cpu)
          else (s, prev_cpu)
      | None \<Rightarrow> (s, prev_cpu))"

definition enqueue :: "scx \<Rightarrow> kernel \<Rightarrow> u32 \<Rightarrow> u64 \<Rightarrow> bpf_state \<Rightarrow> bpf_state \<times> scx_call list" where
  "enqueue k kn pid enq_flags s =
     (case task_meta_map s pid of
        None \<Rightarrow> (s, [scx_bpf_dispatch pid (SCX_DSQ_GLOBAL k) (SCX_SLICE_DFL k) enq_flags])
      | Some meta \<Rightarrow>
          if tm_scheduling_type meta = SCHED_TYPE_TT
          then let acpu = tm_assigned_cpu meta
               in if on_isolated_cpu s acpu
                  then (mark_tt_runnable pid meta acpu s,
                        [scx_bpf_dispatch pid (SCX_DSQ_LOCAL_ON k OR ucast acpu) (SCX_SLICE_DFL k)
                           (enq_flags OR SCX_ENQ_PREEMPT k),
                         scx_bpf_kick_cpu acpu (SCX_KICK_PREEMPT k)])
                  else (s, [scx_bpf_dispatch pid (SCX_DSQ_GLOBAL k) (SCX_SLICE_DFL k) enq_flags])
          else if tm_scheduling_type meta = SCHED_TYPE_CBS
          then let key = cbs_key_from_meta meta;
                   cbs_flags = cbs_enqueue_flags k enq_flags
               in (case cbs_map s key of
                     Some cbs0 \<Rightarrow>
                       let cbs = cbs_lazy_replenish cbs0 (now kn);
                           s1 = put_cbs key cbs s
                       in if cs_remaining_us cbs = 0
                          then (s1, [scx_bpf_dispatch pid DSQ_THROTTLED (SCX_SLICE_DFL k) cbs_flags])
                          else (s1, [scx_bpf_dispatch pid DSQ_CBS (SCX_SLICE_DFL k) cbs_flags])
                   | None \<Rightarrow> (s, [scx_bpf_dispatch pid (SCX_DSQ_GLOBAL k) (SCX_SLICE_DFL k) cbs_flags]))
          else (s, [scx_bpf_dispatch pid DSQ_BE (SCX_SLICE_DFL k) enq_flags]))"

definition dispatch :: "scx \<Rightarrow> kernel \<Rightarrow> u32 list \<Rightarrow> u32 \<Rightarrow> bpf_state \<Rightarrow> bpf_state \<times> scx_call list" where
  "dispatch k kn throttled cpu s =
     (if tt_active_on_cpu s cpu (now kn) then (s, [])
      else let (s1, calls) = promote_throttled_if_replenished k (now kn) throttled s
           in (s1, calls @ [scx_bpf_consume DSQ_CBS]))"

text \<open>\<open>running\<close> also returns the slice it stores in the task, if it stores one.\<close>

definition running :: "kernel \<Rightarrow> u32 \<Rightarrow> bpf_state \<Rightarrow> bpf_state \<times> u64 option" where
  "running kn pid s =
     (case task_meta_map s pid of
        None \<Rightarrow> (s, None)
      | Some meta \<Rightarrow>
          if tm_scheduling_type meta = SCHED_TYPE_CBS
          then (case cbs_map s (cbs_key_from_meta meta) of
                  None \<Rightarrow> (s, None)
                | Some cbs0 \<Rightarrow>
                    let cbs = cbs_lazy_replenish cbs0 (now kn);
                        next_tt_us = us_until_next_tt s (cpu_id kn) (now kn);
                        effective_us0 = cs_remaining_us cbs;
                        effective_us1 = (if next_tt_us < effective_us0 then next_tt_us else effective_us0);
                        effective_us = (if effective_us1 = 0 then 1 else effective_us1)
                    in (put_cbs (cbs_key_from_meta meta) (cbs\<lparr>cs_exec_start_ns := now kn\<rparr>) s,
                        Some (ucast effective_us * 1000)))
          else (s, None))"

text \<open>
  \<open>stopping\<close> has three parts: charging the server, the two faults of a budgeted task, and the end
  of a time-triggered job. A reservation that fails submits nothing. The budget fault leaves
  \<open>actual_completion_ns\<close> as the reservation delivered it.
\<close>

definition submit_dmiss :: "FaultEvent option \<Rightarrow> TaskMeta \<Rightarrow> u32 \<Rightarrow> u64 \<Rightarrow> u64 \<Rightarrow> bpf_state \<Rightarrow> bpf_state" where
  "submit_dmiss slot meta cpu deadline t s =
     (case slot of
        None \<Rightarrow> s
      | Some fault \<Rightarrow>
          s\<lparr>fault_ringbuf := fault_ringbuf s
              @ [fault\<lparr>fe_fault_type := FAULT_DMISS, fe_task_id_hash := tm_task_id_hash meta,
                       fe_workload_id_hash := tm_workload_id_hash meta, fe_cpu := cpu,
                       fe_expected_deadline_ns := deadline, fe_actual_completion_ns := t\<rparr>]\<rparr>)"

definition submit_budget_exceed :: "FaultEvent option \<Rightarrow> TaskMeta \<Rightarrow> u32 \<Rightarrow> u64 \<Rightarrow> bpf_state \<Rightarrow> bpf_state" where
  "submit_budget_exceed slot meta cpu replenish_at s =
     (case slot of
        None \<Rightarrow> s
      | Some fault \<Rightarrow>
          s\<lparr>fault_ringbuf := fault_ringbuf s
              @ [fault\<lparr>fe_fault_type := FAULT_BUDGET_EXCEED, fe_task_id_hash := tm_task_id_hash meta,
                       fe_workload_id_hash := tm_workload_id_hash meta, fe_cpu := cpu,
                       fe_expected_deadline_ns := replenish_at\<rparr>]\<rparr>)"

definition charge :: "u64 \<Rightarrow> CbsState \<Rightarrow> CbsState" where
  "charge t cbs =
     (let elapsed_us = ucast ((t - cs_exec_start_ns cbs) div 1000)
      in cbs\<lparr>cs_remaining_us := (if cs_remaining_us cbs \<le> elapsed_us then 0 else cs_remaining_us cbs - elapsed_us),
             cs_exec_start_ns := 0\<rparr>)"

definition schedule_replenish :: "u64 \<Rightarrow> CbsState \<Rightarrow> CbsState" where
  "schedule_replenish t cbs =
     (if 0 < cs_period_us cbs
      then let period_ns = ucast (cs_period_us cbs) * 1000
           in if cs_replenish_at_ns cbs = 0 then cbs\<lparr>cs_replenish_at_ns := t + period_ns\<rparr>
              else if cs_replenish_at_ns cbs \<le> t
              then let periods = (t - cs_replenish_at_ns cbs) div period_ns + 1
                   in cbs\<lparr>cs_replenish_at_ns := cs_replenish_at_ns cbs + periods * period_ns\<rparr>
              else cbs
      else cbs)"

definition stopping_cbs :: "kernel \<Rightarrow> u32 \<Rightarrow> TaskMeta \<Rightarrow> bpf_state \<Rightarrow> bpf_state" where
  "stopping_cbs kn pid meta s =
     (let key = cbs_key_from_meta meta
      in case cbs_map s key of
           None \<Rightarrow> s
         | Some cbs0 \<Rightarrow>
             if 0 < cs_exec_start_ns cbs0
             then let cbs = charge (now kn) cbs0;
                      abs_deadline = tm_activation_ns meta + ucast (cs_deadline_us cbs) * 1000;
                      miss = (0 < tm_activation_ns meta \<and> 0 < cs_deadline_us cbs \<and> abs_deadline < now kn);
                      s1 = put_cbs key cbs s;
                      s2 = (if miss
                            then put_meta pid (meta\<lparr>tm_activation_ns := 0\<rparr>)
                                   (submit_dmiss (reserve kn 0) meta (cpu_id kn) abs_deadline (now kn) s1)
                            else s1)
                  in if cs_remaining_us cbs = 0
                     then let cbs' = schedule_replenish (now kn) cbs
                          in submit_budget_exceed (reserve kn 1) meta (cpu_id kn) (cs_replenish_at_ns cbs')
                               (put_cbs key cbs' s2)
                     else s2
             else s)"

definition tt_deadline_ns :: "bpf_state \<Rightarrow> u32 \<Rightarrow> u64" where
  "tt_deadline_ns s cpu =
     (case arr_lookup (current_slot_map s) cpu of
        None \<Rightarrow> 10000000
      | Some slot_idx \<Rightarrow>
          (case tt_table_map s \<lparr>key_cpu = cpu, key_slot_idx = slot_idx\<rparr> of
             None \<Rightarrow> 10000000
           | Some slot \<Rightarrow> if 0 < ts_deadline_us slot then ucast (ts_deadline_us slot) * 1000 else 10000000))"

definition stopping_tt :: "kernel \<Rightarrow> u32 \<Rightarrow> TaskMeta \<Rightarrow> bpf_state \<Rightarrow> bpf_state" where
  "stopping_tt kn pid meta s =
     (let s1 = mark_tt_not_runnable pid meta (cpu_id kn) s;
          deadline = tm_activation_ns meta + tt_deadline_ns s1 (cpu_id kn)
      in if deadline < now kn then submit_dmiss (reserve kn 2) meta (cpu_id kn) deadline (now kn) s1 else s1)"

definition stopping :: "kernel \<Rightarrow> u32 \<Rightarrow> bool \<Rightarrow> bpf_state \<Rightarrow> bpf_state" where
  "stopping kn pid runnable s =
     (case task_meta_map s pid of
        None \<Rightarrow> s
      | Some meta \<Rightarrow>
          let s1 = (if tm_scheduling_type meta = SCHED_TYPE_CBS then stopping_cbs kn pid meta s else s)
          in if tm_scheduling_type meta = SCHED_TYPE_TT \<and> \<not> runnable then stopping_tt kn pid meta s1 else s1)"

definition init :: "scx_call list" where
  "init = [scx_bpf_create_dsq DSQ_CBS (-1), scx_bpf_create_dsq DSQ_THROTTLED (-1), scx_bpf_create_dsq DSQ_BE (-1)]"

section \<open>The budget server\<close>

text \<open>
  The constant bandwidth server that \<open>cbs_lazy_replenish\<close>, \<open>charge\<close> and \<open>schedule_replenish\<close>
  implement, on unbounded numbers: what is left of the budget and when it is refilled next.
\<close>

record server =
  srv_budget :: nat
  srv_period :: nat
  srv_left :: nat
  srv_next :: nat

definition server_of :: "CbsState \<Rightarrow> server" where
  "server_of c = \<lparr>srv_budget = unat (cs_budget_us c), srv_period = 1000 * unat (cs_period_us c),
                  srv_left = unat (cs_remaining_us c), srv_next = unat (cs_replenish_at_ns c)\<rparr>"

text \<open>The first instant after \<open>t\<close> on the grid of \<open>period\<close> that starts at \<open>next\<close>.\<close>

definition grid_after :: "nat \<Rightarrow> nat \<Rightarrow> nat \<Rightarrow> nat" where
  "grid_after period st t = st + ((t - st) div period + 1) * period"

definition srv_refill :: "nat \<Rightarrow> server \<Rightarrow> server" where
  "srv_refill t v =
     (if 0 < srv_period v \<and> srv_next v \<le> t
      then v\<lparr>srv_left := srv_budget v, srv_next := grid_after (srv_period v) (srv_next v) t\<rparr> else v)"

definition srv_charge :: "nat \<Rightarrow> server \<Rightarrow> server" where
  "srv_charge used v = v\<lparr>srv_left := srv_left v - used\<rparr>"

lemma grid_after_props:
  assumes "0 < period" and "st \<le> t"
  shows "t < grid_after period st t" and "grid_after period st t \<le> t + period"
    and "\<exists>k. grid_after period st t = st + k * period"
proof -
  have e: "(t - st) div period * period + (t - st) mod period = t - st" by (rule div_mult_mod_eq)
  have m: "(t - st) mod period < period" using assms(1) by simp
  show "t < grid_after period st t" "grid_after period st t \<le> t + period"
    using e m assms(2) unfolding grid_after_def add_mult_distrib by linarith+
  show "\<exists>k. grid_after period st t = st + k * period" unfolding grid_after_def by blast
qed

lemma period_ns_nat: "unat (ucast (p :: u32) * 1000 :: u64) = 1000 * unat p"
proof -
  have "unat (ucast p :: u64) * unat (1000 :: u64) < 2 ^ LENGTH(64)"
    using unat_bound32 [of p] by simp
  then show ?thesis by (simp add: unat_mult_small)
qed

text \<open>The places that move an instant forward on a grid compute \<^const>\<open>grid_after\<close>.\<close>

lemma grid_after_word:
  fixes st t p :: u64
  assumes "0 < p" and "st \<le> t" and "unat t + unat p < 2 ^ 64"
  shows "unat (st + ((t - st) div p + 1) * p) = grid_after (unat p) (unat st) (unat t)"
proof -
  let ?k = "(unat t - unat st) div unat p"
  have pos: "0 < unat p" using assms(1) by (simp add: word_less_nat_alt)
  have le: "unat st \<le> unat t" using assms(2) by (simp add: word_le_nat_alt)
  have bound: "unat st + (?k + 1) * unat p < 2 ^ 64"
    using grid_after_props(2) [OF pos le] assms(3) by (simp add: grid_after_def)
  have k: "unat ((t - st) div p) = ?k"
    using assms(2) by (simp add: unat_div_distrib unat_diff_le)
  have "(?k + 1) * 1 \<le> (?k + 1) * unat p" using pos by (intro mult_le_mono2) linarith
  then have k1: "?k + 1 \<le> (?k + 1) * unat p" by (simp only: mult_1_right)
  have s1: "unat ((t - st) div p + 1) = ?k + 1"
    using k k1 bound by (subst unat_add_small) simp_all
  have s2: "unat (((t - st) div p + 1) * p) = (?k + 1) * unat p"
    using s1 bound by (subst unat_mult_small) simp_all
  show ?thesis
    using s2 bound by (subst unat_add_small) (simp_all add: grid_after_def)
qed

lemma next_replenish_nat:
  fixes st t :: u64 and p :: u32
  assumes "0 < p" and "st \<le> t" and "unat t + 1000 * unat p < 2 ^ 64"
  shows "unat (st + ((t - st) div (ucast p * 1000) + 1) * (ucast p * 1000))
    = grid_after (1000 * unat p) (unat st) (unat t)"
proof -
  have "0 < (ucast p * 1000 :: u64)"
    using assms(1) unfolding word_less_nat_alt period_ns_nat by simp
  then show ?thesis
    using grid_after_word [of "ucast p * 1000" st t] assms(2,3) by (simp add: period_ns_nat)
qed

lemma server_of_lazy_replenish:
  assumes "unat t + 1000 * unat (cs_period_us c) < 2 ^ 64"
  shows "server_of (cbs_lazy_replenish c t) = srv_refill (unat t) (server_of c)"
proof (cases "cs_period_us c = 0 \<or> t < cs_replenish_at_ns c")
  case True
  then show ?thesis
    by (auto simp: cbs_lazy_replenish_def srv_refill_def server_of_def word_less_nat_alt)
next
  case False
  then have "0 < cs_period_us c" "cs_replenish_at_ns c \<le> t" by (auto simp: word_gt_0)
  with False show ?thesis
    using next_replenish_nat [OF _ _ assms]
    by (auto simp: cbs_lazy_replenish_def srv_refill_def server_of_def Let_def word_less_nat_alt
        word_le_nat_alt)
qed

lemma server_of_charge:
  assumes "cs_exec_start_ns c \<le> t" and "unat t - unat (cs_exec_start_ns c) < 4294967296000"
  shows "server_of (charge t c) = srv_charge ((unat t - unat (cs_exec_start_ns c)) div 1000) (server_of c)"
proof -
  let ?e = "(unat t - unat (cs_exec_start_ns c)) div 1000"
  have "unat ((t - cs_exec_start_ns c) div 1000) = ?e"
    using assms(1) by (simp add: unat_div_distrib unat_diff_le)
  then have e: "unat (ucast ((t - cs_exec_start_ns c) div 1000) :: u32) = ?e"
    using assms(2) by (simp add: unat_ucast_64_32)
  show ?thesis
    by (auto simp: charge_def server_of_def srv_charge_def Let_def e word_le_nat_alt unat_diff_le)
qed

lemma server_of_schedule_replenish:
  assumes "unat t + 1000 * unat (cs_period_us c) < 2 ^ 64" and "0 < cs_period_us c"
  shows "server_of (schedule_replenish t c) =
    (server_of c)\<lparr>srv_next := if cs_replenish_at_ns c = 0 then unat t + 1000 * unat (cs_period_us c)
       else if cs_replenish_at_ns c \<le> t
       then grid_after (1000 * unat (cs_period_us c)) (unat (cs_replenish_at_ns c)) (unat t)
       else unat (cs_replenish_at_ns c)\<rparr>"
proof -
  have "unat (t + ucast (cs_period_us c) * 1000) = unat t + 1000 * unat (cs_period_us c)"
    using assms(1) by (subst unat_add_small) (simp_all add: period_ns_nat)
  then show ?thesis
    using next_replenish_nat [OF assms(2) _ assms(1)] assms(2)
    by (auto simp: schedule_replenish_def server_of_def Let_def)
qed

text \<open>C21: The three operations on a CBS entry implement the constant bandwidth server on unbounded
  numbers. As long as the clock plus one period fits in 64 bits, \<open>cbs_lazy_replenish\<close> is the
  server's refill. If the job ran for less than \<open>2^32\<close> microseconds, \<open>charge\<close> takes exactly the
  elapsed microseconds from the budget and stops at zero. When \<open>stopping\<close> plans the next refill of
  an exhausted server, the planned instant is after the present and at most one period away,
  unless an earlier plan is still ahead.\<close>

theorem cbs_server_refinement:
  assumes "unat t + 1000 * unat (cs_period_us c) < 2 ^ 64"
    and "cs_exec_start_ns c \<le> t" and "unat t - unat (cs_exec_start_ns c) < 4294967296000"
    and "0 < cs_period_us c"
  shows "server_of (cbs_lazy_replenish c t) = srv_refill (unat t) (server_of c)
    \<and> server_of (charge t c)
        = srv_charge ((unat t - unat (cs_exec_start_ns c)) div 1000) (server_of c)
    \<and> unat t < srv_next (server_of (schedule_replenish t c))
    \<and> (cs_replenish_at_ns c \<le> t \<longrightarrow>
         srv_next (server_of (schedule_replenish t c)) \<le> unat t + srv_period (server_of c))"
proof -
  have pos: "0 < 1000 * unat (cs_period_us c)" using assms(4) by (simp add: word_less_nat_alt)
  have le: "unat (cs_replenish_at_ns c) \<le> unat t" if "cs_replenish_at_ns c \<le> t"
    using that by (simp add: word_le_nat_alt)
  have "unat t < srv_next (server_of (schedule_replenish t c))"
    using server_of_schedule_replenish [OF assms(1,4)] pos grid_after_props(1) [OF pos le]
    by (auto simp: word_le_nat_alt)
  moreover have "srv_next (server_of (schedule_replenish t c)) \<le> unat t + srv_period (server_of c)"
    if "cs_replenish_at_ns c \<le> t"
    using that server_of_schedule_replenish [OF assms(1,4)] grid_after_props(2) [OF pos le]
    by (auto simp: server_of_def)
  ultimately show ?thesis
    using server_of_lazy_replenish [OF assms(1)] server_of_charge [OF assms(2,3)] by blast
qed

definition demo_cbs :: CbsState where
  "demo_cbs = \<lparr>cs_task_id_hash = 7, cs_budget_us = 2000, cs_period_us = 10000, cs_remaining_us = 500,
               cs_exec_start_ns = 40000000, cs_replenish_at_ns = 35000000, cs_deadline_us = 8000\<rparr>"

theorem cbs_server_refinement_witness:
  "server_of (cbs_lazy_replenish demo_cbs 41000000) = srv_refill 41000000 (server_of demo_cbs)
    \<and> server_of (charge 41000000 demo_cbs) = srv_charge 1000 (server_of demo_cbs)"
  using cbs_server_refinement [of 41000000 demo_cbs] by (simp add: demo_cbs_def)

section \<open>Running\<close>

lemma us_until_next_tt_pos: "0 < us_until_next_tt s cpu t"
proof -
  have "0 < (ucast d :: u32)" if "d \<noteq> 0" "\<not> 0xffffffff < d" for d :: u64
  proof -
    have "unat d < 4294967296" "unat d \<noteq> 0"
      using that by (simp_all add: word_less_nat_alt unat_eq_zero)
    then show ?thesis by (simp add: word_less_nat_alt unat_ucast_64_32)
  qed
  then show ?thesis
    by (auto simp: us_until_next_tt_def Let_def split: option.splits)
qed

lemma us_until_next_tt_bound:
  assumes "arr_lookup (next_tt_start_map s) cpu = Some n" and "n \<noteq> 0" and "unat t + 1000 \<le> unat n"
  shows "unat t + 1000 * unat (us_until_next_tt s cpu t) \<le> unat n"
proof -
  let ?d = "(n - t) div 1000"
  have lt: "\<not> n \<le> t" "t \<le> n" using assms(3) by (simp_all add: word_le_nat_alt)
  then have d: "unat ?d = (unat n - unat t) div 1000"
    by (simp add: unat_div_distrib unat_diff_le)
  have "unat t + 1000 * unat ?d \<le> unat n" using assms(3) unfolding d by linarith
  moreover have "?d \<noteq> 0" using d assms(3) by (auto simp: unat_eq_zero [symmetric])
  moreover have "unat (us_until_next_tt s cpu t) \<le> unat ?d"
    using assms(1,2) lt \<open>?d \<noteq> 0\<close>
    by (auto simp: us_until_next_tt_def Let_def unat_ucast_64_32 word_less_nat_alt)
  ultimately show ?thesis by linarith
qed

lemma running_cbs:
  fixes kn :: kernel
  assumes "task_meta_map s pid = Some meta" and "tm_scheduling_type meta = SCHED_TYPE_CBS"
    and "cbs_map s (cbs_key_from_meta meta) = Some c"
  defines "c' \<equiv> cbs_lazy_replenish c (now kn)"
  shows "fst (running kn pid s) = put_cbs (cbs_key_from_meta meta) (c'\<lparr>cs_exec_start_ns := now kn\<rparr>) s"
    and "\<exists>slice. snd (running kn pid s) = Some slice \<and>
      unat slice = 1000 * max 1 (min (unat (cs_remaining_us c'))
        (unat (us_until_next_tt s (cpu_id kn) (now kn))))"
proof -
  let ?n = "us_until_next_tt s (cpu_id kn) (now kn)"
  let ?e = "if ?n < cs_remaining_us c' then ?n else cs_remaining_us c'"
  let ?x = "if ?e = 0 then 1 else ?e"
  have r: "running kn pid s
      = (put_cbs (cbs_key_from_meta meta) (c'\<lparr>cs_exec_start_ns := now kn\<rparr>) s, Some (ucast ?x * 1000))"
    using assms by (auto simp: running_def Let_def word_gt_0)
  show "fst (running kn pid s) = put_cbs (cbs_key_from_meta meta) (c'\<lparr>cs_exec_start_ns := now kn\<rparr>) s"
    by (simp add: r)
  have "unat ?x = max 1 (min (unat (cs_remaining_us c')) (unat ?n))"
    by (auto simp: word_less_nat_alt unat_eq_zero [symmetric] min_def max_def)
  then show "\<exists>slice. snd (running kn pid s) = Some slice \<and>
      unat slice = 1000 * max 1 (min (unat (cs_remaining_us c')) (unat ?n))"
    unfolding r snd_conv by (intro exI [of _ "ucast ?x * 1000"] conjI refl) (simp only: period_ns_nat)
qed

text \<open>C22: When a budgeted task starts to run, its slice is never longer than what is left of its
  budget, counted in whole microseconds and never less than one. If the processor's next
  time-triggered start is at least one microsecond ahead, the slice ends no later than that start.
  The start of the execution is recorded for the charge.\<close>

theorem running_slice_bounded:
  assumes "task_meta_map s pid = Some meta" and "tm_scheduling_type meta = SCHED_TYPE_CBS"
    and "cbs_map s (cbs_key_from_meta meta) = Some c"
  shows "\<exists>slice c'. snd (running kn pid s) = Some slice
    \<and> cbs_map (fst (running kn pid s)) (cbs_key_from_meta meta) = Some c'
    \<and> cs_exec_start_ns c' = now kn
    \<and> 0 < slice \<and> unat slice \<le> 1000 * max 1 (unat (cs_remaining_us c'))
    \<and> (\<forall>n. arr_lookup (next_tt_start_map s) (cpu_id kn) = Some n \<and> n \<noteq> 0
           \<and> unat (now kn) + 1000 \<le> unat n \<longrightarrow> unat (now kn) + unat slice \<le> unat n)"
proof -
  let ?c = "cbs_lazy_replenish c (now kn)"
  let ?n = "us_until_next_tt s (cpu_id kn) (now kn)"
  obtain slice where sl: "snd (running kn pid s) = Some slice"
    and v: "unat slice = 1000 * max 1 (min (unat (cs_remaining_us ?c)) (unat ?n))"
    using running_cbs(2) [OF assms, of kn] by blast
  have "0 < unat ?n" using us_until_next_tt_pos by (simp add: word_less_nat_alt)
  then have le: "unat slice \<le> 1000 * max 1 (unat (cs_remaining_us ?c))" "unat slice \<le> 1000 * unat ?n"
    "0 < slice"
    unfolding v word_less_nat_alt by (simp_all add: v)
  have "unat (now kn) + unat slice \<le> unat n"
    if "arr_lookup (next_tt_start_map s) (cpu_id kn) = Some n" "n \<noteq> 0" "unat (now kn) + 1000 \<le> unat n" for n
    using us_until_next_tt_bound [OF that] le(2) by linarith
  then show ?thesis
    using sl le(1,3) by (simp add: running_cbs(1) [OF assms] put_cbs_def)
qed

definition demo_meta :: TaskMeta where
  "demo_meta = \<lparr>tm_workload_id_hash = 5, tm_task_id_hash = 7, tm_assigned_cpu = 2, tm_slot_duration_us = 0,
                tm_scheduling_type = 1, tm_layer = 0, tm_tt_runnable = 0, tm_activation_ns = 30000000,
                tm_cgroup_id = 0\<rparr>"

definition demo_kernel :: "u64 \<Rightarrow> kernel" where
  "demo_kernel t = \<lparr>now = t, cpu_id = 2,
     reserve = (\<lambda>_. Some \<lparr>fe_workload_id_hash = 0, fe_task_id_hash = 0, fe_cpu = 0,
                          fe_expected_deadline_ns = 0, fe_actual_completion_ns = 0, fe_fault_type = 0\<rparr>)\<rparr>"

definition demo_bpf :: bpf_state where
  "demo_bpf = (put_meta 100 demo_meta (put_cbs 2 demo_cbs (bpf_loaded 12)))
     \<lparr>next_tt_start_map := (\<lambda>_. 41200000)\<rparr>"

lemma demo_bpf_simps:
  "task_meta_map demo_bpf 100 = Some demo_meta"
  "cbs_map demo_bpf (cbs_key_from_meta demo_meta) = Some demo_cbs"
  "tm_scheduling_type demo_meta = SCHED_TYPE_CBS"
  by (simp_all add: demo_bpf_def put_meta_def put_cbs_def demo_meta_def cbs_key_from_meta_def sched_types)

theorem running_slice_bounded_witness:
  "\<exists>slice. snd (running (demo_kernel 41000000) 100 demo_bpf) = Some slice \<and> 0 < slice \<and> unat slice \<le> 200000"
proof -
  have "arr_lookup (next_tt_start_map demo_bpf) (cpu_id (demo_kernel 41000000)) = Some 41200000"
    by (simp add: arr_lookup_def demo_bpf_def demo_kernel_def MAX_CPUS_def)
  moreover have "now (demo_kernel 41000000) = 41000000" by (simp add: demo_kernel_def)
  ultimately show ?thesis
    using running_slice_bounded [OF demo_bpf_simps(1,3,2), of "demo_kernel 41000000"] by auto
qed

section \<open>Stopping\<close>

lemma put_simps [simp]:
  "task_meta_map (put_cbs key c s) = task_meta_map s"
  "cbs_map (put_cbs key c s) = (cbs_map s)(key \<mapsto> c)"
  "fault_ringbuf (put_cbs key c s) = fault_ringbuf s"
  "tt_runnable_count_map (put_cbs key c s) = tt_runnable_count_map s"
  "tt_active_until_map (put_cbs key c s) = tt_active_until_map s"
  "isolated_cpu_mask (put_cbs key c s) = isolated_cpu_mask s"
  "task_meta_map (put_meta pid m s) = (task_meta_map s)(pid \<mapsto> m)"
  "cbs_map (put_meta pid m s) = cbs_map s"
  "fault_ringbuf (put_meta pid m s) = fault_ringbuf s"
  "tt_runnable_count_map (put_meta pid m s) = tt_runnable_count_map s"
  "tt_active_until_map (put_meta pid m s) = tt_active_until_map s"
  "isolated_cpu_mask (put_meta pid m s) = isolated_cpu_mask s"
  by (simp_all add: put_cbs_def put_meta_def)

lemma submit_simps [simp]:
  "task_meta_map (submit_dmiss r m cpu d t s) = task_meta_map s"
  "cbs_map (submit_dmiss r m cpu d t s) = cbs_map s"
  "tt_runnable_count_map (submit_dmiss r m cpu d t s) = tt_runnable_count_map s"
  "tt_active_until_map (submit_dmiss r m cpu d t s) = tt_active_until_map s"
  "isolated_cpu_mask (submit_dmiss r m cpu d t s) = isolated_cpu_mask s"
  "task_meta_map (submit_budget_exceed r m cpu d s) = task_meta_map s"
  "cbs_map (submit_budget_exceed r m cpu d s) = cbs_map s"
  "tt_runnable_count_map (submit_budget_exceed r m cpu d s) = tt_runnable_count_map s"
  "tt_active_until_map (submit_budget_exceed r m cpu d s) = tt_active_until_map s"
  "isolated_cpu_mask (submit_budget_exceed r m cpu d s) = isolated_cpu_mask s"
  by (simp_all add: submit_dmiss_def submit_budget_exceed_def split: option.split)

lemma submit_misses:
  "r \<noteq> None \<Longrightarrow> filter (\<lambda>e. fe_fault_type e = FAULT_DMISS) (fault_ringbuf (submit_dmiss r m cpu d t s))
     = filter (\<lambda>e. fe_fault_type e = FAULT_DMISS) (fault_ringbuf s)
       @ [\<lparr>fe_workload_id_hash = tm_workload_id_hash m, fe_task_id_hash = tm_task_id_hash m, fe_cpu = cpu,
           fe_expected_deadline_ns = d, fe_actual_completion_ns = t, fe_fault_type = FAULT_DMISS\<rparr>]"
  "filter (\<lambda>e. fe_fault_type e = FAULT_DMISS) (fault_ringbuf (submit_budget_exceed r m cpu d s))
     = filter (\<lambda>e. fe_fault_type e = FAULT_DMISS) (fault_ringbuf s)"
  by (auto simp: submit_dmiss_def submit_budget_exceed_def FAULT_DMISS_def FAULT_BUDGET_EXCEED_def split: option.split)

lemma schedule_replenish_frame [simp]:
  "cs_remaining_us (schedule_replenish t c) = cs_remaining_us c"
  "cs_budget_us (schedule_replenish t c) = cs_budget_us c"
  "cs_exec_start_ns (schedule_replenish t c) = cs_exec_start_ns c"
  "cs_deadline_us (schedule_replenish t c) = cs_deadline_us c"
  by (simp_all add: schedule_replenish_def Let_def)

lemma lazy_replenish_deadline [simp]: "cs_deadline_us (cbs_lazy_replenish c t) = cs_deadline_us c"
  by (simp add: cbs_lazy_replenish_def Let_def)

lemma charge_frame [simp]:
  "cs_budget_us (charge t c) = cs_budget_us c"
  "cs_deadline_us (charge t c) = cs_deadline_us c"
  "cs_exec_start_ns (charge t c) = 0"
  by (simp_all add: charge_def Let_def)

text \<open>
  The pieces of a job: each time the kernel enqueues the task, lets it run and stops it, at the times and
  on the CPU its three callbacks see.
\<close>

definition job_piece :: "scx \<Rightarrow> u64 \<Rightarrow> u32 \<Rightarrow> bpf_state \<Rightarrow> kernel \<times> kernel \<times> kernel \<Rightarrow> bpf_state" where
  "job_piece k flags pid s = (\<lambda>(ke, kr, ks).
     stopping ks pid True (fst (running kr pid (fst (enqueue k ke pid flags s)))))"

definition job_ready :: "u32 \<Rightarrow> TaskMeta \<Rightarrow> u32 \<Rightarrow> bpf_state \<Rightarrow> bool" where
  "job_ready pid meta d s \<longleftrightarrow> task_meta_map s pid = Some meta \<and> tm_scheduling_type meta = SCHED_TYPE_CBS
     \<and> (\<exists>c. cbs_map s (cbs_key_from_meta meta) = Some c \<and> cs_deadline_us c = d)"

definition late :: "u64 \<Rightarrow> u32 \<Rightarrow> u64 \<Rightarrow> bool" where
  "late a d t \<longleftrightarrow> 0 < a \<and> 0 < d \<and> unat a + 1000 * unat d < unat t"

abbreviation misses_in :: "bpf_state \<Rightarrow> FaultEvent list" where
  "misses_in s \<equiv> filter (\<lambda>e. fe_fault_type e = FAULT_DMISS) (fault_ringbuf s)"

definition miss_event :: "TaskMeta \<Rightarrow> u64 \<Rightarrow> u32 \<Rightarrow> kernel \<Rightarrow> FaultEvent" where
  "miss_event meta a d ks = \<lparr>fe_workload_id_hash = tm_workload_id_hash meta, fe_task_id_hash = tm_task_id_hash meta,
     fe_cpu = cpu_id ks, fe_expected_deadline_ns = of_nat (unat a + 1000 * unat d),
     fe_actual_completion_ns = now ks, fe_fault_type = FAULT_DMISS\<rparr>"

lemma job_deadline_word:
  assumes "unat (a :: u64) + 1000 * unat (d :: u32) < 2 ^ 64"
  shows "unat (a + ucast d * 1000) = unat a + 1000 * unat d" "a + ucast d * 1000 = of_nat (unat a + 1000 * unat d)"
proof -
  show "unat (a + ucast d * 1000) = unat a + 1000 * unat d"
    using assms period_ns_nat [of d] by (subst unat_add_small) simp_all
  then show "a + ucast d * 1000 = of_nat (unat a + 1000 * unat d)"
    unfolding word_unat_eq_iff using assms by (simp add: unat_of_nat mult.commute)
qed

lemma enqueue_cbs:
  assumes "job_ready pid meta d s"
  shows "job_ready pid meta d (fst (enqueue k ke pid flags s))"
    and "fault_ringbuf (fst (enqueue k ke pid flags s)) = fault_ringbuf s"
  using assms by (auto simp: job_ready_def enqueue_def Let_def sched_types)

lemma job_piece_step:
  assumes ready: "job_ready pid meta d s" and run: "0 < now kr" and room: "\<forall>i. reserve ks i \<noteq> None"
    and fits: "unat (tm_activation_ns meta) + 1000 * unat d < 2 ^ 64"
  defines "miss \<equiv> late (tm_activation_ns meta) d (now ks)"
  shows "job_ready pid (if miss then meta\<lparr>tm_activation_ns := 0\<rparr> else meta) d (job_piece k flags pid s (ke, kr, ks))"
    and "misses_in (job_piece k flags pid s (ke, kr, ks)) = misses_in s @
      (if miss then [miss_event meta (tm_activation_ns meta) d ks] else [])"
proof -
  let ?s1 = "fst (enqueue k ke pid flags s)" and ?key = "cbs_key_from_meta meta"
  note r1 = enqueue_cbs [OF ready, of k ke flags]
  have m: "task_meta_map ?s1 pid = Some meta" "tm_scheduling_type meta = SCHED_TYPE_CBS"
    using r1(1) by (auto simp: job_ready_def)
  obtain c where c: "cbs_map ?s1 ?key = Some c" "cs_deadline_us c = d" using r1(1) by (auto simp: job_ready_def)
  let ?c = "(cbs_lazy_replenish c (now kr))\<lparr>cs_exec_start_ns := now kr\<rparr>"
  let ?s2 = "put_cbs ?key ?c ?s1"
  have "fst (running kr pid ?s1) = ?s2" using m c(1) by (rule running_cbs(1))
  then have piece: "job_piece k flags pid s (ke, kr, ks) = stopping_cbs ks pid meta ?s2"
    using m by (simp add: job_piece_def stopping_def sched_types)
  have miss: "miss \<longleftrightarrow> 0 < tm_activation_ns meta \<and> 0 < d \<and> tm_activation_ns meta + ucast d * 1000 < now ks"
    unfolding miss_def late_def word_less_nat_alt [of "tm_activation_ns meta + ucast d * 1000"]
    by (simp add: job_deadline_word(1) [OF fits])
  have room': "reserve ks 0 \<noteq> None" using room by blast
  have [simp]: "cbs_key_from_meta (meta\<lparr>tm_activation_ns := 0\<rparr>) = ?key" by (simp add: cbs_key_from_meta_def)
  show "job_ready pid (if miss then meta\<lparr>tm_activation_ns := 0\<rparr> else meta) d (job_piece k flags pid s (ke, kr, ks))"
    using m c run unfolding piece miss by (simp add: job_ready_def stopping_cbs_def Let_def)
  show "misses_in (job_piece k flags pid s (ke, kr, ks)) = misses_in s @
      (if miss then [miss_event meta (tm_activation_ns meta) d ks] else [])"
    using c run r1(2) unfolding piece miss
    by (simp add: stopping_cbs_def Let_def submit_misses(1) [OF room'] submit_misses(2) miss_event_def
        job_deadline_word(2) [OF fits])
qed

lemma late_cleared [simp]: "\<not> late 0 d t"
  by (simp add: late_def)

text \<open>C23: A missed deadline of a budgeted task is reported exactly once per job, and only if it is missed.
  A job begins when its task is woken, at time \<open>a\<close>; then the kernel may stop and resume it any number of
  times, while the ring buffer has room. If the server has a relative deadline, the report comes at the
  first stop that is later than \<open>a\<close> plus the deadline, on unbounded numbers; it names the workload, the
  task, the CPU, the deadline and the time of the stop. The later stops of the same job report no miss,
  and a job that never stops after its deadline reports none.\<close>

theorem missed_job_reported_once:
  assumes meta: "task_meta_map s pid = Some meta" "tm_scheduling_type meta = SCHED_TYPE_CBS"
    and c: "cbs_map s (cbs_key_from_meta meta) = Some c" "0 < cs_deadline_us c"
    and a: "0 < now kn" "unat (now kn) + 1000 * unat (cs_deadline_us c) < 2 ^ 64"
    and pieces: "\<forall>(ke, kr, ks)\<in>set pieces. 0 < now kr \<and> (\<forall>i. reserve ks i \<noteq> None)"
  shows "misses_in (foldl (job_piece k flags pid) (fst (select_cpu kn pid prev_cpu s)) pieces) = misses_in s @
    (case List.find (\<lambda>(ke, kr, ks). unat (now kn) + 1000 * unat (cs_deadline_us c) < unat (now ks)) pieces of
       None \<Rightarrow> []
     | Some (ke, kr, ks) \<Rightarrow>
         [\<lparr>fe_workload_id_hash = tm_workload_id_hash meta, fe_task_id_hash = tm_task_id_hash meta, fe_cpu = cpu_id ks,
           fe_expected_deadline_ns = of_nat (unat (now kn) + 1000 * unat (cs_deadline_us c)),
           fe_actual_completion_ns = now ks, fe_fault_type = FAULT_DMISS\<rparr>])"
proof -
  let ?d = "cs_deadline_us c"
  define job where "job = meta\<lparr>tm_activation_ns := now kn\<rparr>"
  have run: "misses_in (foldl (job_piece k flags pid) s ps) = misses_in s @
      (case List.find (\<lambda>(ke, kr, ks). late (tm_activation_ns m) ?d (now ks)) ps of
         None \<Rightarrow> [] | Some (ke, kr, ks) \<Rightarrow> [miss_event m (tm_activation_ns m) ?d ks])"
    if "job_ready pid m ?d s" "unat (tm_activation_ns m) + 1000 * unat ?d < 2 ^ 64"
      "\<forall>(ke, kr, ks)\<in>set ps. 0 < now kr \<and> (\<forall>i. reserve ks i \<noteq> None)" for ps m s
    using that
  proof (induction ps arbitrary: s m)
    case (Cons q ps)
    obtain ke kr ks where q: "q = (ke, kr, ks)" by (cases q) auto
    have kr: "0 < now kr" "\<forall>i. reserve ks i \<noteq> None" using Cons.prems(3) q by auto
    note step = job_piece_step [OF Cons.prems(1) kr Cons.prems(2), of k flags ke]
    show ?case
    proof (cases "late (tm_activation_ns m) ?d (now ks)")
      case True
      have "unat ?d * 1000 < 2 ^ 64" using Cons.prems(2) by simp
      moreover have "List.find (\<lambda>a. False) ps = None" by (simp add: find_None_iff)
      ultimately show ?thesis
        using Cons.IH [of "m\<lparr>tm_activation_ns := 0\<rparr>" "job_piece k flags pid s q"] step Cons.prems(3) True
        by (simp add: q)
    next
      case False
      with Cons.IH [of m "job_piece k flags pid s q"] step Cons.prems show ?thesis by (simp add: q)
    qed
  qed simp
  let ?s0 = "fst (select_cpu kn pid prev_cpu s)"
  have s0: "?s0 = put_meta pid job s" using meta by (simp add: select_cpu_def job_def Let_def)
  have "job_ready pid job ?d ?s0"
    using meta c by (simp add: s0 job_ready_def job_def cbs_key_from_meta_def)
  moreover have "tm_activation_ns job = now kn" by (simp add: job_def)
  ultimately show ?thesis
    using run [of job ?s0 pieces] a pieces c(2)
    by (simp add: s0 late_def miss_event_def job_def cong: option.case_cong)
qed

definition demo_scx :: scx where
  "demo_scx = \<lparr>SCX_DSQ_GLOBAL = 1, SCX_DSQ_LOCAL_ON = 2 ^ 63, SCX_SLICE_DFL = 20000000,
     SCX_ENQ_PREEMPT = 2 ^ 32, SCX_ENQ_HEAD = 16, SCX_KICK_IDLE = 1, SCX_KICK_PREEMPT = 2\<rparr>"

theorem missed_job_reported_once_witness:
  "map fe_actual_completion_ns (misses_in (foldl (job_piece demo_scx 0 100)
     (fst (select_cpu (demo_kernel 30000000) 100 2 demo_bpf))
     [(demo_kernel 30000000, demo_kernel 30000010, demo_kernel 33000000),
      (demo_kernel 34000000, demo_kernel 34000010, demo_kernel 41000000),
      (demo_kernel 41000001, demo_kernel 41000010, demo_kernel 42000000)])) = [41000000]"
proof -
  have "0 < cs_deadline_us demo_cbs" "fault_ringbuf demo_bpf = []"
    by (simp_all add: demo_cbs_def demo_bpf_def bpf_loaded_def)
  then show ?thesis
    using missed_job_reported_once [OF demo_bpf_simps(1,3,2), of "demo_kernel 30000000"
      "[(demo_kernel 30000000, demo_kernel 30000010, demo_kernel 33000000),
      (demo_kernel 34000000, demo_kernel 34000010, demo_kernel 41000000),
      (demo_kernel 41000001, demo_kernel 41000010, demo_kernel 42000000)]" demo_scx 0 2]
    by (simp add: demo_kernel_def demo_cbs_def)
qed

end
