(* ===== verification/Std_Double.thy ===== *)
theory Std_Double
  imports Prelude "HOL-Library.Log_Nat"
begin

text \<open>
  The \<open>double\<close> arithmetic the scheduler uses: IEEE 754 binary64 values as the rationals
  they denote, every operation rounded to a 53-bit significand, ties to even. The
  utilisations of the program are quotients of 32-bit integers and short sums and
  differences of them, so exponents stay far from the limits of the format and no
  overflow, underflow or NaN case arises; the exponent range is left unbounded.
\<close>

type_synonym double = rat

definition ilog2 :: "rat \<Rightarrow> int" where
  "ilog2 x = (if 1 \<le> x then int (floorlog 2 (nat \<lfloor>x\<rfloor>)) - 1
              else - int (floorlog 2 (nat (\<lceil>1 / x\<rceil> - 1))))"

definition round_even :: "rat \<Rightarrow> int" where
  "round_even y =
     (let f = \<lfloor>y\<rfloor>; r = y - of_int f
      in if r < 1 / 2 then f else if 1 / 2 < r then f + 1
         else if even f then f else f + 1)"

definition fl :: "rat \<Rightarrow> double" where
  "fl x = (if x = 0 then 0
           else let e = ilog2 \<bar>x\<bar>
                in of_int (round_even (x * 2 powi (52 - e))) * 2 powi (e - 52))"

definition fadd :: "double \<Rightarrow> double \<Rightarrow> double" where
  "fadd a b = fl (a + b)"

definition fsub :: "double \<Rightarrow> double \<Rightarrow> double" where
  "fsub a b = fl (a - b)"

definition fdiv :: "double \<Rightarrow> double \<Rightarrow> double" where
  "fdiv a b = fl (a / b)"

lemma round_even_error: "\<bar>of_int (round_even y) - y\<bar> \<le> (1 / 2 :: rat)"
proof -
  have "of_int \<lfloor>y\<rfloor> \<le> y" "y < of_int \<lfloor>y\<rfloor> + 1"
    using floor_correct [of y] by simp_all
  then show ?thesis
    unfolding round_even_def Let_def by (auto simp: abs_le_iff not_less)
qed

lemma round_even_nonneg: "0 \<le> y \<Longrightarrow> 0 \<le> round_even y"
  by (auto simp: round_even_def Let_def)

lemma floorlog2_bounds:
  assumes "0 < n"
  shows "2 ^ (floorlog 2 n - 1) \<le> n" and "n < 2 ^ floorlog 2 n" and "1 \<le> floorlog 2 n"
  using floorlog_bounds [of n 2] assms by (simp_all add: Suc_le_eq) (metis less_one not_gr_zero power_0)

lemma ilog2_lower:
  assumes "0 < x"
  shows "2 powi ilog2 x \<le> x"
proof (cases "1 \<le> x")
  case True
  let ?n = "nat \<lfloor>x\<rfloor>"
  from True have n: "0 < ?n" by (simp add: le_floor_iff)
  have "(2::rat) powi ilog2 x = 2 ^ (floorlog 2 ?n - 1)"
    using True floorlog2_bounds(3) [OF n]
    by (simp add: ilog2_def power_int_def nat_diff_distrib')
  also have "\<dots> = of_nat (2 ^ (floorlog 2 ?n - 1))" by simp
  also have "\<dots> \<le> of_nat ?n"
    using floorlog2_bounds(1) [OF n] by (simp only: of_nat_le_iff)
  also have "\<dots> \<le> x"
    using True by (simp add: le_floor_iff)
  finally show ?thesis .
next
  case False
  let ?m = "nat (\<lceil>1 / x\<rceil> - 1)"
  from False assms have "1 < 1 / x" by simp
  then have ceil: "2 \<le> \<lceil>1 / x\<rceil>" by linarith
  then have m: "0 < ?m" by simp
  have "1 / x \<le> of_int \<lceil>1 / x\<rceil>" by (rule le_of_int_ceiling)
  also have "\<dots> = of_nat (?m + 1)"
  proof -
    have "\<lceil>1 / x\<rceil> = int (?m + 1)" using ceil by linarith
    then show ?thesis by (metis of_int_of_nat_eq)
  qed
  also have "\<dots> \<le> of_nat (2 ^ floorlog 2 ?m)"
    using floorlog2_bounds(2) [OF m] unfolding of_nat_le_iff by linarith
  finally have "1 / x \<le> 2 ^ floorlog 2 ?m" by simp
  then have "1 / 2 ^ floorlog 2 ?m \<le> x"
    using assms by (simp add: field_simps)
  moreover have "(2::rat) powi ilog2 x = 1 / 2 ^ floorlog 2 ?m"
    using False by (simp add: ilog2_def power_int_minus inverse_eq_divide)
  ultimately show ?thesis by simp
qed

lemma fl_0 [simp]: "fl 0 = 0"
  by (simp add: fl_def)

lemma fl_nonneg: "0 \<le> x \<Longrightarrow> 0 \<le> fl x"
  by (auto simp: fl_def Let_def intro!: mult_nonneg_nonneg round_even_nonneg)

text \<open>The relative error of rounding is at most half a unit in the last place.\<close>

lemma fl_error: "\<bar>fl x - x\<bar> \<le> \<bar>x\<bar> / 2 ^ 53"
proof (cases "x = 0")
  case False
  let ?e = "ilog2 \<bar>x\<bar>"
  let ?y = "x * 2 powi (52 - ?e)"
  have inv: "(2::rat) powi (52 - ?e) * 2 powi (?e - 52) = 1"
    by (simp flip: power_int_add)
  have "fl x - x = (of_int (round_even ?y) - ?y) * 2 powi (?e - 52)"
    using False inv by (simp add: fl_def Let_def algebra_simps)
  then have "\<bar>fl x - x\<bar> = \<bar>of_int (round_even ?y) - ?y\<bar> * 2 powi (?e - 52)"
    by (simp add: abs_mult)
  also have "\<dots> \<le> 1 / 2 * 2 powi (?e - 52)"
    using round_even_error [of ?y] by (intro mult_right_mono) simp_all
  also have "\<dots> = 2 powi ?e / 2 ^ 53"
    by (simp add: power_int_diff)
  also have "\<dots> \<le> \<bar>x\<bar> / 2 ^ 53"
    using ilog2_lower [of "\<bar>x\<bar>"] False by (intro divide_right_mono) simp_all
  finally show ?thesis .
qed simp

lemma fl_upper: "0 \<le> x \<Longrightarrow> fl x \<le> x * (1 + 1 / 2 ^ 53)"
  using fl_error [of x] by (simp add: abs_if algebra_simps split: if_splits)

lemma fl_lower: "0 \<le> x \<Longrightarrow> x * (1 - 1 / 2 ^ 53) \<le> fl x"
  using fl_error [of x] by (simp add: abs_if algebra_simps split: if_splits)

end
