(* ===== verification/Std_String.thy ===== *)
theory Std_String
  imports Std_Double
begin

text \<open>
  String routines of the C and C++ libraries that the sources call: decimal printing,
  \<open>strtol\<close>, \<open>std::stoi\<close>, \<open>std::stoull\<close> in base 16, trimming, splitting with
  \<open>std::getline\<close>, and \<open>strncpy\<close>/\<open>strncmp\<close> on fixed-size names. Strings are byte
  lists; a C string ends at its first zero byte.
\<close>

section \<open>Characters\<close>

definition chr_code :: "char \<Rightarrow> nat" where
  "chr_code c = of_char c"

definition is_digit :: "char \<Rightarrow> bool" where
  "is_digit c \<longleftrightarrow> 48 \<le> chr_code c \<and> chr_code c \<le> 57"

definition digit_char :: "nat \<Rightarrow> char" where
  "digit_char d = char_of (48 + d)"

definition digit_val :: "char \<Rightarrow> nat" where
  "digit_val c = chr_code c - 48"

definition xdigit_val :: "char \<Rightarrow> nat option" where
  "xdigit_val c =
     (let n = chr_code c in
      if 48 \<le> n \<and> n \<le> 57 then Some (n - 48)
      else if 97 \<le> n \<and> n \<le> 102 then Some (n - 87)
      else if 65 \<le> n \<and> n \<le> 70 then Some (n - 55)
      else None)"

text \<open>\<open>isspace\<close> in the C locale.\<close>

definition is_space :: "char \<Rightarrow> bool" where
  "is_space c \<longleftrightarrow> chr_code c = 32 \<or> (9 \<le> chr_code c \<and> chr_code c \<le> 13)"

definition is_blank :: "char \<Rightarrow> bool" where
  "is_blank c \<longleftrightarrow> chr_code c = 32 \<or> chr_code c = 9"

section \<open>Printing\<close>

fun nat_to_string :: "nat \<Rightarrow> string" where
  "nat_to_string n =
     (if n < 10 then [digit_char n] else nat_to_string (n div 10) @ [digit_char (n mod 10)])"

declare nat_to_string.simps [simp del]

definition int_to_string :: "int \<Rightarrow> string" where
  "int_to_string i = (if i < 0 then CHR ''-'' # nat_to_string (nat (- i)) else nat_to_string (nat i))"

text \<open>\<open>std::to_string(double)\<close> prints with six decimals (\<open>%f\<close>).\<close>

definition double_to_string :: "double \<Rightarrow> string" where
  "double_to_string x =
     (let m = nat (round_even (\<bar>x\<bar> * 1000000));
          frac = nat_to_string (m mod 1000000)
      in (if x < 0 then ''-'' else []) @ nat_to_string (m div 1000000) @ ''.'' @
         replicate (6 - length frac) (CHR ''0'') @ frac)"

section \<open>Parsing numbers\<close>

datatype std_exn = Invalid_argument | Out_of_range

definition digits_val :: "string \<Rightarrow> nat" where
  "digits_val ds = foldl (\<lambda>acc c. 10 * acc + digit_val c) 0 ds"

definition take_sign :: "string \<Rightarrow> bool \<times> string" where
  "take_sign s = (case s of [] \<Rightarrow> (False, [])
     | c # cs \<Rightarrow> if c = CHR ''-'' then (True, cs) else if c = CHR ''+'' then (False, cs) else (False, s))"

text \<open>
  \<open>strtol(s, &end, 10)\<close>: \<open>None\<close> when no conversion is possible (\<open>end == s\<close>), otherwise
  the value, clipped to the range of \<open>long\<close>, and the unread rest.
\<close>

definition strtol10 :: "string \<Rightarrow> (int \<times> string) option" where
  "strtol10 s =
     (let (neg, r) = take_sign (dropWhile is_space s);
          ds = takeWhile is_digit r;
          v = (if neg then - int (digits_val ds) else int (digits_val ds))
      in if ds = [] then None
         else Some (max (- (2 ^ 63)) (min (2 ^ 63 - 1) v), dropWhile is_digit r))"

definition stoi :: "string \<Rightarrow> std_exn + int" where
  "stoi s = (case strtol10 s of None \<Rightarrow> Inl Invalid_argument
     | Some (v, _) \<Rightarrow> if - (2 ^ 31) \<le> v \<and> v < 2 ^ 31 then Inr v else Inl Out_of_range)"

definition stoull16 :: "string \<Rightarrow> std_exn + u64" where
  "stoull16 s =
     (let (neg, r) = take_sign (dropWhile is_space s);
          r' = (case r of CHR ''0'' # x # c # cs \<Rightarrow>
                   if (x = CHR ''x'' \<or> x = CHR ''X'') \<and> xdigit_val c \<noteq> None then c # cs else r
                | _ \<Rightarrow> r);
          ds = takeWhile (\<lambda>c. xdigit_val c \<noteq> None) r';
          v = foldl (\<lambda>acc c. 16 * acc + the (xdigit_val c)) 0 ds
      in if ds = [] then Inl Invalid_argument
         else if 2 ^ 64 \<le> v then Inl Out_of_range
         else Inr (if neg then - of_nat v else of_nat v))"

section \<open>Splitting and trimming\<close>

fun split_on :: "char \<Rightarrow> string \<Rightarrow> string list" where
  "split_on d [] = [[]]"
| "split_on d (c # cs) =
     (if c = d then [] # split_on d cs
      else (case split_on d cs of [] \<Rightarrow> [[c]] | t # ts \<Rightarrow> (c # t) # ts))"

text \<open>
  The tokens a loop \<open>while (std::getline(stream, token, d))\<close> sees: the pieces between the
  separators, without an empty piece after the last one.
\<close>

definition getlines :: "char \<Rightarrow> string \<Rightarrow> string list" where
  "getlines d s = (let ps = split_on d s in if last ps = [] then butlast ps else ps)"

definition trim_by :: "(char \<Rightarrow> bool) \<Rightarrow> string \<Rightarrow> string" where
  "trim_by ws s = rev (dropWhile ws (rev (dropWhile ws s)))"

definition starts_with :: "string \<Rightarrow> string \<Rightarrow> bool" where
  "starts_with p s \<longleftrightarrow> take (length p) s = p"

section \<open>C strings\<close>

definition c_str :: "string \<Rightarrow> string" where
  "c_str s = takeWhile (\<lambda>c. c \<noteq> CHR 0x00) s"

text \<open>\<open>strncpy(dst, src, n)\<close>: \<open>n\<close> bytes are written, padded with zero bytes.\<close>

definition strncpy :: "string \<Rightarrow> nat \<Rightarrow> string" where
  "strncpy src n = take n (c_str src @ replicate n (CHR 0x00))"

definition strncmp_eq :: "string \<Rightarrow> string \<Rightarrow> nat \<Rightarrow> bool" where
  "strncmp_eq a b n \<longleftrightarrow> take n (c_str a) = take n (c_str b)"

section \<open>Lemmas\<close>

lemma chr_code_digit_char: "d < 10 \<Longrightarrow> chr_code (digit_char d) = 48 + d"
  by (simp add: chr_code_def digit_char_def)

lemma digit_char_digit [simp]: "d < 10 \<Longrightarrow> is_digit (digit_char d)"
  by (simp add: is_digit_def chr_code_digit_char)

lemma digit_val_char [simp]: "d < 10 \<Longrightarrow> digit_val (digit_char d) = d"
  by (simp add: digit_val_def chr_code_digit_char)

lemma digits_val_snoc: "digits_val (ds @ [c]) = 10 * digits_val ds + digit_val c"
  by (simp add: digits_val_def)

lemma nat_to_string_nonempty [simp]: "nat_to_string n \<noteq> []"
  by (subst nat_to_string.simps) simp

lemma nat_to_string_digits: "list_all is_digit (nat_to_string n)"
proof (induction n rule: nat_to_string.induct)
  case (1 n)
  then show ?case by (subst nat_to_string.simps) simp
qed

text \<open>Decimal printing is inverted by decimal parsing.\<close>

lemma digits_val_to_string [simp]: "digits_val (nat_to_string n) = n"
proof (induction n rule: nat_to_string.induct)
  case (1 n)
  show ?case
  proof (cases "n < 10")
    case True
    then show ?thesis by (subst nat_to_string.simps) (simp add: digits_val_def)
  next
    case False
    with 1 show ?thesis
      by (subst nat_to_string.simps) (simp add: digits_val_snoc)
  qed
qed

lemma nat_to_string_inj: "nat_to_string m = nat_to_string n \<longleftrightarrow> m = n"
  by (metis digits_val_to_string)

lemma is_digit_not_space: "is_digit c \<Longrightarrow> \<not> is_space c"
  by (auto simp: is_digit_def is_space_def)

lemma is_digit_not_sign: "is_digit c \<Longrightarrow> c \<noteq> CHR ''-'' \<and> c \<noteq> CHR ''+''"
  by (auto simp: is_digit_def chr_code_def)

lemma takeWhile_all: "list_all P xs \<Longrightarrow> takeWhile P xs = xs"
  by (simp add: list_all_iff takeWhile_eq_all_conv)

lemma strtol10_nat_to_string:
  assumes "n < 2 ^ 63"
  shows "strtol10 (nat_to_string n) = Some (int n, [])"
proof -
  obtain c cs where s: "nat_to_string n = c # cs"
    using nat_to_string_nonempty list.exhaust by metis
  have ds: "list_all is_digit (c # cs)"
    using nat_to_string_digits [of n] s by simp
  then have "is_digit c" by simp
  then have "dropWhile is_space (c # cs) = c # cs" "take_sign (c # cs) = (False, c # cs)"
    by (auto simp: is_digit_not_space take_sign_def dest: is_digit_not_sign)
  moreover have "takeWhile is_digit (c # cs) = c # cs" "dropWhile is_digit (c # cs) = []"
    using ds by (auto simp: takeWhile_all list_all_iff dropWhile_eq_Nil_conv)
  moreover have "digits_val (c # cs) = n"
    using digits_val_to_string [of n] s by simp
  ultimately show ?thesis
    using assms by (simp add: strtol10_def s)
qed

lemma stoi_nat_to_string:
  assumes "n < 2 ^ 31"
  shows "stoi (nat_to_string n) = Inr (int n)"
  using assms strtol10_nat_to_string [of n] by (simp add: stoi_def)

lemma length_strncpy [simp]: "length (strncpy s n) = n"
  by (simp add: strncpy_def)

lemma c_str_idem [simp]: "c_str (c_str s) = c_str s"
  by (simp add: c_str_def)

lemma c_str_append_zero: "c_str (c_str s @ replicate n (CHR 0x00)) = c_str s"
  by (cases n) (simp_all add: c_str_def takeWhile_append)

section \<open>Joined tokens\<close>

fun join_with :: "char \<Rightarrow> string list \<Rightarrow> string" where
  "join_with d [] = []"
| "join_with d [t] = t"
| "join_with d (t # u # ts) = t @ d # join_with d (u # ts)"

lemma split_on_nonempty [simp]: "split_on d s \<noteq> []"
  by (induction s) (auto split: list.splits)

lemma split_on_token: "d \<notin> set t \<Longrightarrow> split_on d (t @ d # r) = t # split_on d r"
  by (induction t) auto

lemma split_on_single: "d \<notin> set t \<Longrightarrow> split_on d t = [t]"
  by (induction t) auto

lemma split_on_join:
  "ts \<noteq> [] \<Longrightarrow> \<forall>t\<in>set ts. d \<notin> set t \<Longrightarrow> split_on d (join_with d ts) = ts"
  by (induction d ts rule: join_with.induct) (auto simp: split_on_token split_on_single)

lemma getlines_join:
  assumes "\<forall>t\<in>set ts. d \<notin> set t \<and> t \<noteq> []"
  shows "getlines d (join_with d ts) = ts"
proof (cases "ts = []")
  case True
  then show ?thesis by (simp add: getlines_def)
next
  case False
  with assms have "split_on d (join_with d ts) = ts" "last ts \<noteq> []"
    by (auto intro: split_on_join)
  then show ?thesis by (simp add: getlines_def Let_def)
qed

lemma trim_by_id:
  assumes "t \<noteq> []" and "\<not> ws (hd t)" and "\<not> ws (last t)"
  shows "trim_by ws t = t"
proof -
  have "dropWhile ws t = t" using assms(1,2) by (cases t) simp_all
  moreover have "dropWhile ws (rev t) = rev t"
    using assms(1,3) by (cases t rule: rev_cases) simp_all
  ultimately show ?thesis by (simp add: trim_by_def)
qed

lemma nat_to_string_no:
  assumes "\<not> is_digit c"
  shows "c \<notin> set (nat_to_string n)"
  using assms nat_to_string_digits [of n] by (auto simp: list_all_iff)

lemma nat_to_string_ends:
  "is_digit (hd (nat_to_string n))" "is_digit (last (nat_to_string n))"
  using nat_to_string_digits [of n] by (auto simp: list_all_iff)

lemma separators_not_digit [simp]: "\<not> is_digit (CHR '','')" "\<not> is_digit (CHR ''-'')" "\<not> is_digit (CHR '':'')"
  by (simp_all add: is_digit_def chr_code_def)

end
