(* ===== verification/Bpf_Loader.thy ===== *)
theory Bpf_Loader
  imports Bpf_Sched Std_String
begin

text \<open>
  The user-space side of the kernel scheduler, \<open>timpani-n/src/bpf_loader.cpp\<close>: finding the isolated
  CPUs in the cgroup tree, loading the programs, and the accessors of the BPF maps. The directory
  \<open>/sys/fs/cgroup\<close> is a parameter, as is whether libbpf opens, loads and attaches the programs and
  whether a hash map still has room for an entry. The second half has the runs of the loaded
  scheduler: its callbacks interleaved with the accessors.
\<close>

section \<open>Isolated CPUs\<close>

definition is_trimmed :: "char \<Rightarrow> bool" where
  "is_trimmed c \<longleftrightarrow> is_blank c \<or> chr_code c = 13 \<or> chr_code c = 10"

text \<open>
  The loop \<open>for (c = lo; c <= hi && c < 64; c++)\<close>. Its lower end has no sign, because it stands
  before the first dash of the token.
\<close>

definition set_cpus :: "int \<Rightarrow> int \<Rightarrow> u64 \<Rightarrow> u64" where
  "set_cpus lo hi m = foldl (\<lambda>m c. m OR push_bit (nat c) 1) m [lo..min hi 63]"

definition parse_cpu_token :: "string \<Rightarrow> u64 \<Rightarrow> std_exn + u64" where
  "parse_cpu_token token m =
     (if CHR ''-'' \<notin> set token
      then bindE (stoi token) (\<lambda>cpu. Inr (if 0 \<le> cpu \<and> cpu < 64 then m OR push_bit (nat cpu) 1 else m))
      else bindE (stoi (takeWhile (\<lambda>c. c \<noteq> CHR ''-'') token))
             (\<lambda>lo. bindE (stoi (tl (dropWhile (\<lambda>c. c \<noteq> CHR ''-'') token)))
             (\<lambda>hi. Inr (set_cpus lo hi m))))"

fun parse_cpu_tokens :: "string list \<Rightarrow> u64 \<Rightarrow> std_exn + u64" where
  "parse_cpu_tokens [] m = Inr m"
| "parse_cpu_tokens (t # ts) m =
     (let token = trim_by is_trimmed t
      in if token = [] then parse_cpu_tokens ts m
         else bindE (parse_cpu_token token m) (parse_cpu_tokens ts))"

definition parse_cpu_range_to_mask :: "string \<Rightarrow> std_exn + u64" where
  "parse_cpu_range_to_mask range_str = parse_cpu_tokens (getlines (CHR '','') range_str) 0"

datatype fsnode = File string | Dir "(string \<times> fsnode) list"

definition read_file_line :: "(string \<times> fsnode) list \<Rightarrow> string \<Rightarrow> string" where
  "read_file_line dir name =
     (case map_of dir name of
        Some (File content) \<Rightarrow>
          (case filter (\<lambda>l. l \<noteq> []) (getlines (CHR 0x0A) content) of [] \<Rightarrow> [] | l # _ \<Rightarrow> l)
      | _ \<Rightarrow> [])"

definition isolated_partition :: "(string \<times> fsnode) list \<Rightarrow> std_exn + u64" where
  "isolated_partition sub =
     (if read_file_line sub ''cpuset.cpus.partition'' = ''isolated''
      then let eff = read_file_line sub ''cpuset.cpus.effective''
           in parse_cpu_range_to_mask (if eff = [] then read_file_line sub ''cpuset.cpus'' else eff)
      else Inr 0)"

fun scan_cgroup_tree_for_isolated :: "(string \<times> fsnode) list \<Rightarrow> std_exn + u64" where
  "scan_cgroup_tree_for_isolated [] = Inr 0"
| "scan_cgroup_tree_for_isolated ((name, File content) # es) = scan_cgroup_tree_for_isolated es"
| "scan_cgroup_tree_for_isolated ((name, Dir sub) # es) =
     (if take 1 name = ''.'' then scan_cgroup_tree_for_isolated es
      else bindE (isolated_partition sub)
             (\<lambda>a. bindE (scan_cgroup_tree_for_isolated sub)
             (\<lambda>b. bindE (scan_cgroup_tree_for_isolated es) (\<lambda>rest. Inr (a OR b OR rest)))))"

definition detect_isolated_cpu_mask :: "(string \<times> fsnode) list option \<Rightarrow> std_exn + u64" where
  "detect_isolated_cpu_mask cgroup =
     (case cgroup of
        None \<Rightarrow> Inr 0
      | Some base \<Rightarrow>
          let val = read_file_line base ''cpuset.cpus.isolated''
          in if val \<noteq> []
             then bindE (parse_cpu_range_to_mask val)
                    (\<lambda>m. if m \<noteq> 0 then Inr m else scan_cgroup_tree_for_isolated base)
             else scan_cgroup_tree_for_isolated base)"

section \<open>The loader\<close>

record BpfLoader =
  active_map_idx :: int
  skel :: "bpf_state option"

definition BpfLoader_init :: BpfLoader where
  "BpfLoader_init = \<lparr>active_map_idx = 0, skel = None\<rparr>"

definition unload_programs :: "BpfLoader \<Rightarrow> BpfLoader" where
  "unload_programs ld = (case skel ld of Some _ \<Rightarrow> ld\<lparr>skel := None\<rparr> | None \<Rightarrow> ld)"

text \<open>\<open>opened\<close>, \<open>verified\<close> and \<open>attached\<close> say what libbpf's open, load and attach return.\<close>

definition load_programs ::
  "(string \<times> fsnode) list option \<Rightarrow> bool \<Rightarrow> bool \<Rightarrow> bool \<Rightarrow> BpfLoader \<Rightarrow> (std_exn + bool) \<times> BpfLoader" where
  "load_programs cgroup opened verified attached ld =
     (case detect_isolated_cpu_mask cgroup of
        Inl e \<Rightarrow> (Inl e, ld)
      | Inr iso_mask \<Rightarrow>
          if iso_mask = 0 then (Inr False, ld)
          else if \<not> opened then (Inr False, ld\<lparr>skel := None\<rparr>)
          else let ld1 = ld\<lparr>skel := Some (bpf_loaded iso_mask)\<rparr>
               in if \<not> verified then (Inr False, unload_programs ld1)
                  else if \<not> attached then (Inr False, unload_programs ld1)
                  else (Inr True, ld1))"

definition with_skel :: "(bpf_state \<Rightarrow> bool) \<Rightarrow> (bpf_state \<Rightarrow> bpf_state) \<Rightarrow> BpfLoader \<Rightarrow> bool \<times> BpfLoader" where
  "with_skel ok f ld =
     (case skel ld of
        None \<Rightarrow> (False, ld)
      | Some s \<Rightarrow> if ok s then (True, ld\<lparr>skel := Some (f s)\<rparr>) else (False, ld))"

definition put_tt :: "TtSlotKey \<Rightarrow> TtSlotBpf \<Rightarrow> bpf_state \<Rightarrow> bpf_state" where
  "put_tt key slot s = s\<lparr>tt_table_map := (tt_table_map s)(key \<mapsto> slot)\<rparr>"

definition del_tt :: "TtSlotKey \<Rightarrow> bpf_state \<Rightarrow> bpf_state" where
  "del_tt key s = s\<lparr>tt_table_map := (tt_table_map s)(key := None)\<rparr>"

definition del_cbs :: "u64 \<Rightarrow> bpf_state \<Rightarrow> bpf_state" where
  "del_cbs key s = s\<lparr>cbs_map := (cbs_map s)(key := None)\<rparr>"

definition del_meta :: "u32 \<Rightarrow> bpf_state \<Rightarrow> bpf_state" where
  "del_meta pid s = s\<lparr>task_meta_map := (task_meta_map s)(pid := None)\<rparr>"

definition put_current :: "u32 \<Rightarrow> u32 \<Rightarrow> bpf_state \<Rightarrow> bpf_state" where
  "put_current cpu idx s = s\<lparr>current_slot_map := arr_update (current_slot_map s) cpu idx\<rparr>"

definition put_next :: "u32 \<Rightarrow> u64 \<Rightarrow> bpf_state \<Rightarrow> bpf_state" where
  "put_next cpu t s = s\<lparr>next_tt_start_map := arr_update (next_tt_start_map s) cpu t\<rparr>"

definition update_tt_slot :: "bool \<Rightarrow> TtSlotKey \<Rightarrow> TtSlotBpf \<Rightarrow> BpfLoader \<Rightarrow> bool \<times> BpfLoader" where
  "update_tt_slot room key slot = with_skel (\<lambda>_. room) (put_tt key slot)"

definition update_cbs_state :: "bool \<Rightarrow> u64 \<Rightarrow> CbsState \<Rightarrow> BpfLoader \<Rightarrow> bool \<times> BpfLoader" where
  "update_cbs_state room hash st = with_skel (\<lambda>_. room) (put_cbs hash st)"

definition update_task_meta :: "bool \<Rightarrow> u32 \<Rightarrow> TaskMeta \<Rightarrow> BpfLoader \<Rightarrow> bool \<times> BpfLoader" where
  "update_task_meta room pid meta = with_skel (\<lambda>_. room) (put_meta pid meta)"

definition delete_task_meta :: "u32 \<Rightarrow> BpfLoader \<Rightarrow> bool \<times> BpfLoader" where
  "delete_task_meta pid = with_skel (\<lambda>s. task_meta_map s pid \<noteq> None) (del_meta pid)"

definition delete_tt_slot :: "TtSlotKey \<Rightarrow> BpfLoader \<Rightarrow> bool \<times> BpfLoader" where
  "delete_tt_slot key = with_skel (\<lambda>s. tt_table_map s key \<noteq> None) (del_tt key)"

definition delete_cbs_state :: "u64 \<Rightarrow> BpfLoader \<Rightarrow> bool \<times> BpfLoader" where
  "delete_cbs_state hash = with_skel (\<lambda>s. cbs_map s hash \<noteq> None) (del_cbs hash)"

definition update_current_slot :: "u32 \<Rightarrow> u32 \<Rightarrow> BpfLoader \<Rightarrow> bool \<times> BpfLoader" where
  "update_current_slot cpu slot_idx = with_skel (\<lambda>_. cpu < MAX_CPUS) (put_current cpu slot_idx)"

definition update_next_tt_start :: "u32 \<Rightarrow> u64 \<Rightarrow> BpfLoader \<Rightarrow> bool \<times> BpfLoader" where
  "update_next_tt_start cpu next_start_ns = with_skel (\<lambda>_. cpu < MAX_CPUS) (put_next cpu next_start_ns)"

definition swap_shadow_maps :: "BpfLoader \<Rightarrow> BpfLoader" where
  "swap_shadow_maps ld = ld\<lparr>active_map_idx := 1 - active_map_idx ld\<rparr>"

definition get_shadow_map_idx :: "BpfLoader \<Rightarrow> int" where
  "get_shadow_map_idx ld = 1 - active_map_idx ld"

definition apply_table_update :: "BpfLoader \<Rightarrow> BpfLoader" where
  "apply_table_update ld = swap_shadow_maps ld"

section \<open>The isolation mask\<close>

definition cpu_token :: "nat \<times> nat \<Rightarrow> string" where
  "cpu_token r = (if fst r = snd r then nat_to_string (fst r)
     else nat_to_string (fst r) @ CHR ''-'' # nat_to_string (snd r))"

lemma is_trimmed_digit: "is_digit c \<Longrightarrow> \<not> is_trimmed c"
  by (auto simp: is_digit_def is_trimmed_def is_blank_def)

lemma cpu_token_shape:
  "cpu_token r \<noteq> []" "CHR '','' \<notin> set (cpu_token r)"
  "is_digit (hd (cpu_token r))" "is_digit (last (cpu_token r))"
  by (simp_all add: cpu_token_def nat_to_string_no nat_to_string_ends)

lemma bit_one_shift: "c < 64 \<Longrightarrow> bit (2 ^ n :: u64) c \<longleftrightarrow> n = c"
  by (auto simp: bit_exp_iff)

lemma and_one_shift:
  assumes "n < 64"
  shows "(m :: u64) AND 2 ^ n = 0 \<longleftrightarrow> \<not> bit m n"
  using assms by (auto simp: bit_eq_iff [of "m AND 2 ^ n" 0] bit_and_iff bit_exp_iff)

lemma bit_set_cpus:
  assumes "0 \<le> lo" and "c < 64"
  shows "bit (set_cpus lo hi m) c \<longleftrightarrow> bit m c \<or> lo \<le> int c \<and> int c \<le> hi"
proof -
  have "bit (foldl (\<lambda>m i. m OR push_bit (nat i) 1) m js) c \<longleftrightarrow> bit m c \<or> (\<exists>i\<in>set js. nat i = c)"
    for js and m :: u64
    using assms(2) by (induction js arbitrary: m) (auto simp: bit_or_iff bit_one_shift)
  moreover have "(\<exists>i\<in>set [lo..min hi 63]. nat i = c) \<longleftrightarrow> lo \<le> int c \<and> int c \<le> hi"
    using assms by (auto intro!: bexI [of _ "int c"])
  ultimately show ?thesis by (simp add: set_cpus_def)
qed

lemma parse_cpu_token_range:
  assumes "fst r < 2 ^ 31" and "snd r < 2 ^ 31"
  shows "\<exists>m'. parse_cpu_token (cpu_token r) m = Inr m' \<and>
    (\<forall>c<64. bit m' c \<longleftrightarrow> bit m c \<or> fst r \<le> c \<and> c \<le> snd r)"
proof (cases "fst r = snd r")
  case True
  then have "parse_cpu_token (cpu_token r) m
      = Inr (if fst r < 64 then m OR push_bit (fst r) 1 else m)"
    using assms by (simp add: parse_cpu_token_def cpu_token_def nat_to_string_no stoi_nat_to_string)
  with True show ?thesis by (auto simp: bit_or_iff bit_one_shift)
next
  case False
  let ?a = "nat_to_string (fst r)" and ?b = "nat_to_string (snd r)"
  have "takeWhile (\<lambda>c. c \<noteq> CHR ''-'') (?a @ CHR ''-'' # ?b) = ?a"
    "dropWhile (\<lambda>c. c \<noteq> CHR ''-'') (?a @ CHR ''-'' # ?b) = CHR ''-'' # ?b"
    using nat_to_string_no [of "CHR ''-''" "fst r"]
    by (simp_all add: takeWhile_append takeWhile_all dropWhile_append list_all_iff)
  then have "parse_cpu_token (cpu_token r) m = Inr (set_cpus (int (fst r)) (int (snd r)) m)"
    using assms False by (simp add: parse_cpu_token_def cpu_token_def stoi_nat_to_string)
  then show ?thesis by (auto simp: bit_set_cpus)
qed

lemma parse_cpu_tokens_ranges:
  assumes "\<forall>r\<in>set rs. fst r < 2 ^ 31 \<and> snd r < 2 ^ 31"
  shows "\<exists>m'. parse_cpu_tokens (map cpu_token rs) m = Inr m' \<and>
    (\<forall>c<64. bit m' c \<longleftrightarrow> bit m c \<or> (\<exists>r\<in>set rs. fst r \<le> c \<and> c \<le> snd r))"
  using assms
proof (induction rs arbitrary: m)
  case Nil
  then show ?case by simp
next
  case (Cons r rs)
  obtain m1 where m1: "parse_cpu_token (cpu_token r) m = Inr m1"
    "\<forall>c<64. bit m1 c \<longleftrightarrow> bit m c \<or> fst r \<le> c \<and> c \<le> snd r"
    using parse_cpu_token_range [of r m] Cons.prems by auto
  have "trim_by is_trimmed (cpu_token r) = cpu_token r"
    by (intro trim_by_id) (simp_all add: cpu_token_shape is_trimmed_digit)
  then have "parse_cpu_tokens (map cpu_token (r # rs)) m = parse_cpu_tokens (map cpu_token rs) m1"
    by (simp add: m1 cpu_token_shape)
  with Cons.IH [of m1] Cons.prems m1(2) show ?case by auto
qed

lemma parse_cpu_range_mask:
  assumes "\<forall>r\<in>set rs. fst r < 2 ^ 31 \<and> snd r < 2 ^ 31"
  shows "\<exists>m. parse_cpu_range_to_mask (join_with (CHR '','') (map cpu_token rs)) = Inr m \<and>
    (\<forall>c<64. bit m c \<longleftrightarrow> (\<exists>r\<in>set rs. fst r \<le> c \<and> c \<le> snd r))"
proof -
  have "getlines (CHR '','') (join_with (CHR '','') (map cpu_token rs)) = map cpu_token rs"
    by (rule getlines_join) (auto simp: cpu_token_shape)
  then show ?thesis
    using parse_cpu_tokens_ranges [OF assms, of 0] by (simp add: parse_cpu_range_to_mask_def)
qed

lemma on_isolated_cpu_bit: "on_isolated_cpu s cpu \<longleftrightarrow> cpu < 64 \<and> bit (isolated_cpu_mask s) (unat cpu)"
proof -
  have "unat cpu < 64" if "cpu < 64" using that by (simp add: word_less_nat_alt)
  then show ?thesis
    by (auto simp: on_isolated_cpu_def and_one_shift)
qed

text \<open>When the root cgroup lists the isolated CPUs as ranges, loading the programs makes the
  scheduler treat a CPU as isolated exactly when it is below 64 and one of the ranges holds it. If
  libbpf opens, loads and attaches the programs, loading succeeds.\<close>

theorem load_programs_isolation:
  assumes "\<forall>r\<in>set rs. fst r < 2 ^ 31 \<and> snd r < 2 ^ 31"
    and "read_file_line base ''cpuset.cpus.isolated'' = join_with (CHR '','') (map cpu_token rs)"
    and "r0 \<in> set rs" and "fst r0 \<le> snd r0" and "fst r0 < 64"
  shows "\<exists>s. load_programs (Some base) True True True ld = (Inr True, ld\<lparr>skel := Some s\<rparr>)
    \<and> (\<forall>cpu. on_isolated_cpu s cpu \<longleftrightarrow>
          cpu < 64 \<and> (\<exists>r\<in>set rs. fst r \<le> unat cpu \<and> unat cpu \<le> snd r))"
proof -
  obtain m where m: "parse_cpu_range_to_mask (join_with (CHR '','') (map cpu_token rs)) = Inr m"
    and bits: "\<forall>c<64. bit m c \<longleftrightarrow> (\<exists>r\<in>set rs. fst r \<le> c \<and> c \<le> snd r)"
    using parse_cpu_range_mask [OF assms(1)] by blast
  have "bit m (fst r0)" using bits assms(3-5) by auto
  then have "m \<noteq> 0" by auto
  moreover have "join_with (CHR '','') (map cpu_token rs) \<noteq> []"
    using assms(3) cpu_token_shape(1) by (cases rs; cases "tl rs") auto
  ultimately have "load_programs (Some base) True True True ld
      = (Inr True, ld\<lparr>skel := Some (bpf_loaded m)\<rparr>)"
    by (simp add: load_programs_def detect_isolated_cpu_mask_def assms(2) m Let_def)
  moreover have "on_isolated_cpu (bpf_loaded m) cpu \<longleftrightarrow>
      cpu < 64 \<and> (\<exists>r\<in>set rs. fst r \<le> unat cpu \<and> unat cpu \<le> snd r)" for cpu
    using bits by (auto simp: on_isolated_cpu_bit bpf_loaded_def word_less_nat_alt)
  ultimately show ?thesis by blast
qed

definition demo_cgroup :: "(string \<times> fsnode) list" where
  "demo_cgroup = [(''cpuset.cpus.isolated'', File ''2-3,5'')]"

lemma demo_cgroup_ranges:
  "read_file_line demo_cgroup ''cpuset.cpus.isolated'' = join_with (CHR '','') (map cpu_token [(2, 3), (5, 5)])"
  by code_simp

theorem load_programs_isolation_witness:
  "\<exists>s. load_programs (Some demo_cgroup) True True True BpfLoader_init
        = (Inr True, BpfLoader_init\<lparr>skel := Some s\<rparr>)
    \<and> on_isolated_cpu s 3 \<and> on_isolated_cpu s 5 \<and> \<not> on_isolated_cpu s 4"
  using load_programs_isolation [OF _ demo_cgroup_ranges, of "(2, 3)" BpfLoader_init] by auto

end
