(* ===== verification/Bpf_Runs.thy ===== *)
theory Bpf_Runs
  imports Bpf_Loader
begin

text \<open>
  Runs of the loaded scheduler. \<open>bpf_step\<close> interleaves the callbacks of the kernel with the map
  accessors of user space in any order and with any arguments; \<open>cpu_step\<close> is the part without table
  updates, in which the kernel stops a time-triggered task on the CPU it was sent to. The invariants
  are about the budgets of the servers and about the count of runnable time-triggered tasks, on which
  their precedence over budgeted tasks rests.
\<close>

section \<open>Steps\<close>

inductive bpf_step :: "bpf_state \<Rightarrow> bpf_state \<Rightarrow> bool" where
  select: "bpf_step s (fst (select_cpu kn pid prev_cpu s))"
| enq: "bpf_step s (fst (enqueue k kn pid flags s))"
| disp: "bpf_step s (fst (dispatch k kn throttled cpu s))"
| run: "bpf_step s (fst (running kn pid s))"
| stop: "bpf_step s (stopping kn pid runnable s)"
| write_meta: "bpf_step s (put_meta pid meta s)"
| erase_meta: "bpf_step s (del_meta pid s)"
| write_cbs: "cs_remaining_us c = cs_budget_us c \<Longrightarrow> bpf_step s (put_cbs key c s)"
| erase_cbs: "bpf_step s (del_cbs key s)"
| write_slot: "bpf_step s (put_tt tkey slot s)"
| erase_slot: "bpf_step s (del_tt tkey s)"
| write_current: "bpf_step s (put_current cpu idx s)"
| write_next: "bpf_step s (put_next cpu t s)"

inductive bpf_reachable :: "u64 \<Rightarrow> bpf_state \<Rightarrow> bool" for iso_mask where
  loaded: "bpf_reachable iso_mask (bpf_loaded iso_mask)"
| step: "bpf_reachable iso_mask s \<Longrightarrow> bpf_step s s' \<Longrightarrow> bpf_reachable iso_mask s'"

section \<open>Budgets\<close>

definition budget_inv :: "bpf_state \<Rightarrow> bool" where
  "budget_inv s \<longleftrightarrow> (\<forall>key c. cbs_map s key = Some c \<longrightarrow> cs_remaining_us c \<le> cs_budget_us c)"

lemma budget_inv_put [preserve]:
  "budget_inv s \<Longrightarrow> cs_remaining_us c \<le> cs_budget_us c \<Longrightarrow> budget_inv (put_cbs key c s)"
  by (simp add: budget_inv_def)

lemma budget_inv_lookup:
  "budget_inv s \<Longrightarrow> cbs_map s key = Some c \<Longrightarrow> cs_remaining_us c \<le> cs_budget_us c"
  by (simp add: budget_inv_def)

lemma budget_inv_cong: "budget_inv s \<Longrightarrow> cbs_map s' = cbs_map s \<Longrightarrow> budget_inv s'"
  by (simp add: budget_inv_def)

lemma replenish_le:
  "cs_remaining_us c \<le> cs_budget_us c \<Longrightarrow>
     cs_remaining_us (cbs_lazy_replenish c t) \<le> cs_budget_us (cbs_lazy_replenish c t)"
  by (simp add: cbs_lazy_replenish_def Let_def)

lemma charge_le: "cs_remaining_us (charge t c) \<le> cs_remaining_us c"
  by (auto simp: charge_def Let_def word_le_nat_alt unat_diff_le)

lemma mark_tt_frame [simp]:
  "cbs_map (mark_tt_runnable pid meta cpu s) = cbs_map s"
  "cbs_map (mark_tt_not_runnable pid meta cpu s) = cbs_map s"
  by (simp_all add: mark_tt_runnable_def mark_tt_not_runnable_def Let_def split: option.split)

lemma budget_inv_promote: "budget_inv s \<Longrightarrow> budget_inv (fst (promote_scan k t n pids s))"
proof (induction k t n pids s rule: promote_scan.induct)
  case (3 k t left pid pids s)
  have "budget_inv (put_cbs key (cbs_lazy_replenish c t) s)" if "cbs_map s key = Some c" for key c
    using "3.prems" that by (intro budget_inv_put replenish_le budget_inv_lookup)
  with 3 show ?case
    by (simp add: Let_def split_beta split: option.split)
qed simp_all

lemma budget_inv_stopping: "budget_inv s \<Longrightarrow> budget_inv (stopping kn pid runnable s)"
proof -
  assume inv: "budget_inv s"
  have cbs: "budget_inv (stopping_cbs kn pid meta s)" for meta
  proof (cases "cbs_map s (cbs_key_from_meta meta)")
    case None
    with inv show ?thesis by (simp add: stopping_cbs_def)
  next
    case (Some c)
    have le: "cs_remaining_us (charge (now kn) c) \<le> cs_budget_us c"
      using charge_le budget_inv_lookup [OF inv Some] by (rule order_trans)
    then show ?thesis
      using inv by (auto simp: stopping_cbs_def Some Let_def budget_inv_def)
  qed
  have "budget_inv (stopping_tt kn pid meta s')" if "budget_inv s'" for meta s'
    by (rule budget_inv_cong [OF that]) (simp add: stopping_tt_def Let_def)
  with inv cbs show ?thesis by (auto simp: stopping_def Let_def split: option.split)
qed

lemma budget_inv_step: "bpf_step s s' \<Longrightarrow> budget_inv s \<Longrightarrow> budget_inv s'"
proof (induction rule: bpf_step.induct)
  case (select s kn pid prev_cpu)
  then show ?case
    by (rule budget_inv_cong) (simp add: select_cpu_def Let_def split: option.split)
next
  case (enq s k kn pid flags)
  then show ?case
    by (auto simp: enqueue_def Let_def split: option.split
        intro: budget_inv_cong intro!: budget_inv_put replenish_le elim: budget_inv_lookup)
next
  case (disp s k kn throttled cpu)
  then show ?case
    by (simp add: dispatch_def promote_throttled_if_replenished_def split_beta budget_inv_promote)
next
  case (stop s kn pid runnable)
  then show ?case by (rule budget_inv_stopping)
next
  case (run s kn pid)
  then show ?case
    by (auto simp: running_def Let_def split: option.split
        intro!: budget_inv_put replenish_le elim: budget_inv_lookup)
qed (auto simp: budget_inv_def put_tt_def del_tt_def del_cbs_def del_meta_def
    put_current_def put_next_def split: if_splits)

text \<open>C20: Whatever the kernel and user space do, in any order, no server ever holds more than its
  budget, provided each entry user space writes starts full.\<close>

theorem server_never_exceeds_budget:
  assumes "bpf_reachable iso_mask s" and "cbs_map s key = Some c"
  shows "cs_remaining_us c \<le> cs_budget_us c"
proof -
  have "budget_inv s"
    using assms(1)
  proof (induction rule: bpf_reachable.induct)
    case loaded
    then show ?case by (simp add: budget_inv_def bpf_loaded_def)
  next
    case (step s s')
    then show ?case using budget_inv_step by blast
  qed
  then show ?thesis using assms(2) by (rule budget_inv_lookup)
qed

lemma demo_bpf_reachable: "bpf_reachable 12 (put_cbs 2 (demo_cbs\<lparr>cs_remaining_us := 2000\<rparr>) (bpf_loaded 12))"
  by (rule bpf_reachable.step [OF bpf_reachable.loaded], rule bpf_step.write_cbs) (simp add: demo_cbs_def)

theorem server_never_exceeds_budget_witness:
  "cs_remaining_us (cbs_lazy_replenish (demo_cbs\<lparr>cs_remaining_us := 2000\<rparr>) 0) \<le> 2000"
  using server_never_exceeds_budget [OF demo_bpf_reachable, of 2 "demo_cbs\<lparr>cs_remaining_us := 2000\<rparr>"]
  by (simp add: cbs_lazy_replenish_def demo_cbs_def)

section \<open>Precedence of time-triggered tasks\<close>

inductive cpu_step :: "bpf_state \<Rightarrow> bpf_state \<Rightarrow> bool" where
  select: "cpu_step s (fst (select_cpu kn pid prev_cpu s))"
| enq: "cpu_step s (fst (enqueue k kn pid flags s))"
| disp: "cpu_step s (fst (dispatch k kn throttled cpu s))"
| run: "cpu_step s (fst (running kn pid s))"
| stop: "(\<And>meta. task_meta_map s pid = Some meta \<Longrightarrow> tm_tt_runnable meta \<noteq> 0 \<Longrightarrow>
           cpu_id kn = tm_assigned_cpu meta) \<Longrightarrow> cpu_step s (stopping kn pid runnable s)"

definition tt_view :: "bpf_state \<Rightarrow> u32 \<rightharpoonup> u8 \<times> u32 \<times> u8" where
  "tt_view s pid =
     map_option (\<lambda>m. (tm_scheduling_type m, tm_assigned_cpu m, tm_tt_runnable m)) (task_meta_map s pid)"

definition tt_tasks_on :: "bpf_state \<Rightarrow> u32 \<Rightarrow> u32 set" where
  "tt_tasks_on s cpu = {pid. \<exists>ty r. tt_view s pid = Some (ty, cpu, r) \<and> r \<noteq> 0}"

definition tt_inv :: "bpf_state \<Rightarrow> bool" where
  "tt_inv s \<longleftrightarrow> finite (dom (tt_view s)) \<and> card (dom (tt_view s)) < 2 ^ 32
     \<and> (\<forall>pid ty cpu r. tt_view s pid = Some (ty, cpu, r) \<and> r \<noteq> 0 \<longrightarrow> ty = SCHED_TYPE_TT \<and> cpu < MAX_CPUS)
     \<and> (\<forall>cpu<MAX_CPUS. unat (tt_runnable_count_map s cpu) = card (tt_tasks_on s cpu)
          \<and> tt_active_until_map s cpu = (if tt_runnable_count_map s cpu = 0 then 0 else TT_ACTIVE_RUNNING))"

lemma tt_inv_cong:
  "tt_inv s \<Longrightarrow> tt_view s' = tt_view s \<Longrightarrow> tt_runnable_count_map s' = tt_runnable_count_map s \<Longrightarrow>
     tt_active_until_map s' = tt_active_until_map s \<Longrightarrow> tt_inv s'"
  by (simp add: tt_inv_def tt_tasks_on_def)

lemma tt_view_put_meta:
  "tt_view (put_meta pid m s) = (tt_view s)(pid \<mapsto> (tm_scheduling_type m, tm_assigned_cpu m, tm_tt_runnable m))"
  by (auto simp: tt_view_def)

lemma tt_view_put_meta_same:
  assumes "task_meta_map s pid = Some m" and "tm_scheduling_type m' = tm_scheduling_type m"
    and "tm_assigned_cpu m' = tm_assigned_cpu m" and "tm_tt_runnable m' = tm_tt_runnable m"
  shows "tt_view (put_meta pid m' s) = tt_view s"
  using assms by (auto simp: tt_view_put_meta) (auto simp: tt_view_def)

lemma tt_view_frame [simp]:
  "tt_view (put_cbs key c s) = tt_view s"
  "tt_view (submit_dmiss r m cpu d t s) = tt_view s"
  "tt_view (submit_budget_exceed r m cpu d s) = tt_view s"
  "tt_view (s\<lparr>tt_runnable_count_map := f\<rparr>) = tt_view s"
  "tt_view (s\<lparr>tt_active_until_map := g\<rparr>) = tt_view s"
  by (simp_all add: tt_view_def fun_eq_iff)

lemma finite_tt_tasks: "tt_inv s \<Longrightarrow> finite (tt_tasks_on s cpu)"
  by (rule finite_subset [of _ "dom (tt_view s)"]) (auto simp: tt_inv_def tt_tasks_on_def)

lemma tt_inv_mark_runnable:
  assumes inv: "tt_inv s" and m: "task_meta_map s pid = Some m"
    and tt: "tm_scheduling_type m = SCHED_TYPE_TT" and cpu: "tm_assigned_cpu m < MAX_CPUS"
  shows "tt_inv (mark_tt_runnable pid m (tm_assigned_cpu m) s)"
proof (cases "tm_tt_runnable m = 0")
  case False
  let ?c = "tm_assigned_cpu m"
  let ?s = "mark_tt_runnable pid m ?c s"
  have "pid \<in> tt_tasks_on s ?c" using m False by (auto simp: tt_tasks_on_def tt_view_def)
  then have "card (tt_tasks_on s ?c) \<noteq> 0" using finite_tt_tasks [OF inv] by auto
  then have "tt_runnable_count_map s ?c \<noteq> 0" using inv cpu by (auto simp: tt_inv_def)
  then have "tt_active_until_map s ?c = TT_ACTIVE_RUNNING" using inv cpu by (auto simp: tt_inv_def)
  then show ?thesis
    using False by (intro tt_inv_cong [OF inv])
      (simp_all add: mark_tt_runnable_def arr_update_def fun_upd_idem)
next
  case True
  let ?c = "tm_assigned_cpu m"
  let ?s = "mark_tt_runnable pid m ?c s"
  have view: "tt_view ?s = (tt_view s)(pid \<mapsto> (SCHED_TYPE_TT, ?c, 1))"
    and cnt: "tt_runnable_count_map ?s = (tt_runnable_count_map s)(?c := tt_runnable_count_map s ?c + 1)"
    and unt: "tt_active_until_map ?s = (tt_active_until_map s)(?c := TT_ACTIVE_RUNNING)"
    using True cpu tt by (simp_all add: mark_tt_runnable_def arr_update_def tt_view_put_meta)
  have old: "tt_view s pid = Some (SCHED_TYPE_TT, ?c, 0)" using m tt True by (simp add: tt_view_def)
  then have dom: "dom (tt_view ?s) = dom (tt_view s)" by (auto simp: view)
  have tasks: "tt_tasks_on ?s cpu' = (if cpu' = ?c then insert pid (tt_tasks_on s ?c) else tt_tasks_on s cpu')" for cpu'
    using old by (auto simp: tt_tasks_on_def view)
  have new: "pid \<notin> tt_tasks_on s ?c" using old by (auto simp: tt_tasks_on_def)
  have "insert pid (tt_tasks_on s ?c) \<subseteq> dom (tt_view s)" using old by (auto simp: tt_tasks_on_def)
  then have "card (insert pid (tt_tasks_on s ?c)) < 2 ^ 32"
    using inv card_mono [of "dom (tt_view s)"] unfolding tt_inv_def by (meson le_less_trans)
  then have "unat (tt_runnable_count_map s ?c) + 1 < 2 ^ 32"
    using inv cpu new finite_tt_tasks [OF inv] by (auto simp: tt_inv_def)
  then have plus: "unat (tt_runnable_count_map s ?c + 1) = unat (tt_runnable_count_map s ?c) + 1"
    by (subst unat_add_small) simp_all
  then have "tt_runnable_count_map s ?c + 1 \<noteq> 0" by (metis add_is_0 one_neq_zero unat_0)
  then show ?thesis
    unfolding tt_inv_def dom tasks cnt unt
    using inv cpu plus new finite_tt_tasks [OF inv] by (auto simp: tt_inv_def view)
qed

lemma tt_inv_mark_not_runnable:
  assumes inv: "tt_inv s" and m: "task_meta_map s pid = Some m"
    and cpu: "tm_tt_runnable m \<noteq> 0 \<Longrightarrow> c = tm_assigned_cpu m"
  shows "tt_inv (mark_tt_not_runnable pid m c s)"
proof (cases "tm_tt_runnable m = 0")
  case True
  then show ?thesis using inv by (simp add: mark_tt_not_runnable_def)
next
  case False
  let ?s = "mark_tt_not_runnable pid m c s"
  have old: "tt_view s pid = Some (tm_scheduling_type m, c, tm_tt_runnable m)"
    using m cpu [OF False] by (simp add: tt_view_def)
  then have c: "c < MAX_CPUS" using inv False unfolding tt_inv_def by blast
  have mem: "pid \<in> tt_tasks_on s c" using old False by (auto simp: tt_tasks_on_def)
  have pos: "unat (tt_runnable_count_map s c) = card (tt_tasks_on s c)" "0 < card (tt_tasks_on s c)"
    using inv c mem finite_tt_tasks [OF inv] by (auto simp: tt_inv_def card_gt_0_iff)
  then have gt: "0 < tt_runnable_count_map s c" unfolding word_less_nat_alt by simp
  then have minus: "unat (tt_runnable_count_map s c - 1) = unat (tt_runnable_count_map s c) - 1"
    by (intro unat_minus_one) auto
  have view: "tt_view ?s = (tt_view s)(pid \<mapsto> (tm_scheduling_type m, c, 0))"
    and cnt: "tt_runnable_count_map ?s = (tt_runnable_count_map s)(c := tt_runnable_count_map s c - 1)"
    and unt: "tt_active_until_map ?s
      = (if tt_runnable_count_map s c = 1 then (tt_active_until_map s)(c := 0) else tt_active_until_map s)"
    using False gt c cpu [OF False]
    by (simp_all add: mark_tt_not_runnable_def arr_update_def arr_lookup_def tt_view_put_meta Let_def)
  have dom: "dom (tt_view ?s) = dom (tt_view s)" using old by (auto simp: view)
  have tasks: "tt_tasks_on ?s cpu' = (if cpu' = c then tt_tasks_on s c - {pid} else tt_tasks_on s cpu')" for cpu'
    using old by (auto simp: tt_tasks_on_def view)
  have rest: "card (tt_tasks_on s c - {pid}) = unat (tt_runnable_count_map s c) - 1"
    using pos(1) mem finite_tt_tasks [OF inv] by simp
  have last: "tt_runnable_count_map s c - 1 = 0 \<longleftrightarrow> tt_runnable_count_map s c = 1" by auto
  have "\<forall>cpu<MAX_CPUS. unat (tt_runnable_count_map ?s cpu) = card (tt_tasks_on ?s cpu)"
    using inv minus rest by (simp add: tt_inv_def tasks cnt)
  moreover have "\<forall>cpu<MAX_CPUS. tt_active_until_map ?s cpu
      = (if tt_runnable_count_map ?s cpu = 0 then 0 else TT_ACTIVE_RUNNING)"
    using inv gt last by (simp add: tt_inv_def cnt unt word_gt_0)
  moreover have "\<forall>p ty cpu r. tt_view ?s p = Some (ty, cpu, r) \<and> r \<noteq> 0 \<longrightarrow>
      ty = SCHED_TYPE_TT \<and> cpu < MAX_CPUS"
    using inv by (auto simp: tt_inv_def view)
  ultimately show ?thesis
    using inv unfolding tt_inv_def dom by blast
qed

lemma tt_promote_frame:
  "tt_view (fst (promote_scan k t n pids s)) = tt_view s"
  "tt_runnable_count_map (fst (promote_scan k t n pids s)) = tt_runnable_count_map s"
  "tt_active_until_map (fst (promote_scan k t n pids s)) = tt_active_until_map s"
  by (induction k t n pids s rule: promote_scan.induct) (simp_all add: Let_def split_beta split: option.split)

lemma tt_stopping_cbs_frame:
  assumes "task_meta_map s pid = Some m"
  shows "tt_view (stopping_cbs kn pid m s) = tt_view s"
    and "tt_runnable_count_map (stopping_cbs kn pid m s) = tt_runnable_count_map s"
    and "tt_active_until_map (stopping_cbs kn pid m s) = tt_active_until_map s"
  using assms
  by (auto simp: stopping_cbs_def Let_def tt_view_put_meta_same split: option.split)

lemma tt_inv_stopping_tt:
  assumes "tt_inv s" and "task_meta_map s pid = Some m"
    and "tm_tt_runnable m \<noteq> 0 \<Longrightarrow> cpu_id kn = tm_assigned_cpu m"
  shows "tt_inv (stopping_tt kn pid m s)"
  by (rule tt_inv_cong [OF tt_inv_mark_not_runnable [OF assms]]) (simp_all add: stopping_tt_def Let_def)

lemma tt_inv_step: "cpu_step s s' \<Longrightarrow> tt_inv s \<Longrightarrow> tt_inv s'"
proof (induction rule: cpu_step.induct)
  case (select s kn pid prev_cpu)
  then show ?case
    by (elim tt_inv_cong)
      (auto simp: select_cpu_def Let_def tt_view_put_meta_same split: option.split)
next
  case (enq s k kn pid flags)
  have "tm_assigned_cpu m < MAX_CPUS" if "on_isolated_cpu s (tm_assigned_cpu m)" for m
    using that by (auto simp: on_isolated_cpu_def MAX_CPUS_def word_less_nat_alt)
  with enq show ?case
    by (auto simp: enqueue_def Let_def split: option.split intro: tt_inv_mark_runnable tt_inv_cong)
next
  case (disp s k kn throttled cpu)
  then show ?case
    by (elim tt_inv_cong)
      (simp_all add: dispatch_def promote_throttled_if_replenished_def split_beta tt_promote_frame)
next
  case (run s kn pid)
  then show ?case
    by (elim tt_inv_cong) (simp_all add: running_def Let_def split: option.split)
next
  case (stop s pid kn runnable)
  show ?case
  proof (cases "task_meta_map s pid")
    case None
    with stop show ?thesis by (simp add: stopping_def)
  next
    case (Some m)
    have "tt_inv (stopping_cbs kn pid m s)"
      using tt_stopping_cbs_frame [OF Some] by (rule tt_inv_cong [OF stop.prems])
    moreover have "tt_inv (stopping_tt kn pid m s)"
      using stop.prems Some stop.hyps [OF Some] by (rule tt_inv_stopping_tt)
    ultimately show ?thesis
      using stop.prems by (simp add: stopping_def Some Let_def sched_types)
  qed
qed

lemma tt_inv_steps: "cpu_step\<^sup>*\<^sup>* s s' \<Longrightarrow> tt_inv s \<Longrightarrow> tt_inv s'"
  by (induction rule: rtranclp_induct) (auto intro: tt_inv_step)

lemma tt_active_iff:
  assumes "tt_inv s" and "cpu < MAX_CPUS" and "t < TT_ACTIVE_RUNNING"
  shows "tt_active_on_cpu s cpu t \<longleftrightarrow> tt_tasks_on s cpu \<noteq> {}"
proof -
  have u: "unat (tt_runnable_count_map s cpu) = card (tt_tasks_on s cpu)"
    "tt_active_until_map s cpu = (if tt_runnable_count_map s cpu = 0 then 0 else TT_ACTIVE_RUNNING)"
    using assms(1,2) by (auto simp: tt_inv_def)
  have "tt_active_on_cpu s cpu t \<longleftrightarrow> tt_runnable_count_map s cpu \<noteq> 0"
    using assms(2,3) u(2) by (auto simp: tt_active_on_cpu_def arr_lookup_def word_gt_0)
  also have "\<dots> \<longleftrightarrow> card (tt_tasks_on s cpu) \<noteq> 0"
    unfolding u(1) [symmetric] by (simp add: unat_eq_zero)
  finally show ?thesis using finite_tt_tasks [OF assms(1)] by simp
qed

text \<open>The maps right after a table is applied to a scheduler in which no time-triggered task runs.\<close>

definition fresh :: "bpf_state \<Rightarrow> bool" where
  "fresh s \<longleftrightarrow> finite (dom (task_meta_map s)) \<and> card (dom (task_meta_map s)) < 2 ^ 32
     \<and> (\<forall>pid m. task_meta_map s pid = Some m \<longrightarrow> tm_tt_runnable m = 0)
     \<and> (\<forall>cpu. tt_runnable_count_map s cpu = 0 \<and> tt_active_until_map s cpu = 0)"

lemma fresh_inv: "fresh s \<Longrightarrow> tt_inv s"
proof -
  assume f: "fresh s"
  have "dom (tt_view s) = dom (task_meta_map s)" by (auto simp: tt_view_def)
  moreover have "tt_tasks_on s cpu = {}" for cpu
    using f by (auto simp: fresh_def tt_tasks_on_def tt_view_def)
  ultimately show ?thesis
    using f by (auto simp: fresh_def tt_inv_def tt_view_def)
qed

text \<open>C19: Precedence of time-triggered tasks. Start from freshly written maps and let the kernel call
  the scheduler in any order, stopping each time-triggered task on the CPU it was sent to. Then
  \<open>dispatch\<close> on a CPU does nothing as long as one of the CPU's time-triggered tasks is runnable, and
  otherwise it serves the budget queue. So budgeted work neither delays a runnable time-triggered
  task nor is held back without one.\<close>

theorem dispatch_tt_precedence:
  assumes "fresh s0" and "cpu_step\<^sup>*\<^sup>* s0 s" and "cpu < MAX_CPUS" and "now kn < TT_ACTIVE_RUNNING"
  shows "if \<exists>pid m. task_meta_map s pid = Some m \<and> tm_tt_runnable m \<noteq> 0 \<and> tm_assigned_cpu m = cpu
    then dispatch k kn throttled cpu s = (s, [])
    else last (snd (dispatch k kn throttled cpu s)) = scx_bpf_consume DSQ_CBS"
proof -
  have inv: "tt_inv s" using tt_inv_steps [OF assms(2) fresh_inv [OF assms(1)]] .
  have "tt_tasks_on s cpu \<noteq> {} \<longleftrightarrow>
      (\<exists>pid m. task_meta_map s pid = Some m \<and> tm_tt_runnable m \<noteq> 0 \<and> tm_assigned_cpu m = cpu)"
    by (auto simp: tt_tasks_on_def tt_view_def)
  then show ?thesis
    using tt_active_iff [OF inv assms(3,4)]
    by (cases "tt_tasks_on s cpu = {}") (simp_all add: dispatch_def split_beta del: ex_simps)
qed

definition demo_tt_meta :: TaskMeta where
  "demo_tt_meta = demo_meta\<lparr>tm_scheduling_type := 0\<rparr>"

definition demo_tt_state :: bpf_state where
  "demo_tt_state = put_meta 100 demo_tt_meta (bpf_loaded 12)"

lemma demo_fresh: "fresh demo_tt_state"
  by (auto simp: fresh_def demo_tt_state_def bpf_loaded_def demo_tt_meta_def demo_meta_def split: if_splits)

lemma demo_tt_enqueued:
  "task_meta_map (fst (enqueue demo_scx (demo_kernel 9) 100 0 demo_tt_state)) 100
     = Some (demo_tt_meta\<lparr>tm_tt_runnable := 1\<rparr>)"
  by (simp add: enqueue_def demo_tt_state_def demo_tt_meta_def demo_meta_def sched_types on_isolated_cpu_def
      bpf_loaded_def mark_tt_runnable_def Let_def)

theorem dispatch_tt_precedence_witness:
  "snd (dispatch demo_scx (demo_kernel 9) [] 2 (fst (enqueue demo_scx (demo_kernel 9) 100 0 demo_tt_state))) = []"
proof -
  let ?s = "fst (enqueue demo_scx (demo_kernel 9) 100 0 demo_tt_state)"
  have "cpu_step\<^sup>*\<^sup>* demo_tt_state ?s" by (intro r_into_rtranclp cpu_step.enq)
  moreover have "(2 :: u32) < MAX_CPUS" "now (demo_kernel 9) < TT_ACTIVE_RUNNING"
    by (simp_all add: MAX_CPUS_def demo_kernel_def TT_ACTIVE_RUNNING_def)
  moreover have "\<exists>pid m. task_meta_map ?s pid = Some m \<and> tm_tt_runnable m \<noteq> 0 \<and> tm_assigned_cpu m = 2"
    using demo_tt_enqueued by (intro exI conjI) (assumption, simp_all add: demo_tt_meta_def demo_meta_def)
  ultimately show ?thesis
    using dispatch_tt_precedence [OF demo_fresh, of ?s 2 "demo_kernel 9" demo_scx "[]"] by simp
qed

text \<open>
  Deleting or rewriting the entry of a runnable time-triggered task, as an eviction or a table update
  does, keeps the CPU's count. The count then has no task that would lower it again: \<open>dispatch\<close> on
  that CPU does nothing although no time-triggered task is runnable there, and the end of the job does
  not help.
\<close>

theorem evicted_task_blocks_cpu:
  assumes "tt_inv s" and "cpu < MAX_CPUS" and "tt_tasks_on s cpu = {pid}"
  shows "tt_tasks_on (del_meta pid s) cpu = {}"
    and "dispatch k kn throttled cpu (stopping kn' pid runnable (del_meta pid s)) = (del_meta pid s, [])"
proof -
  show "tt_tasks_on (del_meta pid s) cpu = {}"
    using assms(3) by (auto simp: tt_tasks_on_def tt_view_def del_meta_def)
  have "stopping kn' pid runnable (del_meta pid s) = del_meta pid s"
    by (simp add: stopping_def del_meta_def)
  moreover have "unat (tt_runnable_count_map s cpu) = 1" using assms by (simp add: tt_inv_def)
  then have "0 < tt_runnable_count_map s cpu" unfolding word_less_nat_alt by simp
  ultimately show "dispatch k kn throttled cpu (stopping kn' pid runnable (del_meta pid s)) = (del_meta pid s, [])"
    using assms(2) by (simp add: dispatch_def tt_active_on_cpu_def arr_lookup_def del_meta_def)
qed

end
