(* ===== verification/Std_Containers.thy ===== *)
theory Std_Containers
  imports Prelude
begin

text \<open>
  The containers and the sorting routine of the C++ standard library that the sources
  use. A \<open>std::map\<close> is an association list in ascending key order, so that a range
  loop over the map is a recursion over the list; \<open>std::set\<close> is the list of its
  elements in ascending order. \<open>std::sort\<close> is an insertion sort, which is what
  libstdc++ runs on short ranges; the standard leaves the order of equivalent elements
  open, and no lemma of this development uses more than the contract of the locale
  \<open>sorting\<close>: the result is an ordered permutation of the input.
\<close>

section \<open>Associative containers\<close>

type_synonym ('k, 'v) std_map = "('k \<times> 'v) list"

fun map_put :: "'k::linorder \<Rightarrow> 'v \<Rightarrow> ('k, 'v) std_map \<Rightarrow> ('k, 'v) std_map" where
  "map_put k v [] = [(k, v)]"
| "map_put k v (e # m) =
     (if k < fst e then (k, v) # e # m
      else if fst e < k then e # map_put k v m
      else (k, v) # m)"

definition map_find :: "'k \<Rightarrow> ('k, 'v) std_map \<Rightarrow> 'v option" where
  "map_find k m = map_of m k"

definition map_erase :: "'k \<Rightarrow> ('k, 'v) std_map \<Rightarrow> ('k, 'v) std_map" where
  "map_erase k m = filter (\<lambda>e. fst e \<noteq> k) m"

text \<open>\<open>m[k] = f(m[k])\<close>: \<open>operator[]\<close> inserts the default value first.\<close>

definition map_at :: "'v \<Rightarrow> 'k \<Rightarrow> ('k, 'v) std_map \<Rightarrow> 'v" where
  "map_at d k m = (case map_find k m of None \<Rightarrow> d | Some v \<Rightarrow> v)"

definition map_modify ::
  "'v \<Rightarrow> ('v \<Rightarrow> 'v) \<Rightarrow> 'k::linorder \<Rightarrow> ('k, 'v) std_map \<Rightarrow> ('k, 'v) std_map" where
  "map_modify d f k m = map_put k (f (map_at d k m)) m"

definition map_ok :: "('k::linorder, 'v) std_map \<Rightarrow> bool" where
  "map_ok m \<longleftrightarrow> sorted_wrt (<) (map fst m)"

definition set_insert :: "'a::linorder \<Rightarrow> 'a list \<Rightarrow> 'a list" where
  "set_insert x xs = (if x \<in> set xs then xs else takeWhile (\<lambda>y. y < x) xs @ x # dropWhile (\<lambda>y. y < x) xs)"

definition set_insert_all :: "'a::linorder list \<Rightarrow> 'a list \<Rightarrow> 'a list" where
  "set_insert_all ys xs = foldl (\<lambda>acc y. set_insert y acc) xs ys"

section \<open>Sorting\<close>

fun sort_insert :: "('a \<Rightarrow> 'a \<Rightarrow> bool) \<Rightarrow> 'a \<Rightarrow> 'a list \<Rightarrow> 'a list" where
  "sort_insert lt x [] = [x]"
| "sort_insert lt x (y # ys) = (if lt x y then x # y # ys else y # sort_insert lt x ys)"

definition std_sort :: "('a \<Rightarrow> 'a \<Rightarrow> bool) \<Rightarrow> 'a list \<Rightarrow> 'a list" where
  "std_sort lt xs = foldl (\<lambda>acc x. sort_insert lt x acc) [] xs"

section \<open>The contract of an associative container\<close>

locale associative =
  fixes put :: "'k \<Rightarrow> 'v \<Rightarrow> 'm \<Rightarrow> 'm"
    and erase :: "'k \<Rightarrow> 'm \<Rightarrow> 'm"
    and find :: "'k \<Rightarrow> 'm \<Rightarrow> 'v option"
    and ok :: "'m \<Rightarrow> bool"
  assumes find_put: "ok m \<Longrightarrow> find j (put k v m) = (if j = k then Some v else find j m)"
    and find_erase: "ok m \<Longrightarrow> find j (erase k m) = (if j = k then None else find j m)"
    and ok_put: "ok m \<Longrightarrow> ok (put k v m)"
    and ok_erase: "ok m \<Longrightarrow> ok (erase k m)"
begin

lemma ok_put_all: "ok m \<Longrightarrow> ok (foldl (\<lambda>m e. put (f e) (g e) m) m es)"
  by (induction es arbitrary: m) (auto simp: ok_put)

lemma ok_erase_all: "ok m \<Longrightarrow> ok (foldl (\<lambda>m k. erase k m) m ks)"
  by (induction ks arbitrary: m) (auto simp: ok_erase)

lemma find_erase_all:
  "ok m \<Longrightarrow> find j (foldl (\<lambda>m k. erase k m) m ks) = (if j \<in> set ks then None else find j m)"
  by (induction ks arbitrary: m) (auto simp: ok_erase find_erase)

lemma find_put_all_other:
  "ok m \<Longrightarrow> j \<notin> f ` set es \<Longrightarrow> find j (foldl (\<lambda>m e. put (f e) (g e) m) m es) = find j m"
  by (induction es arbitrary: m) (auto simp: ok_put find_put)

lemma find_put_all_some:
  assumes "ok m" and "find j (foldl (\<lambda>m e. put (f e) (g e) m) m es) = Some v"
  shows "find j m = Some v \<or> (\<exists>e\<in>set es. f e = j \<and> g e = v)"
  using assms
proof (induction es arbitrary: m)
  case (Cons e es)
  from Cons.IH [of "put (f e) (g e) m"] Cons.prems show ?case
    by (auto simp: ok_put find_put split: if_splits)
qed simp

lemma find_put_all_mem:
  assumes "ok m" and "j \<in> f ` set es"
  shows "\<exists>e\<in>set es. f e = j \<and> find j (foldl (\<lambda>m e. put (f e) (g e) m) m es) = Some (g e)"
  using assms
proof (induction es arbitrary: m)
  case (Cons e es)
  show ?case
  proof (cases "j \<in> f ` set es")
    case True
    with Cons.IH [of "put (f e) (g e) m"] Cons.prems(1) show ?thesis
      by (fastforce simp: ok_put)
  next
    case False
    with Cons.prems show ?thesis
      by (auto simp: ok_put find_put find_put_all_other)
  qed
qed simp

end

lemma fst_set_map_put: "fst ` set (map_put k v m) = insert k (fst ` set m)"
  by (induction m) auto

lemma map_ok_Nil [simp]: "map_ok []"
  by (simp add: map_ok_def)

lemma map_ok_Cons: "map_ok (e # m) \<longleftrightarrow> (\<forall>x\<in>set m. fst e < fst x) \<and> map_ok m"
  by (simp add: map_ok_def)

lemma map_find_Nil [simp]: "map_find k [] = None"
  by (simp add: map_find_def)

lemma map_ok_put [preserve]: "map_ok m \<Longrightarrow> map_ok (map_put k v m)"
proof (induction m)
  case (Cons e m)
  have "fst e < fst x" if "x \<in> set (map_put k v m)" "fst e < k" for x
  proof -
    from that(1) have "fst x \<in> insert k (fst ` set m)"
      by (metis fst_set_map_put image_eqI)
    with that(2) Cons.prems show ?thesis by (auto simp: map_ok_Cons)
  qed
  with Cons show ?case
    by (auto simp: map_ok_Cons)
qed (simp add: map_ok_def)

lemma map_ok_erase [preserve]: "map_ok m \<Longrightarrow> map_ok (map_erase k m)"
  by (auto simp: map_ok_def map_erase_def sorted_wrt_map intro: sorted_wrt_filter)

lemma map_find_put: "map_ok m \<Longrightarrow> map_find j (map_put k v m) = (if j = k then Some v else map_find j m)"
proof (induction m)
  case (Cons e m)
  then have "map_ok m" by (simp add: map_ok_Cons)
  with Cons show ?case
    by (cases e) (auto simp: map_find_def)
qed (simp add: map_find_def)

lemma map_find_erase: "map_find j (map_erase k m) = (if j = k then None else map_find j m)"
  by (induction m) (auto simp: map_find_def map_erase_def)

interpretation smap: associative map_put map_erase map_find map_ok
  by unfold_locales (simp_all add: map_find_put map_find_erase map_ok_put map_ok_erase)

lemma map_find_mem: "map_find k m = Some v \<Longrightarrow> (k, v) \<in> set m"
  by (simp add: map_find_def map_of_SomeD)

lemma map_find_iff: "map_ok m \<Longrightarrow> map_find k m = Some v \<longleftrightarrow> (k, v) \<in> set m"
proof (rule iffI)
  assume ok: "map_ok m" and mem: "(k, v) \<in> set m"
  have "distinct (map fst m)"
    using ok by (simp add: map_ok_def strict_sorted_iff)
  with mem show "map_find k m = Some v" by (simp add: map_find_def)
qed (rule map_find_mem)

lemma map_find_None: "map_find k m = None \<longleftrightarrow> k \<notin> fst ` set m"
  by (simp add: map_find_def map_of_eq_None_iff)

lemma map_find_modify:
  "map_ok m \<Longrightarrow> map_find j (map_modify d f k m) = (if j = k then Some (f (map_at d k m)) else map_find j m)"
  by (simp add: map_modify_def map_find_put)

lemma map_ok_modify [preserve]: "map_ok m \<Longrightarrow> map_ok (map_modify d f k m)"
  by (simp add: map_modify_def map_ok_put)

lemma set_map_put: "map_ok m \<Longrightarrow> set (map_put k v m) = insert (k, v) {e \<in> set m. fst e \<noteq> k}"
  by (induction m) (auto simp: map_ok_Cons)

lemma set_set_insert [simp]: "set (set_insert x xs) = insert x (set xs)"
proof -
  have "set (takeWhile P xs) \<union> set (dropWhile P xs) = set xs" for P
    by (metis set_append takeWhile_dropWhile_id)
  then show ?thesis by (auto simp: set_insert_def)
qed

lemma set_set_insert_all [simp]: "set (set_insert_all ys xs) = set ys \<union> set xs"
  unfolding set_insert_all_def by (induction ys arbitrary: xs) auto

section \<open>The contract of sorting\<close>

locale strict_weak_order =
  fixes lt :: "'a \<Rightarrow> 'a \<Rightarrow> bool"
  assumes asym: "lt x y \<Longrightarrow> \<not> lt y x"
    and cotrans: "lt x z \<Longrightarrow> lt x y \<or> lt y z"
begin

lemma incomp_trans: "\<not> lt y x \<Longrightarrow> \<not> lt z y \<Longrightarrow> \<not> lt z x"
  using cotrans [of z x y] by blast

lemma trans: "lt x y \<Longrightarrow> lt y z \<Longrightarrow> lt x z"
  using asym [of y z] cotrans [of x y z] by blast

end

locale sorting = strict_weak_order lt for lt :: "'a \<Rightarrow> 'a \<Rightarrow> bool" +
  fixes srt :: "'a list \<Rightarrow> 'a list"
  assumes mset_srt: "mset (srt xs) = mset xs"
    and ordered_srt: "sorted_wrt (\<lambda>x y. \<not> lt y x) (srt xs)"
begin

lemma set_srt [simp]: "set (srt xs) = set xs"
  using mset_srt by (rule mset_eq_setD)

lemma length_srt [simp]: "length (srt xs) = length xs"
  using mset_srt by (rule mset_eq_length)

lemma filter_srt: "mset (filter P (srt xs)) = mset (filter P xs)"
  by (simp add: mset_srt)

lemma pairwise_srt:
  assumes "\<And>x y. R x y \<Longrightarrow> R y x"
  shows "sorted_wrt R (srt xs) \<longleftrightarrow> sorted_wrt R xs"
proof
  assume "sorted_wrt R (srt xs)"
  with mset_srt assms show "sorted_wrt R xs" by (rule sorted_wrt_mset_pairwise)
next
  assume "sorted_wrt R xs"
  with mset_srt [symmetric] assms show "sorted_wrt R (srt xs)"
    by (rule sorted_wrt_mset_pairwise)
qed

lemma sum_srt: "sum_list (map f (srt xs)) = (sum_list (map f xs) :: 'b::comm_monoid_add)"
  using mset_srt by (rule sum_list_map_mset)

end

lemma mset_sort_insert [simp]: "mset (sort_insert lt x xs) = add_mset x (mset xs)"
  by (induction xs) auto

lemma set_sort_insert [simp]: "set (sort_insert lt x xs) = insert x (set xs)"
  by (metis mset_sort_insert set_mset_add_mset_insert set_mset_mset)

lemma mset_std_sort: "mset (std_sort lt xs) = mset xs"
proof -
  have "mset (foldl (\<lambda>acc x. sort_insert lt x acc) ys xs) = mset ys + mset xs" for ys
    by (induction xs arbitrary: ys) auto
  then show ?thesis by (simp add: std_sort_def)
qed

context strict_weak_order
begin

lemma ordered_sort_insert:
  "sorted_wrt (\<lambda>x y. \<not> lt y x) xs \<Longrightarrow> sorted_wrt (\<lambda>x y. \<not> lt y x) (sort_insert lt x xs)"
proof (induction xs)
  case (Cons y ys)
  have "\<not> lt z x" if "lt x y" "\<not> lt z y" for z
    using that trans [of z x y] by blast
  with Cons show ?case
    by (auto dest: asym)
qed simp

lemma ordered_std_sort: "sorted_wrt (\<lambda>x y. \<not> lt y x) (std_sort lt xs)"
proof -
  have "sorted_wrt (\<lambda>x y. \<not> lt y x) (foldl (\<lambda>acc x. sort_insert lt x acc) ys xs)"
    if "sorted_wrt (\<lambda>x y. \<not> lt y x) ys" for ys
    using that by (induction xs arbitrary: ys) (auto intro: ordered_sort_insert)
  then show ?thesis by (simp add: std_sort_def)
qed

end

sublocale strict_weak_order \<subseteq> std: sorting lt "std_sort lt"
  by unfold_locales (simp_all add: mset_std_sort ordered_std_sort)

end
