(* ===== verification/Timer_Master.thy ===== *)
theory Timer_Master
  imports Bpf_Loader Std_Containers
begin

text \<open>
  The timer of a node, \<open>timpani-n/src/timer_master.cpp\<close>, and the library the tasks wait with,
  \<open>sample-apps/src/libttsched.c\<close>. They share the object \<open>/timpani_ttsched\<close>. The threads of the timer
  are values of the state; one round of a thread's loop is one function, whose clock readings are
  parameters. Every operation on the table and on the shared object runs under \<open>schedule_mutex_\<close>.
  Printing is left out, the statistics that are printed are not.
\<close>

section \<open>The shared object\<close>

definition TIMPANI_TTSCHED_MAGIC :: u32 where "TIMPANI_TTSCHED_MAGIC = 0x54494D50"
definition TIMPANI_MAX_TASKS :: nat where "TIMPANI_MAX_TASKS = 32"

record timpani_task_slot =
  slot_name :: string
  counter :: u32

text \<open>
  The last component is the kernel's: the threads asleep on the futexes of the object, first come first,
  each with the slot on whose counter it sleeps.
\<close>

record timpani_ttsched_shm =
  magic :: u32
  n_tasks :: u32
  generation :: u32
  tasks :: "timpani_task_slot list"
  futex_queue :: "(nat \<times> nat) list"

definition shm_ok :: "timpani_ttsched_shm \<Rightarrow> bool" where
  "shm_ok m \<longleftrightarrow> length (tasks m) = TIMPANI_MAX_TASKS"

section \<open>Futexes\<close>

text \<open>
  \<open>FUTEX_WAKE\<close> on the counter of slot \<open>i\<close> ends the sleep of the first \<open>n\<close> threads that sleep there.
  \<open>FUTEX_WAIT\<close> puts the thread to sleep if the counter still has the expected value; otherwise it fails
  with \<open>EAGAIN\<close>, here \<open>None\<close>. A signal takes a sleeping thread out of the queue.
\<close>

definition INT_MAX :: nat where "INT_MAX = 2147483647"

fun futex_wake :: "nat \<Rightarrow> nat \<Rightarrow> (nat \<times> nat) list \<Rightarrow> (nat \<times> nat) list" where
  "futex_wake i n [] = []"
| "futex_wake i n (w # q) =
     (if n = 0 then w # q
      else if snd w = i then futex_wake i (n - 1) q
      else w # futex_wake i n q)"

definition futex_wait :: "nat \<Rightarrow> nat \<Rightarrow> u32 \<Rightarrow> timpani_ttsched_shm \<Rightarrow> timpani_ttsched_shm option" where
  "futex_wait tid i expected m =
     (if counter (tasks m ! i) = expected then Some (m\<lparr>futex_queue := futex_queue m @ [(tid, i)]\<rparr>) else None)"

definition futex_interrupt :: "nat \<Rightarrow> timpani_ttsched_shm \<Rightarrow> timpani_ttsched_shm" where
  "futex_interrupt tid m = m\<lparr>futex_queue := filter (\<lambda>w. fst w \<noteq> tid) (futex_queue m)\<rparr>"

definition asleep :: "nat \<Rightarrow> timpani_ttsched_shm \<Rightarrow> bool" where
  "asleep tid m \<longleftrightarrow> tid \<in> set (map fst (futex_queue m))"

section \<open>The waiting side\<close>

text \<open>
  The thread-local state. \<open>g_shm\<close> is the mapped object with the contents the task reads. A call of the
  library gets the name and the number of the calling thread, the object a (re)opening maps and the
  object at the moment of the system call, which the timer may have changed since the task read it. It
  either returns or leaves the thread asleep on a slot, with the counter value it waits to change.
\<close>

record ttsched =
  g_shm :: "timpani_ttsched_shm option"
  g_task_idx :: int
  g_shm_generation :: u32

datatype wait_result = Returned int | Asleep nat u32

definition ttsched_start :: ttsched where
  "ttsched_start = \<lparr>g_shm = None, g_task_idx = -1, g_shm_generation = 0\<rparr>"

fun find_name :: "timpani_task_slot list \<Rightarrow> string \<Rightarrow> nat \<Rightarrow> nat option" where
  "find_name [] nm i = None"
| "find_name (t # ts) nm i = (if strncmp_eq (slot_name t) nm 15 then Some i else find_name ts nm (Suc i))"

definition find_task_slot :: "timpani_ttsched_shm \<Rightarrow> string \<Rightarrow> int" where
  "find_task_slot shm nm =
     (if magic shm \<noteq> TIMPANI_TTSCHED_MAGIC then -1
      else case find_name (take (min (unat (n_tasks shm)) TIMPANI_MAX_TASKS) (tasks shm)) nm 0 of
             Some i \<Rightarrow> int i | None \<Rightarrow> -1)"

definition ttsched_init :: "string \<Rightarrow> timpani_ttsched_shm option \<Rightarrow> ttsched \<Rightarrow> ttsched" where
  "ttsched_init my_name opened t =
     (case opened of
        None \<Rightarrow> t\<lparr>g_shm := None\<rparr>
      | Some shm \<Rightarrow> t\<lparr>g_shm := Some shm, g_task_idx := find_task_slot shm my_name,
                      g_shm_generation := generation shm\<rparr>)"

text \<open>After the futex call: the magic tells whether the timer has gone.\<close>

definition ttsched_return :: "timpani_ttsched_shm \<Rightarrow> ttsched \<Rightarrow> wait_result \<times> ttsched \<times> timpani_ttsched_shm" where
  "ttsched_return m t =
     (if magic m \<noteq> TIMPANI_TTSCHED_MAGIC then (Returned (-1), t\<lparr>g_shm := None, g_task_idx := -1\<rparr>, m)
      else (Returned 0, t\<lparr>g_shm := Some m\<rparr>, m))"

text \<open>One entry into \<open>FUTEX_WAIT\<close>: the thread sleeps, or the call fails and the loop ends.\<close>

definition ttsched_futex ::
  "nat \<Rightarrow> nat \<Rightarrow> u32 \<Rightarrow> timpani_ttsched_shm \<Rightarrow> ttsched \<Rightarrow> wait_result \<times> ttsched \<times> timpani_ttsched_shm" where
  "ttsched_futex tid i current m t =
     (case futex_wait tid i current m of
        Some m' \<Rightarrow> (Asleep i current, t, m')
      | None \<Rightarrow> ttsched_return m t)"

text \<open>
  The loop around \<open>FUTEX_WAIT\<close> for a thread that has fallen asleep. Once it is out of the queue the call
  returns 0; a signal makes the call fail with \<open>EINTR\<close> and the loop enters it again; else it sleeps on.
\<close>

definition ttsched_resume ::
  "nat \<Rightarrow> bool \<Rightarrow> nat \<Rightarrow> u32 \<Rightarrow> timpani_ttsched_shm \<Rightarrow> ttsched \<Rightarrow>
     wait_result \<times> ttsched \<times> timpani_ttsched_shm" where
  "ttsched_resume tid signalled i current m t =
     (if \<not> asleep tid m then ttsched_return m t
      else if signalled then ttsched_futex tid i current (futex_interrupt tid m) t
      else (Asleep i current, t, m))"

definition ttsched_block ::
  "string \<Rightarrow> nat \<Rightarrow> timpani_ttsched_shm \<Rightarrow> timpani_ttsched_shm \<Rightarrow> ttsched \<Rightarrow>
     wait_result \<times> ttsched \<times> timpani_ttsched_shm" where
  "ttsched_block my_name tid shm m t0 =
     (let t1 = (if generation shm \<noteq> g_shm_generation t0
                then t0\<lparr>g_shm_generation := generation shm, g_task_idx := -1\<rparr> else t0);
          t = (if g_task_idx t1 < 0 then t1\<lparr>g_task_idx := find_task_slot shm my_name\<rparr> else t1)
      in if g_task_idx t < 0 then (Returned (-1), t, m)
         else let i = nat (g_task_idx t); current = counter (tasks shm ! i)
              in ttsched_futex tid i current m t)"

definition ttsched_wait_next_period ::
  "string \<Rightarrow> nat \<Rightarrow> timpani_ttsched_shm option \<Rightarrow> timpani_ttsched_shm \<Rightarrow> ttsched \<Rightarrow>
     wait_result \<times> ttsched \<times> timpani_ttsched_shm" where
  "ttsched_wait_next_period my_name tid opened m t0 =
     (let t = (case g_shm t0 of None \<Rightarrow> ttsched_init my_name opened t0 | Some _ \<Rightarrow> t0)
      in case g_shm t of
           None \<Rightarrow> (Returned (-1), t, m)
         | Some shm \<Rightarrow>
             if magic shm \<noteq> TIMPANI_TTSCHED_MAGIC
             then let t' = ttsched_init my_name opened (t\<lparr>g_shm := None, g_task_idx := -1\<rparr>)
                  in (case g_shm t' of
                        None \<Rightarrow> (Returned (-1), t', m)
                      | Some shm' \<Rightarrow>
                          if magic shm' \<noteq> TIMPANI_TTSCHED_MAGIC then (Returned (-1), t', m)
                          else ttsched_block my_name tid shm' m t')
             else ttsched_block my_name tid shm m t)"

section \<open>The timer\<close>

record SlotEntry =
  se_cpu :: u32
  se_slot_idx :: u32
  se_offset_ns :: u64
  se_duration_ns :: u64
  se_task_id_hash :: u64
  se_workload_id_hash :: u64
  se_task_name :: string

datatype timer_thread = Idle_thread | Cpu_thread u32 "SlotEntry list" u64 u64

record TimerMaster =
  running_flag :: bool
  table_pending :: bool
  tmr_hyperperiod_ns :: u64
  tmr_epoch_ns :: u64
  ttsched_shm :: "timpani_ttsched_shm option"
  task_hash_to_shm_idx :: "(u64, nat) std_map"
  slot_table :: "SlotEntry list"
  cpu_threads :: "timer_thread list"

text \<open>The parameter is the mapped object, or \<open>None\<close> if it cannot be opened or mapped.\<close>

definition TimerMaster_init :: "timpani_ttsched_shm option \<Rightarrow> TimerMaster" where
  "TimerMaster_init mapped =
     \<lparr>running_flag = False, table_pending = False, tmr_hyperperiod_ns = 0, tmr_epoch_ns = 0,
      ttsched_shm = map_option (\<lambda>m. m\<lparr>magic := 0, n_tasks := 0, generation := 1\<rparr>) mapped,
      task_hash_to_shm_idx = [], slot_table = [], cpu_threads = []\<rparr>"

definition timer_stop :: "TimerMaster \<Rightarrow> TimerMaster" where
  "timer_stop tm = tm\<lparr>running_flag := False, cpu_threads := []\<rparr>"

text \<open>
  The destructor: the threads are joined, the magic is cleared and the waiting tasks are woken; the
  object is then unmapped and unlinked. The value is what the tasks still have mapped.
\<close>

definition TimerMaster_destroy :: "TimerMaster \<Rightarrow> timpani_ttsched_shm option" where
  "TimerMaster_destroy tm =
     (case ttsched_shm (timer_stop tm) of
        None \<Rightarrow> None
      | Some m \<Rightarrow> Some (m\<lparr>magic := 0,
          futex_queue := foldl (\<lambda>q i. futex_wake i INT_MAX q) (futex_queue m)
            [0..<min (unat (n_tasks m)) TIMPANI_MAX_TASKS]\<rparr>))"

definition by_offset :: "SlotEntry \<Rightarrow> SlotEntry \<Rightarrow> bool" where
  "by_offset a b \<longleftrightarrow> se_offset_ns a < se_offset_ns b"

text \<open>\<open>strncpy(name, task_name, 15)\<close> followed by \<open>name[15] = 0\<close>.\<close>

definition shm_name :: "string \<Rightarrow> string" where
  "shm_name task_name = strncpy task_name 15 @ [CHR 0x00]"

record shm_alloc =
  al_map :: "(u64, nat) std_map"
  al_used :: "bool list"
  al_tasks :: "timpani_task_slot list"

definition keep_slot :: "(u64, nat) std_map \<Rightarrow> shm_alloc \<Rightarrow> SlotEntry \<Rightarrow> shm_alloc" where
  "keep_slot prev_mapping a e =
     (if map_find (se_task_id_hash e) (al_map a) \<noteq> None then a
      else case map_find (se_task_id_hash e) prev_mapping of
             None \<Rightarrow> a
           | Some idx \<Rightarrow>
               if idx < TIMPANI_MAX_TASKS \<and> \<not> al_used a ! idx
               then a\<lparr>al_map := map_put (se_task_id_hash e) idx (al_map a),
                      al_used := (al_used a)[idx := True],
                      al_tasks := (al_tasks a)[idx := (al_tasks a ! idx)\<lparr>slot_name := shm_name (se_task_name e)\<rparr>]\<rparr>
               else a)"

text \<open>The loop \<open>while (idx < TIMPANI_MAX_TASKS && used_slots[idx]) idx++\<close>, at the end of the list.\<close>

fun first_unused :: "bool list \<Rightarrow> nat" where
  "first_unused [] = 0"
| "first_unused (b # bs) = (if b then Suc (first_unused bs) else 0)"

fun new_slots :: "SlotEntry list \<Rightarrow> shm_alloc \<Rightarrow> shm_alloc" where
  "new_slots [] a = a"
| "new_slots (e # es) a =
     (if map_find (se_task_id_hash e) (al_map a) \<noteq> None then new_slots es a
      else let idx = first_unused (al_used a)
           in if TIMPANI_MAX_TASKS \<le> idx then a
              else new_slots es
                     (a\<lparr>al_map := map_put (se_task_id_hash e) idx (al_map a),
                        al_used := (al_used a)[idx := True],
                        al_tasks := (al_tasks a)[idx :=
                          \<lparr>slot_name = shm_name (se_task_name e), counter = 0\<rparr>]\<rparr>))"

definition total_slots :: "(u64, nat) std_map \<Rightarrow> nat" where
  "total_slots m = foldl (\<lambda>n kv. if n < snd kv + 1 then snd kv + 1 else n) 0 m"

definition publish :: "SlotEntry list \<Rightarrow> (u64, nat) std_map \<Rightarrow> timpani_ttsched_shm \<Rightarrow>
    timpani_ttsched_shm \<times> (u64, nat) std_map" where
  "publish slots prev_mapping m =
     (let bumped = map (\<lambda>t. t\<lparr>counter := counter t + 1\<rparr>) (tasks m);
          woken = foldl (\<lambda>q i. futex_wake i INT_MAX q) (futex_queue m) [0..<TIMPANI_MAX_TASKS];
          kept = foldl (keep_slot prev_mapping)
                   \<lparr>al_map = [], al_used = replicate TIMPANI_MAX_TASKS False, al_tasks = bumped\<rparr> slots;
          a = new_slots slots kept
      in (\<lparr>magic = TIMPANI_TTSCHED_MAGIC, n_tasks = of_nat (total_slots (al_map a)),
           generation = generation m + 1, tasks = al_tasks a, futex_queue = woken\<rparr>, al_map a))"

definition timer_start :: "TimerMaster \<Rightarrow> TimerMaster" where
  "timer_start tm0 =
     (let tm = (timer_stop tm0)\<lparr>running_flag := True, table_pending := False\<rparr>;
          per_cpu_slots = foldl (\<lambda>m e. map_modify [] (\<lambda>es. es @ [e]) (se_cpu e) m) [] (slot_table tm)
      in if per_cpu_slots = [] then tm\<lparr>cpu_threads := [Idle_thread]\<rparr>
         else tm\<lparr>cpu_threads :=
                map (\<lambda>(cpu, es). Cpu_thread cpu es (tmr_hyperperiod_ns tm) (tmr_epoch_ns tm)) per_cpu_slots\<rparr>)"

definition set_schedule_table :: "SlotEntry list \<Rightarrow> u64 \<Rightarrow> u64 \<Rightarrow> TimerMaster \<Rightarrow> TimerMaster" where
  "set_schedule_table slots hyperperiod_us epoch tm0 =
     (let tm1 = tm0\<lparr>slot_table := std_sort by_offset slots, tmr_hyperperiod_ns := hyperperiod_us * 1000,
                    tmr_epoch_ns := epoch\<rparr>;
          tm2 = (case ttsched_shm tm1 of
                   None \<Rightarrow> tm1
                 | Some m \<Rightarrow>
                     let (m', mapping) = publish (slot_table tm1) (task_hash_to_shm_idx tm1) m
                     in tm1\<lparr>ttsched_shm := Some m', task_hash_to_shm_idx := mapping\<rparr>);
          tm3 = tm2\<lparr>table_pending := True\<rparr>
      in if running_flag tm3 then timer_start tm3 else tm3)"

definition remove_workload :: "u64 \<Rightarrow> TimerMaster \<Rightarrow> TimerMaster" where
  "remove_workload workload_hash tm =
     (let rest = filter (\<lambda>e. se_workload_id_hash e \<noteq> workload_hash) (slot_table tm)
      in if length rest \<noteq> length (slot_table tm)
         then let tm1 = tm\<lparr>slot_table := rest, table_pending := True\<rparr>
              in if running_flag tm1 then timer_start tm1 else tm1
         else tm)"

definition compute_next_tt_start_for_cpu :: "SlotEntry list \<Rightarrow> nat \<Rightarrow> u64 \<Rightarrow> u64 \<Rightarrow> u64" where
  "compute_next_tt_start_for_cpu cpu_slots current_slot_idx current_hyperperiod_start hp =
     (if cpu_slots = [] \<or> hp = 0 then 0
      else let next_idx = (current_slot_idx + 1) mod length cpu_slots;
               next_start = (if next_idx \<le> current_slot_idx then current_hyperperiod_start + hp
                             else current_hyperperiod_start)
           in next_start + se_offset_ns (cpu_slots ! next_idx))"

definition wake_task :: "u64 \<Rightarrow> TimerMaster \<Rightarrow> TimerMaster" where
  "wake_task task_hash tm =
     (case ttsched_shm tm of
        None \<Rightarrow> tm
      | Some m \<Rightarrow>
          (case map_find task_hash (task_hash_to_shm_idx tm) of
             None \<Rightarrow> tm
           | Some idx \<Rightarrow>
               tm\<lparr>ttsched_shm := Some (m\<lparr>tasks := (tasks m)[idx :=
                    (tasks m ! idx)\<lparr>counter := counter (tasks m ! idx) + 1\<rparr>],
                  futex_queue := futex_wake idx 1 (futex_queue m)\<rparr>)\<rparr>))"

section \<open>The loop of a thread\<close>

definition hyperperiod_start :: "u64 \<Rightarrow> u64 \<Rightarrow> u64 \<Rightarrow> u64" where
  "hyperperiod_start epoch hp now_ns =
     (if epoch = 0 then now_ns
      else if epoch < now_ns then epoch + ((now_ns - epoch) div hp + 1) * hp
      else epoch)"

record jitter_stats =
  js_min :: int
  js_max :: int
  js_avg :: int
  js_p99 :: int
  js_p999 :: int
  js_buckets :: "int list"
  js_outliers :: int

text \<open>C++ division truncates towards zero.\<close>

definition trunc_div :: "int \<Rightarrow> int \<Rightarrow> int" where
  "trunc_div a b = sgn a * sgn b * (\<bar>a\<bar> div \<bar>b\<bar>)"

definition bucket_of :: "int \<Rightarrow> int" where
  "bucket_of j = sint (word_of_int (\<bar>j\<bar> div 10000) :: 32 word)"

definition measure_jitter :: "int list \<Rightarrow> jitter_stats" where
  "measure_jitter jitters =
     (let sorted_js = std_sort (<) jitters
      in \<lparr>js_min = foldl min (hd jitters) jitters, js_max = foldl max (hd jitters) jitters,
          js_avg = trunc_div (foldl (+) 0 jitters) 1000, js_p99 = sorted_js ! 990, js_p999 = sorted_js ! 999,
          js_buckets = map (\<lambda>i. int (length (filter (\<lambda>j. bucket_of j = int i) sorted_js))) [0..<10],
          js_outliers = int (length (filter (\<lambda>j. \<not> (0 \<le> bucket_of j \<and> bucket_of j < 10)) sorted_js))\<rparr>)"

record cpu_loop =
  cl_slots :: "SlotEntry list"
  cl_hyperperiod_ns :: u64
  cl_next :: nat
  cl_start :: u64
  cl_jitters :: "int list"
  cl_reports :: "jitter_stats list"

definition enter_loop :: "SlotEntry list \<Rightarrow> u64 \<Rightarrow> u64 \<Rightarrow> u64 \<Rightarrow> cpu_loop" where
  "enter_loop cpu_slots hp epoch now_ns =
     \<lparr>cl_slots = std_sort by_offset cpu_slots, cl_hyperperiod_ns = hp, cl_next = 0,
      cl_start = hyperperiod_start epoch hp now_ns, cl_jitters = [], cl_reports = []\<rparr>"

definition target_ns :: "cpu_loop \<Rightarrow> u64" where
  "target_ns l = cl_start l + se_offset_ns (cl_slots l ! cl_next l)"

definition record_jitter :: "int \<Rightarrow> cpu_loop \<Rightarrow> cpu_loop" where
  "record_jitter jitter l =
     (let js = cl_jitters l @ [jitter]
      in if length js = 1000 then l\<lparr>cl_jitters := [], cl_reports := cl_reports l @ [measure_jitter js]\<rparr>
         else l\<lparr>cl_jitters := js\<rparr>)"

definition advance :: "cpu_loop \<Rightarrow> cpu_loop" where
  "advance l =
     (if length (cl_slots l) \<le> cl_next l + 1
      then l\<lparr>cl_next := 0, cl_start := cl_start l + cl_hyperperiod_ns l\<rparr>
      else l\<lparr>cl_next := cl_next l + 1\<rparr>)"

text \<open>
  One round after the sleep: \<open>actual\<close> is the wakeup time on the realtime clock and \<open>mono_ns\<close> the reading
  of the monotonic clock.
\<close>

definition fire_slot ::
  "int \<Rightarrow> u64 \<Rightarrow> cpu_loop \<Rightarrow> TimerMaster \<Rightarrow> BpfLoader \<Rightarrow> cpu_loop \<times> TimerMaster \<times> BpfLoader" where
  "fire_slot actual mono_ns l tm ld =
     (let slot = cl_slots l ! cl_next l;
          target = target_ns l;
          ld1 = snd (update_current_slot (se_cpu slot) (se_slot_idx slot) ld);
          next_tt = compute_next_tt_start_for_cpu (cl_slots l) (cl_next l) (cl_start l) (cl_hyperperiod_ns l);
          ld2 = (if target < next_tt
                 then snd (update_next_tt_start (se_cpu slot) (mono_ns + (next_tt - target)) ld1) else ld1);
          l1 = record_jitter (actual - sint target) l
      in (advance l1, wake_task (se_task_id_hash slot) tm, ld2))"

text \<open>
  The inner loop over the clock readings of its rounds, while the timer runs and no table is pending.
\<close>

fun cpu_thread_loop ::
  "(int \<times> u64) list \<Rightarrow> cpu_loop \<Rightarrow> TimerMaster \<Rightarrow> BpfLoader \<Rightarrow> cpu_loop \<times> TimerMaster \<times> BpfLoader" where
  "cpu_thread_loop [] l tm ld = (l, tm, ld)"
| "cpu_thread_loop ((actual, mono_ns) # clocks) l tm ld =
     (if running_flag tm \<and> \<not> table_pending tm
      then let (l', tm', ld') = fire_slot actual mono_ns l tm ld in cpu_thread_loop clocks l' tm' ld'
      else (l, tm, ld))"

text \<open>The sleep of an idle thread: the absolute time one millisecond later, as seconds and nanoseconds.\<close>

definition next_poll :: "int \<times> int \<Rightarrow> int \<times> int" where
  "next_poll ts =
     (let nsec = snd ts + 1000000
      in if 1000000000 \<le> nsec then (fst ts + 1, nsec - 1000000000) else (fst ts, nsec))"

end
