(* ===== verification/Timer_Slots.thy ===== *)
theory Timer_Slots
  imports Timer_Master
begin

text \<open>
  The protocol between the timer and the waiting tasks. The timer gives each task of a table a slot of
  the shared object and writes the task's name there; a task finds its slot by name. The invariant
  \<open>slots_ok\<close> says that the first slot with a task's name is the slot the timer wakes, also when slots of
  removed tasks still hold old names.
\<close>

section \<open>Names\<close>

text \<open>What \<open>strncmp(\<dots>, 15)\<close> looks at.\<close>

definition name15 :: "string \<Rightarrow> string" where
  "name15 s = take 15 (c_str s)"

lemma strncmp_eq_name15: "strncmp_eq a b 15 \<longleftrightarrow> name15 a = name15 b"
  by (simp add: strncmp_eq_def name15_def)

lemma c_str_take: "c_str (take n (c_str s)) = take n (c_str s)"
  unfolding c_str_def using set_takeWhileD by (fastforce simp: takeWhile_eq_all_conv dest: in_set_takeD)

lemma name15_shm_name [simp]: "name15 (shm_name s) = name15 s"
proof -
  have "shm_name s = c_str (take 15 (c_str s)) @ replicate (Suc (15 - length (c_str s))) (CHR 0x00)"
    by (simp add: shm_name_def strncpy_def c_str_take replicate_append_same)
  then have "c_str (shm_name s) = take 15 (c_str s)"
    by (metis c_str_append_zero c_str_take)
  then show ?thesis by (simp add: name15_def)
qed

section \<open>Slots and names\<close>

definition slots_ok ::
  "u64 set \<Rightarrow> (u64 \<Rightarrow> string) \<Rightarrow> (u64, nat) std_map \<Rightarrow> timpani_task_slot list \<Rightarrow> bool" where
  "slots_ok H nm mp ts \<longleftrightarrow> map_ok mp \<and> length ts = TIMPANI_MAX_TASKS \<and>
     (\<forall>h i. map_find h mp = Some i \<longrightarrow> h \<in> H \<and> i < TIMPANI_MAX_TASKS \<and>
        name15 (slot_name (ts ! i)) = name15 (nm h) \<and>
        (\<forall>j<i. name15 (slot_name (ts ! j)) \<noteq> name15 (nm h)))"

definition names_ok :: "u64 set \<Rightarrow> (u64 \<Rightarrow> string) \<Rightarrow> SlotEntry list \<Rightarrow> bool" where
  "names_ok H nm es \<longleftrightarrow> inj_on (\<lambda>h. name15 (nm h)) H \<and>
     (\<forall>e\<in>set es. se_task_id_hash e \<in> H \<and> se_task_name e = nm (se_task_id_hash e))"

lemma slots_okD:
  assumes "slots_ok H nm mp ts" and "map_find h mp = Some i"
  shows "h \<in> H" "i < TIMPANI_MAX_TASKS" "name15 (slot_name (ts ! i)) = name15 (nm h)"
    "j < i \<Longrightarrow> name15 (slot_name (ts ! j)) \<noteq> name15 (nm h)"
  using assms by (auto simp: slots_ok_def)

lemma slots_ok_cong:
  assumes "slots_ok H nm mp ts" and "map (name15 \<circ> slot_name) ts' = map (name15 \<circ> slot_name) ts"
  shows "slots_ok H nm mp ts'"
proof -
  have len: "length ts' = length ts" using assms(2) by (rule map_eq_imp_length_eq)
  then have "name15 (slot_name (ts' ! j)) = name15 (slot_name (ts ! j))" if "j < length ts" for j
    using arg_cong [OF assms(2), of "\<lambda>l. l ! j"] that by simp
  then show ?thesis
    using assms(1) len unfolding slots_ok_def by (metis less_trans)
qed

lemma find_name_first:
  assumes "i < length ts" and "name15 (slot_name (ts ! i)) = name15 me"
    and "\<And>j. j < i \<Longrightarrow> name15 (slot_name (ts ! j)) \<noteq> name15 me"
  shows "find_name ts me k = Some (k + i)"
  using assms
proof (induction ts arbitrary: i k)
  case Nil
  then show ?case by simp
next
  case (Cons t ts)
  show ?case
  proof (cases i)
    case 0
    with Cons.prems(2) show ?thesis by (simp add: strncmp_eq_name15)
  next
    case (Suc n)
    have "\<not> strncmp_eq (slot_name t) me 15"
      using Cons.prems(3) [of 0] Suc by (simp add: strncmp_eq_name15)
    moreover have "find_name ts me (Suc k) = Some (Suc k + n)"
      by (rule Cons.IH) (use Cons.prems(1,2) Cons.prems(3) [of "Suc _"] Suc in auto)
    ultimately show ?thesis by (simp add: Suc)
  qed
qed

lemma find_task_slot_owner:
  assumes "slots_ok H nm mp (tasks m)" and "map_find h mp = Some i"
    and "magic m = TIMPANI_TTSCHED_MAGIC" and "i < unat (n_tasks m)" and "name15 me = name15 (nm h)"
  shows "find_task_slot m me = int i"
proof -
  let ?ts = "take (min (unat (n_tasks m)) TIMPANI_MAX_TASKS) (tasks m)"
  have "length (tasks m) = TIMPANI_MAX_TASKS" using assms(1) by (simp add: slots_ok_def)
  then have "find_name ?ts me 0 = Some (0 + i)"
    using slots_okD [OF assms(1,2)] assms(4,5) by (intro find_name_first) auto
  then show ?thesis using assms(3) by (simp add: find_task_slot_def)
qed

section \<open>Keeping slots\<close>

definition used_ok :: "(u64, nat) std_map \<Rightarrow> bool list \<Rightarrow> bool" where
  "used_ok mp used \<longleftrightarrow> length used = TIMPANI_MAX_TASKS \<and>
     (\<forall>i<TIMPANI_MAX_TASKS. used ! i \<longleftrightarrow> (\<exists>h. map_find h mp = Some i))"

definition kept_ok ::
  "u64 set \<Rightarrow> (u64 \<Rightarrow> string) \<Rightarrow> (u64, nat) std_map \<Rightarrow> timpani_task_slot list \<Rightarrow> shm_alloc \<Rightarrow> bool" where
  "kept_ok H nm prev ts a \<longleftrightarrow> map_ok (al_map a) \<and> used_ok (al_map a) (al_used a)
     \<and> map (name15 \<circ> slot_name) (al_tasks a) = map (name15 \<circ> slot_name) ts
     \<and> (\<forall>h i. map_find h (al_map a) = Some i \<longrightarrow> map_find h prev = Some i)"

lemma same_slot:
  assumes "slots_ok H nm mp ts" and "inj_on (\<lambda>h. name15 (nm h)) H"
    and "map_find h mp = Some i" and "map_find h' mp = Some i"
  shows "h = h'"
  using slots_okD(1,3) [OF assms(1,3)] slots_okD(1,3) [OF assms(1,4)] assms(2) by (auto dest: inj_onD)

lemma used_ok_put:
  assumes "used_ok mp used" and "map_ok mp" and "map_find h mp = None" and "i < TIMPANI_MAX_TASKS"
  shows "used_ok (map_put h i mp) (used[i := True])"
proof -
  have "used[i := True] ! j \<longleftrightarrow> (\<exists>h'. map_find h' (map_put h i mp) = Some j)" if "j < TIMPANI_MAX_TASKS" for j
  proof (cases "j = i")
    case True
    then show ?thesis using assms by (auto simp: used_ok_def map_find_put)
  next
    case False
    have "h' \<noteq> h" if "map_find h' mp = Some j" for h' using that assms(3) by auto
    then have "(\<exists>h'. map_find h' (map_put h i mp) = Some j) \<longleftrightarrow> (\<exists>h'. map_find h' mp = Some j)"
      using False assms(2) by (auto simp: map_find_put)
    with False that assms(1) show ?thesis by (simp add: used_ok_def)
  qed
  then show ?thesis using assms(1) by (simp add: used_ok_def)
qed

lemma kept_ok_step:
  assumes prev: "slots_ok H nm prev ts" and names: "names_ok H nm [e]" and a: "kept_ok H nm prev ts a"
  shows "kept_ok H nm prev ts (keep_slot prev a e)"
    and "map_find h (al_map a) = Some i \<Longrightarrow> map_find h (al_map (keep_slot prev a e)) = Some i"
    and "map_find (se_task_id_hash e) prev = Some i \<Longrightarrow>
      map_find (se_task_id_hash e) (al_map (keep_slot prev a e)) = Some i"
proof -
  let ?h = "se_task_id_hash e"
  have inj: "inj_on (\<lambda>h. name15 (nm h)) H" using names by (simp add: names_ok_def)
  have "kept_ok H nm prev ts (keep_slot prev a e) \<and>
      (map_find h (al_map a) = Some i \<longrightarrow> map_find h (al_map (keep_slot prev a e)) = Some i) \<and>
      (map_find ?h prev = Some i' \<longrightarrow> map_find ?h (al_map (keep_slot prev a e)) = Some i')" for i'
  proof (cases "map_find ?h (al_map a) = None \<and> map_find ?h prev \<noteq> None")
    case False
    then have "keep_slot prev a e = a" by (auto simp: keep_slot_def split: option.split)
    with False a show ?thesis by (auto simp: kept_ok_def)
  next
    case True
    then obtain k where k: "map_find ?h prev = Some k" by auto
    have lt: "k < TIMPANI_MAX_TASKS" using slots_okD(2) [OF prev k] .
    have "\<not> al_used a ! k"
    proof
      assume "al_used a ! k"
      then obtain h' where "map_find h' (al_map a) = Some k"
        using a lt by (auto simp: kept_ok_def used_ok_def)
      moreover from this have "map_find h' prev = Some k" using a by (simp add: kept_ok_def)
      then have "h' = ?h" using same_slot [OF prev inj _ k] by blast
      ultimately show False using True by simp
    qed
    then have keep: "keep_slot prev a e = a\<lparr>al_map := map_put ?h k (al_map a), al_used := (al_used a)[k := True],
        al_tasks := (al_tasks a)[k := (al_tasks a ! k)\<lparr>slot_name := shm_name (se_task_name e)\<rparr>]\<rparr>"
      using True k lt by (simp add: keep_slot_def)
    have len: "length (al_tasks a) = length ts" using a by (auto simp: kept_ok_def dest: map_eq_imp_length_eq)
    have "name15 (se_task_name e) = (map (name15 \<circ> slot_name) ts) ! k"
      using slots_okD(3) [OF prev k] names lt prev by (simp add: names_ok_def slots_ok_def)
    then have "map (name15 \<circ> slot_name) (al_tasks (keep_slot prev a e)) = map (name15 \<circ> slot_name) ts"
      using a by (simp add: keep kept_ok_def map_update)
    then show ?thesis
      using a True k lt used_ok_put [of "al_map a" "al_used a" ?h k]
      by (auto simp: keep kept_ok_def map_find_put map_ok_put split: if_splits)
  qed
  then show "kept_ok H nm prev ts (keep_slot prev a e)"
    "map_find h (al_map a) = Some i \<Longrightarrow> map_find h (al_map (keep_slot prev a e)) = Some i"
    "map_find ?h prev = Some i \<Longrightarrow> map_find ?h (al_map (keep_slot prev a e)) = Some i"
    by blast+
qed

lemma kept_ok_all:
  assumes prev: "slots_ok H nm prev ts" and "names_ok H nm es" and "kept_ok H nm prev ts a"
  shows "kept_ok H nm prev ts (foldl (keep_slot prev) a es) \<and>
    (\<forall>h i. map_find h (al_map a) = Some i \<longrightarrow> map_find h (al_map (foldl (keep_slot prev) a es)) = Some i) \<and>
    (\<forall>e\<in>set es. \<forall>i. map_find (se_task_id_hash e) prev = Some i \<longrightarrow>
       map_find (se_task_id_hash e) (al_map (foldl (keep_slot prev) a es)) = Some i)"
  using assms(2,3)
proof (induction es arbitrary: a)
  case Nil
  then show ?case by simp
next
  case (Cons e es)
  have names: "names_ok H nm [e]" "names_ok H nm es" using Cons.prems(1) by (auto simp: names_ok_def)
  note step = kept_ok_step [OF prev names(1) Cons.prems(2)]
  show ?case
    using Cons.IH [OF names(2) step(1)] step(2,3) by fastforce
qed

section \<open>New slots\<close>

lemma first_unused_le: "first_unused bs \<le> length bs"
  by (induction bs) auto

lemma first_unused_nth: "first_unused bs < length bs \<Longrightarrow> \<not> bs ! first_unused bs"
  by (induction bs) auto

lemma first_unused_before: "j < first_unused bs \<Longrightarrow> bs ! j"
  by (induction bs arbitrary: j) (auto simp: nth_Cons split: if_splits nat.splits)

definition alloc_ok :: "u64 set \<Rightarrow> (u64 \<Rightarrow> string) \<Rightarrow> shm_alloc \<Rightarrow> bool" where
  "alloc_ok H nm a \<longleftrightarrow> slots_ok H nm (al_map a) (al_tasks a) \<and> used_ok (al_map a) (al_used a)"

definition give_slot :: "SlotEntry \<Rightarrow> nat \<Rightarrow> shm_alloc \<Rightarrow> shm_alloc" where
  "give_slot e i a = a\<lparr>al_map := map_put (se_task_id_hash e) i (al_map a), al_used := (al_used a)[i := True],
     al_tasks := (al_tasks a)[i := \<lparr>slot_name = shm_name (se_task_name e), counter = 0\<rparr>]\<rparr>"

lemma alloc_ok_give:
  assumes a: "alloc_ok H nm a" and names: "names_ok H nm [e]"
    and new: "map_find (se_task_id_hash e) (al_map a) = None"
    and i: "i = first_unused (al_used a)" "i < TIMPANI_MAX_TASKS"
  shows "alloc_ok H nm (give_slot e i a)"
proof -
  let ?h = "se_task_id_hash e"
  let ?ts = "al_tasks (give_slot e i a)"
  have ok: "slots_ok H nm (al_map a) (al_tasks a)" and us: "used_ok (al_map a) (al_used a)"
    using a by (auto simp: alloc_ok_def)
  have mo: "map_ok (al_map a)" and len: "length (al_tasks a) = TIMPANI_MAX_TASKS" using ok by (auto simp: slots_ok_def)
  have h: "?h \<in> H" "se_task_name e = nm ?h" "inj_on (\<lambda>h. name15 (nm h)) H"
    using names by (auto simp: names_ok_def)
  have free: "map_find h (al_map a) \<noteq> Some i" for h
    using us i first_unused_nth [of "al_used a"] by (auto simp: used_ok_def)
  have differ: "name15 (nm h) \<noteq> name15 (nm ?h)" if "map_find h (al_map a) = Some k" for h k
  proof
    assume "name15 (nm h) = name15 (nm ?h)"
    then have "h = ?h" using inj_onD [OF h(3)] slots_okD(1) [OF ok that] h(1) by blast
    with new that show False by simp
  qed
  have before: "name15 (slot_name (al_tasks a ! j)) \<noteq> name15 (nm ?h)" if j: "j < i" for j
  proof -
    have "al_used a ! j" using j i(1) first_unused_before by blast
    then obtain h' where "map_find h' (al_map a) = Some j"
      using us j i(2) by (auto simp: used_ok_def)
    then show ?thesis using slots_okD(3) [OF ok] differ by fastforce
  qed
  have main: "h \<in> H \<and> k < TIMPANI_MAX_TASKS \<and> name15 (slot_name (?ts ! k)) = name15 (nm h) \<and>
      (\<forall>j<k. name15 (slot_name (?ts ! j)) \<noteq> name15 (nm h))"
    if k: "map_find h (map_put ?h i (al_map a)) = Some k" for h k
  proof (cases "h = ?h")
    case True
    then have "k = i" using k mo by (simp add: map_find_put)
    then show ?thesis using True h i(2) len before by (simp add: give_slot_def)
  next
    case False
    then have old: "map_find h (al_map a) = Some k" using k mo by (simp add: map_find_put)
    then have "k \<noteq> i" using free by blast
    then show ?thesis
      using slots_okD [OF ok old] len i(2) h(2) differ [OF old]
      by (simp add: give_slot_def nth_list_update)
  qed
  have "length ?ts = TIMPANI_MAX_TASKS" using len by (simp add: give_slot_def)
  with main map_ok_put [OF mo] have "slots_ok H nm (map_put ?h i (al_map a)) ?ts"
    unfolding slots_ok_def by blast
  moreover have "used_ok (map_put ?h i (al_map a)) ((al_used a)[i := True])"
    using us mo new i(2) by (rule used_ok_put)
  ultimately show ?thesis by (simp add: alloc_ok_def give_slot_def)
qed

text \<open>If every slot is used, the map has as many tasks as there are slots.\<close>

lemma full_map_card:
  assumes us: "used_ok mp used" and "map_ok mp" and "TIMPANI_MAX_TASKS \<le> first_unused used"
    and "\<And>h i. map_find h mp = Some i \<Longrightarrow> h \<in> S" and "finite S" and "h0 \<in> S" and "map_find h0 mp = None"
  shows "TIMPANI_MAX_TASKS < card S"
proof -
  let ?f = "\<lambda>i. SOME h. map_find h mp = Some i"
  have f: "map_find (?f i) mp = Some i" if "i < TIMPANI_MAX_TASKS" for i
  proof -
    have "used ! i" using first_unused_before [of i used] that assms(3) by simp
    then have "\<exists>h. map_find h mp = Some i" using us that by (simp add: used_ok_def)
    then show ?thesis by (rule someI_ex)
  qed
  have "inj_on ?f {..<TIMPANI_MAX_TASKS}"
    by (rule inj_onI) (metis f lessThan_iff option.inject)
  then have "card (?f ` {..<TIMPANI_MAX_TASKS}) = TIMPANI_MAX_TASKS" by (simp add: card_image)
  moreover have "?f ` {..<TIMPANI_MAX_TASKS} \<subset> S"
    using f assms(4,6,7) by fastforce
  ultimately show ?thesis using psubset_card_mono [OF assms(5)] by metis
qed

lemma new_slots_correct:
  assumes "alloc_ok H nm a" and "names_ok H nm es" and "finite S"
    and "card S \<le> TIMPANI_MAX_TASKS" and "se_task_id_hash ` set es \<subseteq> S"
    and "\<And>h i. map_find h (al_map a) = Some i \<Longrightarrow> h \<in> S"
  shows "alloc_ok H nm (new_slots es a) \<and>
    (\<forall>h i. map_find h (al_map a) = Some i \<longrightarrow> map_find h (al_map (new_slots es a)) = Some i) \<and>
    (\<forall>e\<in>set es. map_find (se_task_id_hash e) (al_map (new_slots es a)) \<noteq> None)"
  using assms(1,2,5,6)
proof (induction es arbitrary: a)
  case Nil
  then show ?case by simp
next
  case (Cons e es)
  let ?i = "first_unused (al_used a)"
  have names: "names_ok H nm [e]" "names_ok H nm es" using Cons.prems(2) by (auto simp: names_ok_def)
  have mo: "map_ok (al_map a)" and us: "used_ok (al_map a) (al_used a)"
    using Cons.prems(1) by (auto simp: alloc_ok_def slots_ok_def)
  show ?case
  proof (cases "map_find (se_task_id_hash e) (al_map a)")
    case (Some k)
    then show ?thesis using Cons.IH [OF Cons.prems(1) names(2)] Cons.prems(3,4) by auto
  next
    case None
    have lt: "?i < TIMPANI_MAX_TASKS"
      using full_map_card [OF us mo _ Cons.prems(4) assms(3)] None Cons.prems(3) assms(4)
      by (meson image_eqI leD le_less_linear list.set_intros(1) subsetD)
    let ?a = "give_slot e ?i a"
    have step: "new_slots (e # es) a = new_slots es ?a"
      using None lt by (simp add: give_slot_def Let_def)
    have find: "map_find h (al_map ?a) = (if h = se_task_id_hash e then Some ?i else map_find h (al_map a))" for h
      using mo by (simp add: give_slot_def map_find_put)
    have S: "h \<in> S" if "map_find h (al_map ?a) = Some k" for h k
      using that Cons.prems(3,4) by (auto simp: find split: if_splits)
    have "alloc_ok H nm ?a" using Cons.prems(1) names(1) None refl lt by (rule alloc_ok_give)
    from Cons.IH [OF this names(2) _ S] Cons.prems(3)
    have IH: "alloc_ok H nm (new_slots es ?a)"
      "\<forall>h i. map_find h (al_map ?a) = Some i \<longrightarrow> map_find h (al_map (new_slots es ?a)) = Some i"
      "\<forall>e\<in>set es. map_find (se_task_id_hash e) (al_map (new_slots es ?a)) \<noteq> None"
      by auto
    have "map_find (se_task_id_hash e) (al_map (new_slots es ?a)) = Some ?i" using IH(2) by (simp add: find)
    moreover have "map_find h (al_map (new_slots es ?a)) = Some k" if "map_find h (al_map a) = Some k" for h k
      using IH(2) that None by (metis find option.distinct(1))
    ultimately show ?thesis using IH(1,3) unfolding step by auto
  qed
qed

section \<open>Publishing a table\<close>

lemma total_slots_bound:
  assumes "\<And>kv. kv \<in> set mp \<Longrightarrow> snd kv < n"
  shows "total_slots mp \<le> n" and "kv \<in> set mp \<Longrightarrow> snd kv < total_slots mp"
proof -
  define f where "f = (\<lambda>n (p :: u64 \<times> nat). if n < snd p + 1 then snd p + 1 else n)"
  have f: "f k p = max k (Suc (snd p))" for k p by (simp add: f_def)
  have "foldl f k mp \<le> max k n \<and> k \<le> foldl f k mp \<and> (\<forall>p\<in>set mp. snd p < foldl f k mp)" for k
    using assms
  proof (induction mp arbitrary: k)
    case Nil
    then show ?case by simp
  next
    case (Cons q mp)
    have "snd q < n" using Cons.prems by simp
    then have "max (f k q) n = max k n" "k \<le> f k q" "snd q < f k q" by (simp_all add: f)
    with Cons.IH [of "f k q"] Cons.prems show ?case by auto
  qed
  from this [of 0] show "total_slots mp \<le> n" "kv \<in> set mp \<Longrightarrow> snd kv < total_slots mp"
    unfolding total_slots_def f_def by auto
qed

definition timer_inv :: "u64 set \<Rightarrow> (u64 \<Rightarrow> string) \<Rightarrow> TimerMaster \<Rightarrow> bool" where
  "timer_inv H nm tm \<longleftrightarrow>
     (\<forall>m. ttsched_shm tm = Some m \<longrightarrow> slots_ok H nm (task_hash_to_shm_idx tm) (tasks m) \<and>
        (\<forall>h i. map_find h (task_hash_to_shm_idx tm) = Some i \<longrightarrow> i < unat (n_tasks m)))"

lemma timer_inv_init:
  assumes "\<And>m. mapped = Some m \<Longrightarrow> shm_ok m"
  shows "timer_inv H nm (TimerMaster_init mapped)"
  using assms by (auto simp: timer_inv_def TimerMaster_init_def slots_ok_def shm_ok_def)

lemma publish_correct:
  assumes ok: "slots_ok H nm prev (tasks m)" and names: "names_ok H nm es"
    and card: "card (se_task_id_hash ` set es) \<le> TIMPANI_MAX_TASKS"
    and pub: "publish es prev m = (m', mp)"
  shows "slots_ok H nm mp (tasks m')" and "\<And>h i. map_find h mp = Some i \<Longrightarrow> i < unat (n_tasks m')"
    and "magic m' = TIMPANI_TTSCHED_MAGIC" and "generation m' = generation m + 1"
    and "\<And>e. e \<in> set es \<Longrightarrow> map_find (se_task_id_hash e) mp \<noteq> None"
    and "\<And>e i. e \<in> set es \<Longrightarrow> map_find (se_task_id_hash e) prev = Some i \<Longrightarrow>
      map_find (se_task_id_hash e) mp = Some i"
proof -
  let ?S = "se_task_id_hash ` set es"
  define bumped where "bumped = map (\<lambda>t. t\<lparr>counter := counter t + 1\<rparr>) (tasks m)"
  define a0 where "a0 = \<lparr>al_map = [], al_used = replicate TIMPANI_MAX_TASKS False, al_tasks = bumped\<rparr>"
  define kept where "kept = foldl (keep_slot prev) a0 es"
  have ok': "slots_ok H nm prev bumped"
    by (rule slots_ok_cong [OF ok]) (simp add: bumped_def)
  have a0: "kept_ok H nm prev bumped a0" by (simp add: kept_ok_def a0_def used_ok_def)
  note kept = kept_ok_all [OF ok' names a0, folded kept_def]
  have "slots_ok H nm (al_map kept) (al_tasks kept)"
    using slots_ok_cong [OF ok', of "al_tasks kept"] kept unfolding slots_ok_def kept_ok_def by metis
  then have al: "alloc_ok H nm kept" using kept by (simp add: alloc_ok_def kept_ok_def)
  have keys: "h \<in> ?S" if "map_find h (al_map kept) = Some i" for h i
  proof -
    have "h \<in> ?S" if "map_find h (al_map (foldl (keep_slot prev) a xs)) = Some i"
      "\<And>i. map_find h (al_map a) = Some i \<Longrightarrow> h \<in> ?S" "set xs \<subseteq> set es" "map_ok (al_map a)" for a xs
      using that
    proof (induction xs arbitrary: a)
      case (Cons x xs)
      show ?case
        by (rule Cons.IH [of "keep_slot prev a x"])
          (use Cons.prems in \<open>auto simp: keep_slot_def map_find_put map_ok_put split: option.splits if_splits\<close>)
    qed auto
    from this [of a0 es] that show ?thesis by (simp add: kept_def a0_def)
  qed
  note new = new_slots_correct [OF al names _ card subset_refl keys]
  have res: "m' = \<lparr>magic = TIMPANI_TTSCHED_MAGIC, n_tasks = of_nat (total_slots (al_map (new_slots es kept))),
      generation = generation m + 1, tasks = al_tasks (new_slots es kept),
      futex_queue = foldl (\<lambda>q i. futex_wake i INT_MAX q) (futex_queue m) [0..<TIMPANI_MAX_TASKS]\<rparr>" "mp = al_map (new_slots es kept)"
    using pub by (auto simp: publish_def Let_def kept_def a0_def bumped_def)
  show so: "slots_ok H nm mp (tasks m')" using new by (simp add: res alloc_ok_def)
  show "magic m' = TIMPANI_TTSCHED_MAGIC" "generation m' = generation m + 1" by (simp_all add: res)
  show "map_find (se_task_id_hash e) mp \<noteq> None" if "e \<in> set es" for e
    using new that by (simp add: res)
  show "map_find (se_task_id_hash e) mp = Some i"
    if "e \<in> set es" "map_find (se_task_id_hash e) prev = Some i" for e i
    using new kept that by (simp add: res)
  have mo: "map_ok mp" using so by (simp add: slots_ok_def)
  have b: "snd kv < TIMPANI_MAX_TASKS" if "kv \<in> set mp" for kv
    using slots_okD(2) [OF so, of "fst kv" "snd kv"] that mo by (simp add: map_find_iff)
  show "i < unat (n_tasks m')" if "map_find h mp = Some i" for h i
  proof -
    have "i < total_slots mp" using total_slots_bound(2) [OF b map_find_mem [OF that]] by simp
    moreover have "total_slots mp < 2 ^ 32"
      using total_slots_bound(1) [of mp, OF b] by (simp add: TIMPANI_MAX_TASKS_def)
    ultimately show ?thesis by (simp add: res unat_of_nat)
  qed
qed

lemma timer_start_frame [simp]:
  "ttsched_shm (timer_start tm) = ttsched_shm tm"
  "task_hash_to_shm_idx (timer_start tm) = task_hash_to_shm_idx tm"
  "slot_table (timer_start tm) = slot_table tm"
  by (simp_all add: timer_start_def timer_stop_def Let_def)

text \<open>C27: Publishing a schedule table. Let at most 32 different tasks occur in it, with names that
  differ in their first 15 characters. Then every task of the table gets a slot of the shared object,
  and a task that had one keeps it. A task that looks for its own name finds exactly the slot the timer
  wakes for it, although slots of removed tasks keep their old names. The object is marked ready, its
  generation goes up by one, and the timer keeps these properties for the next table.\<close>

theorem published_slots_found:
  fixes hyperperiod_us epoch :: u64
  assumes inv: "timer_inv H nm tm" and shm: "ttsched_shm tm = Some m" and names: "names_ok H nm slots"
    and card: "card (se_task_id_hash ` set slots) \<le> TIMPANI_MAX_TASKS"
  defines "tm' \<equiv> set_schedule_table slots hyperperiod_us epoch tm"
  shows "timer_inv H nm tm' \<and> (\<exists>m'. ttsched_shm tm' = Some m' \<and> magic m' = TIMPANI_TTSCHED_MAGIC
    \<and> generation m' = generation m + 1
    \<and> (\<forall>e\<in>set slots. \<exists>i. map_find (se_task_id_hash e) (task_hash_to_shm_idx tm') = Some i
        \<and> (\<forall>me. name15 me = name15 (se_task_name e) \<longrightarrow> find_task_slot m' me = int i)
        \<and> (\<forall>i0. map_find (se_task_id_hash e) (task_hash_to_shm_idx tm) = Some i0 \<longrightarrow> i = i0)))"
proof -
  let ?es = "std_sort by_offset slots"
  have set: "set ?es = set slots" using mset_std_sort [of by_offset slots] by (rule mset_eq_setD)
  have names': "names_ok H nm ?es" using names by (simp add: names_ok_def set)
  have card': "card (se_task_id_hash ` set ?es) \<le> TIMPANI_MAX_TASKS" using card by (simp add: set)
  have ok: "slots_ok H nm (task_hash_to_shm_idx tm) (tasks m)" using inv shm by (simp add: timer_inv_def)
  obtain m' mp where pub: "publish ?es (task_hash_to_shm_idx tm) m = (m', mp)" by (cases "publish ?es (task_hash_to_shm_idx tm) m")
  note p = publish_correct [OF ok names' card' pub]
  have tm': "ttsched_shm tm' = Some m'" "task_hash_to_shm_idx tm' = mp"
    using shm pub by (auto simp: tm'_def set_schedule_table_def Let_def)
  have "\<exists>i. map_find (se_task_id_hash e) mp = Some i
      \<and> (\<forall>me. name15 me = name15 (se_task_name e) \<longrightarrow> find_task_slot m' me = int i)
      \<and> (\<forall>i0. map_find (se_task_id_hash e) (task_hash_to_shm_idx tm) = Some i0 \<longrightarrow> i = i0)" if "e \<in> set slots" for e
  proof -
    have e: "e \<in> set ?es" using that set by simp
    then obtain i where i: "map_find (se_task_id_hash e) mp = Some i" using p(5) by blast
    have "find_task_slot m' me = int i" if "name15 me = name15 (se_task_name e)" for me
      using p(1) i p(3) p(2) [OF i] by (rule find_task_slot_owner) (use that names \<open>e \<in> set slots\<close> in \<open>simp add: names_ok_def\<close>)
    then show ?thesis using i p(6) [OF e] by auto
  qed
  moreover have "timer_inv H nm tm'" using p(1,2) by (simp add: timer_inv_def tm')
  ultimately show ?thesis using p(3,4) tm' by auto
qed

definition demo_shm :: timpani_ttsched_shm where
  "demo_shm = \<lparr>magic = 0, n_tasks = 0, generation = 0,
     tasks = replicate 32 \<lparr>slot_name = replicate 16 (CHR 0x00), counter = 0\<rparr>, futex_queue = []\<rparr>"

definition demo_entry :: SlotEntry where
  "demo_entry = \<lparr>se_cpu = 2, se_slot_idx = 0, se_offset_ns = 0, se_duration_ns = 1000, se_task_id_hash = 7,
     se_workload_id_hash = 5, se_task_name = ''task_1''\<rparr>"

theorem published_slots_found_witness:
  "\<exists>m'. ttsched_shm (set_schedule_table [demo_entry] 10000 0 (TimerMaster_init (Some demo_shm))) = Some m'
    \<and> generation m' = 2 \<and> (\<exists>i. find_task_slot m' ''task_1'' = int i)"
proof -
  let ?tm = "TimerMaster_init (Some demo_shm)"
  have "timer_inv {7} (\<lambda>_. ''task_1'') ?tm"
    by (rule timer_inv_init) (simp add: demo_shm_def shm_ok_def TIMPANI_MAX_TASKS_def)
  moreover have "ttsched_shm ?tm = Some (demo_shm\<lparr>generation := 1\<rparr>)"
    by (simp add: TimerMaster_init_def demo_shm_def)
  moreover have "names_ok {7} (\<lambda>_. ''task_1'') [demo_entry]"
    by (simp add: names_ok_def demo_entry_def)
  moreover have "card (se_task_id_hash ` set [demo_entry]) \<le> TIMPANI_MAX_TASKS"
    by (simp add: TIMPANI_MAX_TASKS_def)
  ultimately show ?thesis
    using published_slots_found [of "{7}" "\<lambda>_. ''task_1''" ?tm "demo_shm\<lparr>generation := 1\<rparr>" "[demo_entry]" 10000 0]
    by (auto simp: demo_entry_def)
qed

section \<open>Waking a task\<close>

text \<open>The entries of the queue that matter to a thread asleep on a slot.\<close>

abbreviation watch :: "nat \<Rightarrow> nat \<Rightarrow> timpani_ttsched_shm \<Rightarrow> (nat \<times> nat) list" where
  "watch tid i m \<equiv> filter (\<lambda>w. snd w = i \<or> fst w = tid) (futex_queue m)"

lemma futex_wake_frame:
  assumes "\<And>w. w \<in> set q \<Longrightarrow> snd w = k \<Longrightarrow> \<not> P w"
  shows "filter P (futex_wake k n q) = filter P q"
  using assms by (induction k n q rule: futex_wake.induct) auto

lemma futex_wake_first:
  assumes "filter (\<lambda>w. snd w = i \<or> fst w = tid) q = [(tid, i)]" and "0 < n"
  shows "filter (\<lambda>w. snd w = i \<or> fst w = tid) (futex_wake i n q) = []"
  using assms
proof (induction q)
  case (Cons w q)
  show ?case
  proof (cases "snd w = i")
    case True
    with Cons.prems have "filter (\<lambda>w. snd w = i \<or> fst w = tid) q = []" by simp
    moreover from this have "filter (\<lambda>w. snd w = i \<or> fst w = tid) (futex_wake i (n - 1) q) = []"
      using futex_wake_frame [of q i "\<lambda>w. snd w = i \<or> fst w = tid" "n - 1"] by (auto simp: filter_empty_conv)
    ultimately show ?thesis using True Cons.prems(2) by simp
  next
    case False
    with Cons.prems have "fst w \<noteq> tid" by (cases w) (auto split: if_splits)
    with False Cons show ?thesis by simp
  qed
qed simp

lemma watch_asleep:
  "watch tid i m = [(tid, i)] \<Longrightarrow> asleep tid m" "watch tid i m = [] \<Longrightarrow> \<not> asleep tid m"
  by (auto simp: asleep_def filter_empty_conv dest: filter_eq_ConsD)

text \<open>A sleeping thread sleeps on, signal or not, as long as the counter of its slot stays.\<close>

lemma resume_sleeps:
  assumes "watch tid i m = [(tid, i)]" and "counter (tasks m ! i) = cur"
  shows "fst (ttsched_resume tid signalled i cur m t) = Asleep i cur"
  using watch_asleep(1) [OF assms(1)] assms(2)
  by (simp add: ttsched_resume_def ttsched_futex_def futex_wait_def futex_interrupt_def)

lemma resume_returns:
  assumes "watch tid i m = []" and "magic m = TIMPANI_TTSCHED_MAGIC"
  shows "fst (ttsched_resume tid signalled i cur m t) = Returned 0"
  using watch_asleep(2) [OF assms(1)] assms(2) by (simp add: ttsched_resume_def ttsched_return_def)

lemma wakes_of_others:
  assumes "ttsched_shm tm = Some m" and "watch tid i m = [(tid, i)]"
    and "\<And>h. h \<in> set hs \<Longrightarrow> map_find h (task_hash_to_shm_idx tm) \<noteq> Some i"
  shows "\<exists>m2. ttsched_shm (foldl (\<lambda>tm h. wake_task h tm) tm hs) = Some m2 \<and> magic m2 = magic m
    \<and> tasks m2 ! i = tasks m ! i \<and> watch tid i m2 = [(tid, i)]
    \<and> task_hash_to_shm_idx (foldl (\<lambda>tm h. wake_task h tm) tm hs) = task_hash_to_shm_idx tm"
  using assms
proof (induction hs arbitrary: tm m)
  case (Cons h hs)
  show ?case
  proof (cases "map_find h (task_hash_to_shm_idx tm)")
    case None
    with Cons show ?thesis by (simp add: wake_task_def)
  next
    case (Some k)
    let ?m = "m\<lparr>tasks := (tasks m)[k := (tasks m ! k)\<lparr>counter := counter (tasks m ! k) + 1\<rparr>],
                futex_queue := futex_wake k 1 (futex_queue m)\<rparr>"
    have k: "k \<noteq> i" using Cons.prems(3) [of h] Some by auto
    have tm: "wake_task h tm = tm\<lparr>ttsched_shm := Some ?m\<rparr>" using Cons.prems(1) Some by (simp add: wake_task_def)
    have "\<not> (snd w = i \<or> fst w = tid)" if w: "w \<in> set (futex_queue m)" "snd w = k" for w
    proof
      assume "snd w = i \<or> fst w = tid"
      then have "w \<in> set (watch tid i m)" using w by simp
      with Cons.prems(2) w k show False by simp
    qed
    then have "watch tid i ?m = [(tid, i)]"
      using Cons.prems(2) futex_wake_frame [of "futex_queue m" k "\<lambda>w. snd w = i \<or> fst w = tid" 1] by simp
    with Cons.IH [of "wake_task h tm" ?m] Cons.prems(3) k show ?thesis by (simp add: tm)
  qed
qed simp

lemma ttsched_wait_enters:
  assumes "g_shm t = Some m" and "magic m = TIMPANI_TTSCHED_MAGIC" and "find_task_slot m me = int i"
    and "generation m \<noteq> g_shm_generation t \<or> g_task_idx t < 0 \<or> g_task_idx t = int i"
  shows "\<exists>t'. ttsched_wait_next_period me tid opened now_m t
    = ttsched_futex tid i (counter (tasks m ! i)) now_m t'"
  using assms by (auto simp: ttsched_wait_next_period_def ttsched_block_def Let_def)

text \<open>C28: A task sleeps until its own slot fires, and then runs. Take a ready object and a task of the
  mapping that waits for its next period with no slot yet, with a slot of an older generation or with its
  own slot; no other thread sleeps on that slot. The task falls asleep on the slot the timer has for it.
  Whatever wake-ups of other tasks follow, it sleeps on, and a signal does not end its sleep either. The
  first wake-up of the task itself ends it and the call returns 0. If the timer wakes the task after it
  has read the counter and before the system call, the wake-up is not lost: the call does not sleep and
  returns 0.\<close>

theorem wake_reaches_waiter:
  assumes inv: "timer_inv H nm tm" and inj: "inj_on (\<lambda>h. name15 (nm h)) H" and shm: "ttsched_shm tm = Some m"
    and i: "map_find h (task_hash_to_shm_idx tm) = Some i"
    and ready: "magic m = TIMPANI_TTSCHED_MAGIC" and me: "name15 me = name15 (nm h)"
    and t: "g_shm t = Some m" "generation m \<noteq> g_shm_generation t \<or> g_task_idx t < 0 \<or> g_task_idx t = int i"
    and alone: "\<forall>w\<in>set (futex_queue m). fst w \<noteq> tid \<and> snd w \<noteq> i" and others: "h \<notin> set hs"
  shows "(\<exists>t' m1 cur tm2 m2 m3.
      ttsched_wait_next_period me tid opened m t = (Asleep i cur, t', m1)
      \<and> tm2 = foldl (\<lambda>tm h. wake_task h tm) (tm\<lparr>ttsched_shm := Some m1\<rparr>) hs \<and> ttsched_shm tm2 = Some m2
      \<and> fst (ttsched_resume tid signalled i cur m2 t') = Asleep i cur
      \<and> ttsched_shm (wake_task h tm2) = Some m3
      \<and> fst (ttsched_resume tid signalled i cur m3 t') = Returned 0)
    \<and> (\<exists>m4. ttsched_shm (wake_task h tm) = Some m4
      \<and> fst (ttsched_wait_next_period me tid opened m4 t) = Returned 0)"
proof -
  let ?cur = "counter (tasks m ! i)" and ?m1 = "m\<lparr>futex_queue := futex_queue m @ [(tid, i)]\<rparr>"
  let ?tm1 = "tm\<lparr>ttsched_shm := Some ?m1\<rparr>"
  let ?tm2 = "foldl (\<lambda>tm h. wake_task h tm) ?tm1 hs"
  have ok: "slots_ok H nm (task_hash_to_shm_idx tm) (tasks m)" and lt: "i < unat (n_tasks m)"
    using inv shm i by (auto simp: timer_inv_def)
  have len: "i < length (tasks m)" using slots_okD(2) [OF ok i] ok by (simp add: slots_ok_def)
  have f: "find_task_slot m me = int i" using ok i ready lt me by (rule find_task_slot_owner)
  note enters = ttsched_wait_enters [OF t(1) ready f t(2), of tid opened]
  obtain t' where "ttsched_wait_next_period me tid opened m t = ttsched_futex tid i ?cur m t'"
    using enters by blast
  then have wait: "ttsched_wait_next_period me tid opened m t = (Asleep i ?cur, t', ?m1)"
    by (simp add: ttsched_futex_def futex_wait_def)
  have w1: "watch tid i ?m1 = [(tid, i)]" using alone by (auto simp: filter_empty_conv)
  have other: "map_find h' (task_hash_to_shm_idx tm) \<noteq> Some i" if "h' \<in> set hs" for h'
    using same_slot [OF ok inj i] others that by metis
  obtain m2 where m2: "ttsched_shm ?tm2 = Some m2" "magic m2 = magic m" "tasks m2 ! i = tasks m ! i"
    "watch tid i m2 = [(tid, i)]" "task_hash_to_shm_idx ?tm2 = task_hash_to_shm_idx tm"
    using wakes_of_others [of ?tm1 ?m1 i tid hs] w1 other by auto
  let ?m3 = "m2\<lparr>tasks := (tasks m2)[i := (tasks m2 ! i)\<lparr>counter := counter (tasks m2 ! i) + 1\<rparr>],
               futex_queue := futex_wake i 1 (futex_queue m2)\<rparr>"
  have m3: "ttsched_shm (wake_task h ?tm2) = Some ?m3" using m2(1,5) i by (simp add: wake_task_def)
  have "watch tid i ?m3 = []" using futex_wake_first [OF m2(4), of 1] by simp
  then have r3: "fst (ttsched_resume tid signalled i ?cur ?m3 t') = Returned 0"
    by (rule resume_returns) (simp add: m2(2) ready)
  have r2: "fst (ttsched_resume tid signalled i ?cur m2 t') = Asleep i ?cur"
    using m2(4) by (rule resume_sleeps) (simp add: m2(3))
  let ?m4 = "m\<lparr>tasks := (tasks m)[i := (tasks m ! i)\<lparr>counter := counter (tasks m ! i) + 1\<rparr>],
               futex_queue := futex_wake i 1 (futex_queue m)\<rparr>"
  have m4: "ttsched_shm (wake_task h tm) = Some ?m4" using shm i by (simp add: wake_task_def)
  obtain t4 where "ttsched_wait_next_period me tid opened ?m4 t = ttsched_futex tid i ?cur ?m4 t4"
    using enters by blast
  then have r4: "fst (ttsched_wait_next_period me tid opened ?m4 t) = Returned 0"
    using len ready by (simp add: ttsched_futex_def futex_wait_def ttsched_return_def)
  show ?thesis using wait m2(1) r2 m3 r3 m4 r4 by blast
qed

definition demo_ready :: timpani_ttsched_shm where
  "demo_ready = demo_shm\<lparr>magic := TIMPANI_TTSCHED_MAGIC, n_tasks := 1, generation := 2,
     tasks := (tasks demo_shm)[0 := \<lparr>slot_name = shm_name ''task_1'', counter = 4\<rparr>]\<rparr>"

definition demo_timer :: TimerMaster where
  "demo_timer = (TimerMaster_init None)\<lparr>ttsched_shm := Some demo_ready, task_hash_to_shm_idx := [(7, 0)]\<rparr>"

lemma demo_timer_inv: "timer_inv {7} (\<lambda>_. ''task_1'') demo_timer"
  by (auto simp: timer_inv_def demo_timer_def TimerMaster_init_def slots_ok_def demo_ready_def demo_shm_def
      TIMPANI_MAX_TASKS_def map_ok_def map_find_def split: if_splits)

theorem wake_reaches_waiter_witness:
  "\<exists>t' m1 cur. ttsched_wait_next_period ''task_1'' 41 None demo_ready (ttsched_start\<lparr>g_shm := Some demo_ready\<rparr>)
      = (Asleep 0 cur, t', m1)
    \<and> (\<exists>m3. ttsched_shm (wake_task 7 (wake_task 8 (demo_timer\<lparr>ttsched_shm := Some m1\<rparr>))) = Some m3
      \<and> fst (ttsched_resume 41 True 0 cur m3 t') = Returned 0)"
proof -
  have "ttsched_shm demo_timer = Some demo_ready" "map_find 7 (task_hash_to_shm_idx demo_timer) = Some 0"
    "magic demo_ready = TIMPANI_TTSCHED_MAGIC" "futex_queue demo_ready = []"
    by (simp_all add: demo_timer_def map_find_def demo_ready_def demo_shm_def)
  then show ?thesis
    using wake_reaches_waiter [OF demo_timer_inv, of demo_ready 7 0 "''task_1''"
        "ttsched_start\<lparr>g_shm := Some demo_ready\<rparr>" 41 "[8]" None True]
    by (fastforce simp: ttsched_start_def)
qed

text \<open>
  Publishing a table also changes every counter and wakes every sleeping thread. A task that sleeps
  meanwhile and looks at the magic only after the new table is complete returns 0, as if its slot had
  fired.
\<close>

lemma futex_wake_all:
  "length q \<le> n \<Longrightarrow> futex_wake i n q = filter (\<lambda>w. snd w \<noteq> i) q"
proof (induction q arbitrary: n)
  case (Cons w q)
  then show ?case by (cases n) auto
qed simp

lemma wake_slots:
  assumes "length q \<le> n"
  shows "foldl (\<lambda>q i. futex_wake i n q) q [0..<k] = filter (\<lambda>w. k \<le> snd w) q"
proof (induction k)
  case (Suc k)
  have "length (filter (\<lambda>w. k \<le> snd w) q) \<le> n" using assms length_filter_le le_trans by blast
  then show ?case using Suc by (auto simp: futex_wake_all intro!: filter_cong)
qed simp

theorem table_update_ends_wait:
  assumes "ttsched_shm tm = Some m" and "length (futex_queue m) \<le> INT_MAX"
    and "\<And>w. w \<in> set (futex_queue m) \<Longrightarrow> fst w = tid \<Longrightarrow> snd w < TIMPANI_MAX_TASKS"
  shows "\<exists>m'. ttsched_shm (set_schedule_table slots hyperperiod_us epoch tm) = Some m'
    \<and> fst (ttsched_resume tid signalled i cur m' t) = Returned 0"
proof -
  obtain m' mp where pub: "publish (std_sort by_offset slots) (task_hash_to_shm_idx tm) m = (m', mp)"
    by (cases "publish (std_sort by_offset slots) (task_hash_to_shm_idx tm) m")
  then have m': "magic m' = TIMPANI_TTSCHED_MAGIC"
    "futex_queue m' = filter (\<lambda>w. TIMPANI_MAX_TASKS \<le> snd w) (futex_queue m)"
    using wake_slots [OF assms(2)] by (auto simp: publish_def Let_def)
  have "\<not> asleep tid m'"
    using assms(3) leD unfolding asleep_def m'(2) by fastforce
  moreover have "ttsched_shm (set_schedule_table slots hyperperiod_us epoch tm) = Some m'"
    using pub assms(1) by (simp add: set_schedule_table_def Let_def)
  ultimately show ?thesis using m'(1) by (simp add: ttsched_resume_def ttsched_return_def)
qed

end
