(* ===== verification/Timer_Loop.thy ===== *)
theory Timer_Loop
  imports Timer_Slots
begin

text \<open>
  The rounds of a timer thread. The thread is after \<open>k\<close> rounds at slot \<open>k mod m\<close> of hyperperiod
  \<open>k div m\<close>, where \<open>m\<close> is the number of its slots. The instants it sleeps to, the start times it
  publishes to the kernel and the wake-ups of the tasks follow from that.
\<close>

section \<open>Start of the loop\<close>

lemma hyperperiod_start_nat:
  assumes "epoch \<noteq> 0" and "0 < hp" and "unat now_ns + unat hp < 2 ^ 64"
  shows "unat (hyperperiod_start epoch hp now_ns)
    = (if epoch < now_ns then grid_after (unat hp) (unat epoch) (unat now_ns) else unat epoch)"
  using grid_after_word [of hp epoch now_ns] assms by (auto simp: hyperperiod_start_def)

text \<open>C26: A thread that starts late catches up on the table's own grid. If the epoch is over, its first
  hyperperiod starts after the present, at most one hyperperiod ahead and a whole number of hyperperiods
  after the epoch; otherwise it starts at the epoch. So all CPUs and nodes with the same table keep the
  same grid.\<close>

theorem hyperperiod_start_on_grid:
  assumes "epoch \<noteq> 0" and "0 < hp" and "unat now_ns + unat hp < 2 ^ 64"
  shows "\<exists>k. unat (hyperperiod_start epoch hp now_ns) = unat epoch + k * unat hp
    \<and> now_ns \<le> hyperperiod_start epoch hp now_ns
    \<and> (epoch < now_ns \<longrightarrow> now_ns < hyperperiod_start epoch hp now_ns
        \<and> unat (hyperperiod_start epoch hp now_ns) \<le> unat now_ns + unat hp)
    \<and> (now_ns \<le> epoch \<longrightarrow> hyperperiod_start epoch hp now_ns = epoch)"
proof (cases "epoch < now_ns")
  case True
  have hp: "0 < unat hp" using assms(2) by (simp add: word_less_nat_alt)
  have le: "unat epoch \<le> unat now_ns" using True by (simp add: word_less_nat_alt)
  have v: "unat (hyperperiod_start epoch hp now_ns) = grid_after (unat hp) (unat epoch) (unat now_ns)"
    using hyperperiod_start_nat [OF assms] True by simp
  obtain k where "grid_after (unat hp) (unat epoch) (unat now_ns) = unat epoch + k * unat hp"
    using grid_after_props(3) [OF hp le] by blast
  with grid_after_props(1,2) [OF hp le] show ?thesis
    using v True by (auto simp: word_less_nat_alt word_le_nat_alt)
next
  case False
  then have "hyperperiod_start epoch hp now_ns = epoch" using assms(1) by (simp add: hyperperiod_start_def)
  with False show ?thesis by (auto intro: exI [of _ 0])
qed

theorem hyperperiod_start_on_grid_witness:
  "\<exists>k. unat (hyperperiod_start 1000 300 1650) = 1000 + k * 300 \<and> 1650 < hyperperiod_start 1000 300 1650"
  using hyperperiod_start_on_grid [of 1000 300 1650] by auto

section \<open>Rounds\<close>

definition loop_target :: "cpu_loop \<Rightarrow> nat \<Rightarrow> nat" where
  "loop_target l0 k = unat (cl_start l0) + k div length (cl_slots l0) * unat (cl_hyperperiod_ns l0)
     + unat (se_offset_ns (cl_slots l0 ! (k mod length (cl_slots l0))))"

definition loop_at :: "cpu_loop \<Rightarrow> nat \<Rightarrow> cpu_loop \<Rightarrow> bool" where
  "loop_at l0 k l \<longleftrightarrow> cl_slots l = cl_slots l0 \<and> cl_hyperperiod_ns l = cl_hyperperiod_ns l0
     \<and> cl_next l = k mod length (cl_slots l0)
     \<and> unat (cl_start l) = unat (cl_start l0) + k div length (cl_slots l0) * unat (cl_hyperperiod_ns l0)"

lemma loop_at_target:
  assumes "loop_at l0 k l" and "loop_target l0 k < 2 ^ 64"
  shows "unat (target_ns l) = loop_target l0 k"
proof -
  have "unat (cl_start l) + unat (se_offset_ns (cl_slots l ! cl_next l)) = loop_target l0 k"
    using assms(1) by (simp add: loop_at_def loop_target_def)
  then show ?thesis
    unfolding target_ns_def using assms(2) by (subst unat_add_small) simp_all
qed

lemma record_jitter_at [simp]: "loop_at l0 k (record_jitter j l) \<longleftrightarrow> loop_at l0 k l"
  by (simp add: loop_at_def record_jitter_def Let_def)

lemma loop_at_advance:
  assumes at_k: "loop_at l0 k l" and ne: "cl_slots l0 \<noteq> []" and room: "loop_target l0 (Suc k) < 2 ^ 64"
  shows "loop_at l0 (Suc k) (advance l)"
proof -
  let ?m = "length (cl_slots l0)" and ?hp = "unat (cl_hyperperiod_ns l0)"
  have m: "0 < ?m" using ne by simp
  show ?thesis
  proof (cases "Suc (k mod ?m) = ?m")
    case True
    then have d: "Suc k mod ?m = 0" "Suc k div ?m = Suc (k div ?m)"
      by (simp_all add: mod_Suc div_Suc)
    have "unat (cl_start l) + ?hp < 2 ^ 64"
      using room at_k unfolding loop_target_def d by (simp add: loop_at_def)
    then have "unat (cl_start l + cl_hyperperiod_ns l) = unat (cl_start l) + ?hp"
      using at_k by (subst unat_add_small) (simp_all add: loop_at_def)
    with True d at_k show ?thesis by (simp add: loop_at_def advance_def)
  next
    case False
    then have "Suc k mod ?m = Suc (k mod ?m)" "Suc k div ?m = k div ?m"
      by (simp_all add: mod_Suc div_Suc)
    moreover have "\<not> ?m \<le> Suc (k mod ?m)" using False mod_less_divisor [OF m, of k] by linarith
    ultimately show ?thesis using at_k by (simp add: loop_at_def advance_def)
  qed
qed

lemma loop_at_next_start:
  assumes at_k: "loop_at l0 k l" and ne: "cl_slots l0 \<noteq> []" and hp: "0 < cl_hyperperiod_ns l0"
    and room: "loop_target l0 (Suc k) < 2 ^ 64"
  shows "unat (compute_next_tt_start_for_cpu (cl_slots l) (cl_next l) (cl_start l) (cl_hyperperiod_ns l))
    = loop_target l0 (Suc k)"
proof -
  let ?n = "advance l"
  have "compute_next_tt_start_for_cpu (cl_slots l) (cl_next l) (cl_start l) (cl_hyperperiod_ns l) = target_ns ?n"
  proof -
    let ?m = "length (cl_slots l0)"
    have m: "0 < ?m" using ne by simp
    have lt: "cl_next l < ?m" using at_k mod_less_divisor [OF m] by (simp add: loop_at_def)
    show ?thesis
    proof (cases "Suc (cl_next l) = ?m")
      case True
      with at_k ne hp show ?thesis
        by (auto simp: compute_next_tt_start_for_cpu_def target_ns_def advance_def loop_at_def Let_def)
    next
      case False
      with lt have "Suc (cl_next l) mod ?m = Suc (cl_next l)" "\<not> ?m \<le> Suc (cl_next l)" by simp_all
      with at_k ne hp show ?thesis
        by (auto simp: compute_next_tt_start_for_cpu_def target_ns_def advance_def loop_at_def Let_def)
    qed
  qed
  then show ?thesis using loop_at_target [OF loop_at_advance [OF at_k ne room] room] by simp
qed

text \<open>Slots in strict order inside the hyperperiod, as a placement without overlaps gives them.\<close>

definition slots_in_order :: "cpu_loop \<Rightarrow> bool" where
  "slots_in_order l \<longleftrightarrow> cl_slots l \<noteq> [] \<and> sorted_wrt (\<lambda>a b. se_offset_ns a < se_offset_ns b) (cl_slots l)
     \<and> (\<forall>e\<in>set (cl_slots l). se_offset_ns e < cl_hyperperiod_ns l)"

lemma loop_target_less:
  assumes "slots_in_order l0"
  shows "loop_target l0 k < loop_target l0 (Suc k)"
proof -
  let ?m = "length (cl_slots l0)" and ?o = "\<lambda>i. unat (se_offset_ns (cl_slots l0 ! i))"
  have m: "0 < ?m" using assms by (auto simp: slots_in_order_def)
  have lt: "k mod ?m < ?m" using m by simp
  show ?thesis
  proof (cases "Suc (k mod ?m) = ?m")
    case True
    have "cl_slots l0 ! (k mod ?m) \<in> set (cl_slots l0)" using lt by simp
    then have "?o (k mod ?m) < unat (cl_hyperperiod_ns l0)"
      using assms by (auto simp: slots_in_order_def word_less_nat_alt)
    with True show ?thesis by (simp add: loop_target_def mod_Suc div_Suc)
  next
    case False
    then have "Suc (k mod ?m) < ?m" using lt by simp
    then have "se_offset_ns (cl_slots l0 ! (k mod ?m)) < se_offset_ns (cl_slots l0 ! Suc (k mod ?m))"
      using assms unfolding slots_in_order_def sorted_wrt_iff_nth_less by blast
    with False show ?thesis by (simp add: loop_target_def mod_Suc div_Suc word_less_nat_alt)
  qed
qed

lemma loop_target_mono: "slots_in_order l0 \<Longrightarrow> j \<le> k \<Longrightarrow> loop_target l0 j \<le> loop_target l0 k"
  by (rule lift_Suc_mono_le [of "loop_target l0"]) (simp_all add: loop_target_less less_imp_le)

section \<open>One round\<close>

lemma wake_task_counters:
  assumes "ttsched_shm tm = Some m" and "shm_ok m"
  shows "\<exists>m'. ttsched_shm (wake_task h tm) = Some m' \<and> shm_ok m' \<and>
    (\<forall>i<TIMPANI_MAX_TASKS. counter (tasks m' ! i) = counter (tasks m ! i)
       + (if map_find h (task_hash_to_shm_idx tm) = Some i then 1 else 0))"
  using assms by (auto simp: wake_task_def shm_ok_def nth_list_update split: option.split)

lemma wake_task_frame [simp]:
  "task_hash_to_shm_idx (wake_task h tm) = task_hash_to_shm_idx tm"
  "running_flag (wake_task h tm) = running_flag tm"
  "table_pending (wake_task h tm) = table_pending tm"
  by (simp_all add: wake_task_def split: option.split)

lemma fire_slot_simps:
  "fst (fire_slot actual mono_ns l tm ld) = advance (record_jitter (actual - sint (target_ns l)) l)"
  "fst (snd (fire_slot actual mono_ns l tm ld)) = wake_task (se_task_id_hash (cl_slots l ! cl_next l)) tm"
  by (simp_all add: fire_slot_def Let_def)

text \<open>C25: When a timer thread fires a slot, it tells the kernel which slot is current on the CPU and when
  the next one starts there. In round \<open>k\<close> the published start is the reading of the monotonic clock plus
  the distance between the targets of round \<open>k\<close> and round \<open>k + 1\<close>, and that distance is positive. This
  holds also across the end of the hyperperiod.\<close>

theorem fire_slot_publishes_next:
  assumes at_k: "loop_at l0 k l" and order: "slots_in_order l0" and room: "loop_target l0 (Suc k) < 2 ^ 64"
    and s: "skel ld = Some s" and cpu: "se_cpu (cl_slots l ! cl_next l) < MAX_CPUS"
  shows "\<exists>s'. skel (snd (snd (fire_slot actual mono_ns l tm ld))) = Some s'
    \<and> current_slot_map s' (se_cpu (cl_slots l ! cl_next l)) = se_slot_idx (cl_slots l ! cl_next l)
    \<and> next_tt_start_map s' (se_cpu (cl_slots l ! cl_next l))
        = mono_ns + of_nat (loop_target l0 (Suc k) - loop_target l0 k)
    \<and> loop_target l0 k < loop_target l0 (Suc k)"
proof -
  let ?e = "cl_slots l ! cl_next l"
  let ?n = "compute_next_tt_start_for_cpu (cl_slots l) (cl_next l) (cl_start l) (cl_hyperperiod_ns l)"
  have lt: "loop_target l0 k < loop_target l0 (Suc k)" using order by (rule loop_target_less)
  obtain e where "e \<in> set (cl_slots l0)" "se_offset_ns e < cl_hyperperiod_ns l0"
    using order by (fastforce simp: slots_in_order_def neq_Nil_conv)
  then have hp: "0 < cl_hyperperiod_ns l0" by (auto simp: word_gt_0)
  have ne: "cl_slots l0 \<noteq> []" using order by (simp add: slots_in_order_def)
  have n: "unat ?n = loop_target l0 (Suc k)" using at_k ne hp room by (rule loop_at_next_start)
  have t: "unat (target_ns l) = loop_target l0 k" using loop_at_target [OF at_k] lt room by simp
  have less: "target_ns l < ?n" using n t lt by (simp add: word_less_nat_alt)
  have "unat (?n - target_ns l) = loop_target l0 (Suc k) - loop_target l0 k"
    using less n t by (simp add: unat_diff_le)
  then have d: "?n - target_ns l = of_nat (loop_target l0 (Suc k) - loop_target l0 k)"
    unfolding word_unat_eq_iff using room by (simp add: unat_of_nat)
  show ?thesis
    using s cpu less lt d
    by (simp add: fire_slot_def Let_def update_current_slot_def update_next_tt_start_def with_skel_def
        put_current_def put_next_def arr_update_def)
qed

section \<open>Many rounds\<close>

definition fired :: "cpu_loop \<Rightarrow> (u64, nat) std_map \<Rightarrow> nat \<Rightarrow> nat \<Rightarrow> nat \<Rightarrow> nat" where
  "fired l0 mp i k n = length (filter
     (\<lambda>j. map_find (se_task_id_hash (cl_slots l0 ! (j mod length (cl_slots l0)))) mp = Some i) [k..<k + n])"

lemma fired_Suc:
  "fired l0 mp i k (Suc n)
    = (if map_find (se_task_id_hash (cl_slots l0 ! (k mod length (cl_slots l0)))) mp = Some i then 1 else 0)
      + fired l0 mp i (Suc k) n"
  by (subst fired_def, subst upt_conv_Cons) (simp_all add: fired_def)

lemma cpu_thread_loop_rounds:
  assumes "loop_at l0 k l" and "slots_in_order l0" and "loop_target l0 (k + length clocks) < 2 ^ 64"
    and "running_flag tm" and "\<not> table_pending tm" and "ttsched_shm tm = Some m" and "shm_ok m"
    and "cpu_thread_loop clocks l tm ld = (l', tm', ld')"
  shows "loop_at l0 (k + length clocks) l' \<and> (\<exists>m'. ttsched_shm tm' = Some m' \<and>
    (\<forall>i<TIMPANI_MAX_TASKS. counter (tasks m' ! i)
       = counter (tasks m ! i) + of_nat (fired l0 (task_hash_to_shm_idx tm) i k (length clocks))))"
  using assms(1,3-8)
proof (induction clocks arbitrary: k l tm ld m)
  case Nil
  then show ?case by (simp add: fired_def)
next
  case (Cons c clocks)
  obtain actual mono_ns where c: "c = (actual, mono_ns)" by fastforce
  obtain l1 tm1 ld1 where f: "fire_slot actual mono_ns l tm ld = (l1, tm1, ld1)" by (metis prod_cases3)
  let ?h = "se_task_id_hash (cl_slots l ! cl_next l)"
  have l1: "l1 = advance (record_jitter (actual - sint (target_ns l)) l)" and tm1: "tm1 = wake_task ?h tm"
    using fire_slot_simps [of actual mono_ns l tm ld] f by simp_all
  have "loop_target l0 (Suc k) \<le> loop_target l0 (k + length (c # clocks))"
    using assms(2) by (rule loop_target_mono) simp
  then have "loop_at l0 (Suc k) l1"
    unfolding l1 using Cons.prems(1,2) assms(2) by (intro loop_at_advance) (auto simp: slots_in_order_def)
  moreover obtain m1 where m1: "ttsched_shm tm1 = Some m1" "shm_ok m1"
    "\<forall>i<TIMPANI_MAX_TASKS. counter (tasks m1 ! i) = counter (tasks m ! i)
       + (if map_find ?h (task_hash_to_shm_idx tm) = Some i then 1 else 0)"
    using wake_task_counters [OF Cons.prems(5,6), of ?h] unfolding tm1 by blast
  moreover have "cpu_thread_loop clocks l1 tm1 ld1 = (l', tm', ld')"
    using Cons.prems(3,4,7) f by (simp add: c)
  ultimately have IH: "loop_at l0 (Suc k + length clocks) l' \<and> (\<exists>m'. ttsched_shm tm' = Some m' \<and>
      (\<forall>i<TIMPANI_MAX_TASKS. counter (tasks m' ! i)
         = counter (tasks m1 ! i) + of_nat (fired l0 (task_hash_to_shm_idx tm1) i (Suc k) (length clocks))))"
    using Cons.IH [of "Suc k" l1 tm1 m1 ld1] Cons.prems(2-4) by (simp add: tm1)
  have "?h = se_task_id_hash (cl_slots l0 ! (k mod length (cl_slots l0)))"
    using Cons.prems(1) by (simp add: loop_at_def)
  with IH m1(3) show ?case
    by (auto simp: fired_Suc tm1 add.assoc)
qed

text \<open>C24: Every slot fires, in order and at its time. While the timer runs and no table is pending, the
  thread is after \<open>n\<close> rounds at slot \<open>n mod m\<close> of its table in hyperperiod \<open>n div m\<close>; so each slot has
  fired once per hyperperiod. Each task's wake-up counter has gone up once for every round whose slot
  belongs to the task, and no other counter has changed.\<close>

theorem timer_fires_every_slot:
  assumes "cl_next l0 = 0" and "slots_in_order l0" and "loop_target l0 (length clocks) < 2 ^ 64"
    and "running_flag tm" and "\<not> table_pending tm" and "ttsched_shm tm = Some m" and "shm_ok m"
    and "cpu_thread_loop clocks l0 tm ld = (l', tm', ld')"
  shows "cl_next l' = length clocks mod length (cl_slots l0)
    \<and> unat (target_ns l') = loop_target l0 (length clocks)
    \<and> (\<exists>m'. ttsched_shm tm' = Some m' \<and> (\<forall>i<TIMPANI_MAX_TASKS. counter (tasks m' ! i)
         = counter (tasks m ! i) + of_nat (fired l0 (task_hash_to_shm_idx tm) i 0 (length clocks))))"
proof -
  have "loop_at l0 0 l0" using assms(1,2) by (simp add: loop_at_def slots_in_order_def)
  note r = cpu_thread_loop_rounds [OF this assms(2) _ assms(4-8)]
  have l': "loop_at l0 (length clocks) l'" using r assms(3) by simp
  then have "unat (target_ns l') = loop_target l0 (length clocks)" using assms(3) by (rule loop_at_target)
  with l' r assms(3) show ?thesis by (simp add: loop_at_def)
qed

definition demo_slots :: "SlotEntry list" where
  "demo_slots = [demo_entry, demo_entry\<lparr>se_slot_idx := 1, se_offset_ns := 5000, se_task_id_hash := 8\<rparr>]"

definition demo_loop :: cpu_loop where
  "demo_loop = \<lparr>cl_slots = demo_slots, cl_hyperperiod_ns = 10000, cl_next = 0, cl_start = 70000,
     cl_jitters = [], cl_reports = []\<rparr>"

lemma demo_loop_facts:
  "slots_in_order demo_loop" "loop_at demo_loop 0 demo_loop" "length (cl_slots demo_loop) = 2"
  by (simp_all add: slots_in_order_def demo_loop_def demo_slots_def demo_entry_def loop_at_def)

lemma demo_loop_targets:
  "loop_target demo_loop 0 = 70000" "loop_target demo_loop (Suc 0) = 75000"
  "loop_target demo_loop (Suc (Suc (Suc 0))) = 85000"
  by (simp_all add: loop_target_def demo_loop_facts) (simp_all add: demo_loop_def demo_slots_def demo_entry_def)

theorem fire_slot_publishes_next_witness:
  "\<exists>s'. skel (snd (snd (fire_slot 70001 500 demo_loop demo_timer
            (BpfLoader_init\<lparr>skel := Some (bpf_loaded 12)\<rparr>)))) = Some s' \<and> next_tt_start_map s' 2 = 5500"
  using fire_slot_publishes_next [OF demo_loop_facts(2,1), of "BpfLoader_init\<lparr>skel := Some (bpf_loaded 12)\<rparr>"
      "bpf_loaded 12" 70001 500 demo_timer] demo_loop_targets(1,2)
  by (auto simp: demo_loop_def demo_slots_def demo_entry_def MAX_CPUS_def)

theorem timer_fires_every_slot_witness:
  "cl_next (fst (cpu_thread_loop [(1, 1), (2, 2), (3, 3)] demo_loop (demo_timer\<lparr>running_flag := True\<rparr>) BpfLoader_init)) = 1"
proof -
  let ?tm = "demo_timer\<lparr>running_flag := True\<rparr>"
  obtain l' tm' ld' where r: "cpu_thread_loop [(1, 1), (2, 2), (3, 3)] demo_loop ?tm BpfLoader_init = (l', tm', ld')"
    by (metis prod_cases3)
  have "ttsched_shm ?tm = Some demo_ready" "shm_ok demo_ready"
    by (simp_all add: demo_timer_def demo_ready_def demo_shm_def shm_ok_def TIMPANI_MAX_TASKS_def)
  then show ?thesis
    using timer_fires_every_slot [OF _ demo_loop_facts(1) _ _ _ _ _ r, of demo_ready]
      demo_loop_facts(2,3) demo_loop_targets(3) r
    by (simp add: loop_at_def demo_timer_def TimerMaster_init_def)
qed

end
