(* ===== verification/Node_Config.thy ===== *)
theory Node_Config
  imports Std_Containers Std_String
begin

text \<open>
  The node configuration manager of \<open>timpani-o/src/node_config.cpp\<close>: a line-based reader of
  the YAML node file, the CPU lists in it, and the queries the scheduler makes. A file is the
  bytes read from it, or \<open>None\<close> when it cannot be opened. \<open>std::stoi\<close> on \<open>max_memory_mb\<close>
  throws out of the parser; the nodes saved before the bad line stay in the manager.
\<close>

section \<open>Data\<close>

record NodeConfig =
  nc_name :: string
  available_cpus :: "int list"
  max_memory_mb :: int
  architecture :: string
  location :: string
  description :: string

definition NodeConfig_init :: NodeConfig where
  "NodeConfig_init = \<lparr>nc_name = [], available_cpus = [], max_memory_mb = 4096, architecture = [],
     location = [], description = []\<rparr>"

record NodeConfigManager =
  ncm_nodes :: "(string, NodeConfig) std_map"
  ncm_loaded :: bool

definition NodeConfigManager_init :: NodeConfigManager where
  "NodeConfigManager_init = \<lparr>ncm_nodes = [], ncm_loaded = False\<rparr>"

definition GetDefaultNodeConfig :: NodeConfig where
  "GetDefaultNodeConfig = \<lparr>nc_name = ''default_node'', available_cpus = [0, 1, 2, 3],
     max_memory_mb = 4096, architecture = ''aarch64'', location = ''default_location'',
     description = ''Default node configuration''\<rparr>"

section \<open>The CPU list\<close>

text \<open>
  \<open>substr(1, length - 2)\<close> when the first and the last byte are the given delimiters. The bytes
  at both ends of an empty string are the terminator, which is no delimiter.
\<close>

definition strip_delims :: "char \<Rightarrow> char \<Rightarrow> string \<Rightarrow> string" where
  "strip_delims a z s =
     (if s \<noteq> [] \<and> hd s = a \<and> last s = z then take (length s - 2) (tl s) else s)"

fun cpu_tokens :: "string list \<Rightarrow> int list" where
  "cpu_tokens [] = []"
| "cpu_tokens (token # rest) =
     (let t = trim_by is_blank token
      in if t = [] then cpu_tokens rest
         else case stoi t of Inl _ \<Rightarrow> cpu_tokens rest | Inr cpu_id \<Rightarrow> cpu_id # cpu_tokens rest)"

definition ParseCpuList :: "string \<Rightarrow> int list" where
  "ParseCpuList cpu_str = cpu_tokens (getlines (CHR '','') (strip_delims (CHR ''['') (CHR '']'') cpu_str))"

section \<open>The node section\<close>

record parse_state =
  ps_nodes :: "(string, NodeConfig) std_map"
  current_node :: string
  current_config :: NodeConfig
  in_nodes_section :: bool
  in_node_definition :: bool

definition save_node :: "parse_state \<Rightarrow> parse_state" where
  "save_node st =
     (if in_node_definition st \<and> current_node st \<noteq> []
      then let c = (current_config st)\<lparr>nc_name := current_node st\<rparr>
           in st\<lparr>current_config := c, ps_nodes := map_put (current_node st) c (ps_nodes st)\<rparr>
      else st)"

definition set_property :: "string \<Rightarrow> string \<Rightarrow> NodeConfig \<Rightarrow> std_exn + NodeConfig" where
  "set_property key val c =
     (if key = ''available_cpus'' then Inr (c\<lparr>available_cpus := ParseCpuList val\<rparr>)
      else if key = ''max_memory_mb'' then
        (case stoi val of Inl e \<Rightarrow> Inl e | Inr v \<Rightarrow> Inr (c\<lparr>max_memory_mb := v\<rparr>))
      else if key = ''architecture'' then Inr (c\<lparr>architecture := val\<rparr>)
      else if key = ''location'' then Inr (c\<lparr>location := val\<rparr>)
      else if key = ''description'' then Inr (c\<lparr>description := val\<rparr>)
      else Inr c)"

definition unquote :: "string \<Rightarrow> string" where
  "unquote val =
     (if val \<noteq> [] \<and> (hd val = CHR 0x22 \<and> last val = CHR 0x22 \<or> hd val = CHR 0x27 \<and> last val = CHR 0x27)
      then take (length val - 2) (tl val) else val)"

text \<open>One round of the loop; the exception, if one is thrown, and the state it leaves.\<close>

definition parse_line :: "string \<Rightarrow> parse_state \<Rightarrow> std_exn option \<times> parse_state" where
  "parse_line original_line st =
     (let line = trim_by is_blank original_line in
      if line = [] \<or> hd line = CHR ''#'' then (None, st)
      else if line = ''nodes:'' then (None, st\<lparr>in_nodes_section := True\<rparr>)
      else if \<not> in_nodes_section st then (None, st)
      else if starts_with ''  '' original_line \<and> CHR '':'' \<in> set line \<and> \<not> starts_with ''    '' original_line then
        (None, (save_node st)\<lparr>current_node := takeWhile (\<lambda>c. c \<noteq> CHR '':'') line,
                 current_config := NodeConfig_init, in_node_definition := True\<rparr>)
      else if \<not> in_node_definition st then (None, st)
      else if starts_with ''    '' original_line \<and> CHR '':'' \<in> set line then
        (let key = takeWhile (\<lambda>c. c \<noteq> CHR '':'') line;
             val = unquote (trim_by is_blank (tl (dropWhile (\<lambda>c. c \<noteq> CHR '':'') line)))
         in case set_property key val (current_config st) of
              Inl e \<Rightarrow> (Some e, st)
            | Inr c \<Rightarrow> (None, st\<lparr>current_config := c\<rparr>))
      else (None, st))"

fun parse_lines :: "string list \<Rightarrow> parse_state \<Rightarrow> std_exn option \<times> parse_state" where
  "parse_lines [] st = (None, st)"
| "parse_lines (l # ls) st =
     (case parse_line l st of (Some e, st') \<Rightarrow> (Some e, st') | (None, st') \<Rightarrow> parse_lines ls st')"

definition ParseNodeSection ::
  "string \<Rightarrow> (string, NodeConfig) std_map \<Rightarrow> std_exn option \<times> (string, NodeConfig) std_map" where
  "ParseNodeSection yaml_content nodes =
     (case parse_lines (getlines (CHR 0x0A) yaml_content)
             \<lparr>ps_nodes = nodes, current_node = [], current_config = NodeConfig_init,
              in_nodes_section = False, in_node_definition = False\<rparr> of
        (Some e, st) \<Rightarrow> (Some e, ps_nodes st)
      | (None, st) \<Rightarrow> (None, ps_nodes (save_node st)))"

section \<open>The manager\<close>

text \<open>The result is the returned flag, or the exception that leaves the function.\<close>

definition LoadFromFile :: "string option \<Rightarrow> NodeConfigManager \<Rightarrow> (std_exn + bool) \<times> NodeConfigManager" where
  "LoadFromFile file m =
     (case file of
        None \<Rightarrow> (Inr False, m\<lparr>ncm_nodes := [], ncm_loaded := False\<rparr>)
      | Some content \<Rightarrow>
          (case ParseNodeSection content [] of
             (Some e, nodes) \<Rightarrow> (Inl e, m\<lparr>ncm_nodes := nodes, ncm_loaded := False\<rparr>)
           | (None, nodes) \<Rightarrow>
               (Inr True,
                m\<lparr>ncm_nodes := (if nodes = [] then map_put ''default_node'' GetDefaultNodeConfig nodes else nodes),
                  ncm_loaded := True\<rparr>)))"

definition GetNodeConfig :: "NodeConfigManager \<Rightarrow> string \<Rightarrow> NodeConfig option" where
  "GetNodeConfig m node_name = map_find node_name (ncm_nodes m)"

definition GetAvailableCpus :: "NodeConfigManager \<Rightarrow> string \<Rightarrow> int list" where
  "GetAvailableCpus m node_name =
     (case GetNodeConfig m node_name of Some c \<Rightarrow> available_cpus c | None \<Rightarrow> [0, 1, 2, 3])"

end
