(* ===== verification/Messages.thy ===== *)
theory Messages
  imports Prelude
begin

text \<open>
  The protocol messages the two daemons exchange, from \<open>timpani-o/proto/node_control.proto\<close> and
  \<open>timpani-o/proto/schedinfo.proto\<close>: one record per message with the fields in proto order and a
  datatype per closed choice. A scalar field that is not set reads as zero. Enumerations of
  proto3 are open, so a received enumeration value is the 32-bit integer on the wire.
\<close>

record TtSlot =
  tt_workload_id :: string
  tt_task_id :: string
  tt_offset_us :: u32
  tt_duration_us :: u32
  tt_deadline_us :: u32
  tt_cpu :: u32
  tt_workload_id_hash :: u64
  tt_task_id_hash :: u64
  tt_current_limit :: u32

record CbsConfig =
  cbs_workload_id :: string
  cbs_task_id :: string
  cbs_budget_us :: u32
  cbs_period_us :: u32
  cbs_deadline_us :: u32
  cbs_workload_id_hash :: u64
  cbs_task_id_hash :: u64
  cbs_current_limit :: u32

datatype ExecutionModel = TIME_TRIGGERED | EVENT_DRIVEN | DATA_FLOW

record LayerConfig =
  layer_index :: int
  layer_model :: ExecutionModel
  tt_slots :: "TtSlot list"
  cbs_entries :: "CbsConfig list"

record CpuSetSpec =
  cpus :: "u32 list"
  isolated :: bool

record PartitionConfig =
  partition_id :: string
  cpuset :: CpuSetSpec
  layers :: "LayerConfig list"

record HierarchicalScheduleTable =
  table_id :: string
  table_node_id :: string
  hyperperiod_us :: u32
  epoch_ns :: u64
  partitions :: "PartitionConfig list"

section \<open>Events of a node and commands to it\<close>

definition UNKNOWN :: i32 where "UNKNOWN = 0"
definition DMISS :: i32 where "DMISS = 1"
definition BUDGET_EXCEED :: i32 where "BUDGET_EXCEED = 2"
definition WATCHDOG :: i32 where "WATCHDOG = 3"

record NodeReady =
  rd_cpu_count :: u32
  rd_memory_mb :: u32
  rd_kernel_version :: string
  rd_preempt_rt :: bool
  rd_sched_ext :: bool

record FaultInfo =
  fi_workload_id :: string
  fi_task_id :: string
  fi_node_id :: string
  fi_fault_type :: i32
  fi_timestamp_ns :: u64
  fi_dmiss_count :: u32
  fi_workload_id_hash :: u64
  fi_task_id_hash :: u64
  fi_current_limit :: u32

definition FaultInfo_init :: FaultInfo where
  "FaultInfo_init = \<lparr>fi_workload_id = [], fi_task_id = [], fi_node_id = [], fi_fault_type = 0,
     fi_timestamp_ns = 0, fi_dmiss_count = 0, fi_workload_id_hash = 0, fi_task_id_hash = 0, fi_current_limit = 0\<rparr>"

record TableApplied =
  ta_table_id :: string
  ta_success :: bool
  ta_error :: string

text \<open>Of a \<open>NodeStatus\<close> only the number of active workloads is ever set.\<close>

datatype event = Ready NodeReady | Status u32 | Fault FaultInfo | Applied TableApplied | No_event

record NodeEvent =
  ev_node_id :: string
  ev_event :: event

record RecoverySignal =
  rs_workload_id :: string
  rs_action :: i32

definition ACTION_STOP :: i32 where "ACTION_STOP = 0"
definition ACTION_RESTART :: i32 where "ACTION_RESTART = 1"

datatype ControlCommand =
    Full_table HierarchicalScheduleTable
  | Update_table string
  | Shutdown u32
  | Recovery RecoverySignal
  | No_command

section \<open>Requests to the orchestrator\<close>

record TaskInfo =
  ti_name :: string
  ti_priority :: i32
  ti_policy :: i32
  ti_cpu_affinity :: u64
  ti_period :: i32
  ti_release_time :: i32
  ti_runtime :: i32
  ti_deadline :: i32
  ti_node_id :: string
  ti_max_dmiss :: i32

record SchedInfo =
  si_workload_id :: string
  si_tasks :: "TaskInfo list"
  si_temporal_class :: i32

end
