(* ===== verification/Global_Scheduler.thy ===== *)
theory Global_Scheduler
  imports Node_Config Messages
begin

text \<open>
  The schedule generator of \<open>timpani-o/src/global_scheduler.cpp\<close>: CPU assignment, placement of
  the time-triggered slots, gaps, budgets of the constant-bandwidth servers and the table sent
  to a node. An infeasible task set is the left summand. Offsets and lengths are 32-bit words
  with the wrap-around of the code; utilisations are the doubles of \<open>Std_Double\<close>.
\<close>

section \<open>Data\<close>

datatype Mechanism = TT | CBS

record ClassifiedTask =
  ct_workload_id :: string
  ct_task_id :: string
  ct_mechanism :: Mechanism
  ct_period_us :: u32
  ct_wcet_us :: u32
  ct_deadline_us :: u32
  ct_max_dmiss :: u32
  ct_assigned_cpu :: int

record TtSlotPlacement =
  sp_workload_id :: string
  sp_task_id :: string
  sp_offset_us :: u32
  sp_duration_us :: u32
  sp_deadline_us :: u32
  sp_max_dmiss :: u32
  sp_cpu :: int

record GapInterval =
  gap_start_us :: u32
  gap_end_us :: u32
  gap_length_us :: u32

record CbsAllocation =
  ca_workload_id :: string
  ca_task_id :: string
  ca_budget_us :: u32
  ca_period_us :: u32
  ca_deadline_us :: u32
  ca_max_dmiss :: u32
  ca_cpu :: int

datatype InfeasibleReason =
    NonHarmonicPeriod | TtSlotConflict | NoCbsBandwidth | SafetyCbsExceeded | NoCbsCpu
  | UtilizationExceeded

record InfeasibleError =
  ie_reason :: InfeasibleReason
  ie_cpu :: int
  ie_task_id :: string
  ie_details :: string

definition mk_error :: "InfeasibleReason \<Rightarrow> int \<Rightarrow> string \<Rightarrow> string \<Rightarrow> InfeasibleError" where
  "mk_error r c t d = \<lparr>ie_reason = r, ie_cpu = c, ie_task_id = t, ie_details = d\<rparr>"

record PerCpuSchedule =
  pcs_cpu_id :: int
  pcs_tt_slots :: "TtSlotPlacement list"
  pcs_gaps :: "GapInterval list"
  pcs_cbs_allocations :: "CbsAllocation list"
  pcs_u_tt :: double
  pcs_u_cbs :: double

definition PerCpuSchedule_init :: "int \<Rightarrow> PerCpuSchedule" where
  "PerCpuSchedule_init cpu = \<lparr>pcs_cpu_id = cpu, pcs_tt_slots = [], pcs_gaps = [],
     pcs_cbs_allocations = [], pcs_u_tt = 0, pcs_u_cbs = 0\<rparr>"

definition U_OVERHEAD :: double where
  "U_OVERHEAD = fl (2 / 100)"

definition U_BOUND :: double where
  "U_BOUND = fl (80 / 100)"

section \<open>Arithmetic\<close>

function gcd_u64 :: "u64 \<Rightarrow> u64 \<Rightarrow> u64" where
  "gcd_u64 a b = (if b = 0 then a else gcd_u64 b (a mod b))"
  by auto
termination
  by (relation "measure (\<lambda>(a, b). unat b)")
    (auto simp: unat_mod word_neq_0_conv unat_gt_0 intro!: mod_less_divisor)

declare gcd_u64.simps [simp del]

definition lcm_u64 :: "u64 \<Rightarrow> u64 \<Rightarrow> u64" where
  "lcm_u64 a b = (if a = 0 \<or> b = 0 then 0 else (a div gcd_u64 a b) * b)"

definition calculate_hyperperiod :: "u64 list \<Rightarrow> u64" where
  "calculate_hyperperiod periods =
     (case periods of [] \<Rightarrow> 0 | p # ps \<Rightarrow> foldl lcm_u64 p ps)"

definition validate_harmonic :: "u64 list \<Rightarrow> bool" where
  "validate_harmonic periods =
     (if length periods \<le> 1 then True
      else let sorted = std_sort (<) (set_insert_all periods [])
           in sorted_wrt (\<lambda>x y. y mod x = 0) sorted)"

definition fnv1a_hash :: "string \<Rightarrow> u64" where
  "fnv1a_hash s =
     foldl (\<lambda>h c. (h XOR word_of_nat (chr_code c)) * 1099511628211) 14695981039346656037 (c_str s)"

definition utilization :: "ClassifiedTask \<Rightarrow> double" where
  "utilization t =
     (if 0 < ct_period_us t then fdiv (of_nat (unat (ct_wcet_us t))) (of_nat (unat (ct_period_us t))) else 0)"

section \<open>CPU assignment\<close>

definition isolated_cpus :: "NodeConfigManager option \<Rightarrow> string \<Rightarrow> int list" where
  "isolated_cpus mgr node_id =
     (let available = (case mgr of Some m \<Rightarrow> if ncm_loaded m then GetAvailableCpus m node_id else [] | None \<Rightarrow> [])
      in std_sort (<) (if available = [] then [2, 3] else available))"

definition tt_workload_groups :: "ClassifiedTask list \<Rightarrow> (string, nat list) std_map" where
  "tt_workload_groups tt_tasks =
     foldl (\<lambda>m i. map_modify [] (\<lambda>is. is @ [i]) (ct_workload_id (tt_tasks ! i)) m) [] [0..<length tt_tasks]"

text \<open>The inner loop over the tasks of one workload, and the loop over the workloads.\<close>

fun assign_group :: "int \<Rightarrow> nat list \<Rightarrow> double \<Rightarrow> ClassifiedTask list \<Rightarrow> double \<times> ClassifiedTask list" where
  "assign_group cpu [] wl_util tasks = (wl_util, tasks)"
| "assign_group cpu (idx # is) wl_util tasks =
     (let t = (tasks ! idx)\<lparr>ct_assigned_cpu := cpu\<rparr>
      in assign_group cpu is (if 0 < ct_period_us t then fadd wl_util (utilization t) else wl_util)
           (tasks[idx := t]))"

fun assign_tt ::
  "int list \<Rightarrow> (string, nat list) std_map \<Rightarrow> nat \<Rightarrow> ClassifiedTask list \<Rightarrow> (int, PerCpuSchedule) std_map
   \<Rightarrow> ClassifiedTask list \<times> (int, PerCpuSchedule) std_map" where
  "assign_tt available [] cpu_idx tasks scheds = (tasks, scheds)"
| "assign_tt available ((wl_id, task_indices) # groups) cpu_idx tasks scheds =
     (let cpu_idx' = (if length available \<le> cpu_idx then length available - 1 else cpu_idx);
          cpu = available ! cpu_idx';
          (wl_util, tasks') = assign_group cpu task_indices 0 tasks;
          scheds' = map_modify (PerCpuSchedule_init (-1)) (\<lambda>s. s\<lparr>pcs_u_tt := fadd (pcs_u_tt s) wl_util\<rparr>) cpu scheds
      in assign_tt available groups (cpu_idx' + 1) tasks' scheds')"

definition residual :: "(int, PerCpuSchedule) std_map \<Rightarrow> int \<Rightarrow> double" where
  "residual scheds cpu =
     (let s = map_at (PerCpuSchedule_init (-1)) cpu scheds
      in fsub (fsub (fsub U_BOUND (pcs_u_tt s)) (pcs_u_cbs s)) U_OVERHEAD)"

fun best_fit ::
  "(int, PerCpuSchedule) std_map \<Rightarrow> double \<Rightarrow> int list \<Rightarrow> int \<Rightarrow> double \<Rightarrow> int" where
  "best_fit scheds us [] best_cpu best_residual = best_cpu"
| "best_fit scheds us (cpu # cs) best_cpu best_residual =
     (let r = residual scheds cpu
      in if us \<le> r \<and> best_residual < r then best_fit scheds us cs cpu r
         else best_fit scheds us cs best_cpu best_residual)"

fun assign_cbs ::
  "int list \<Rightarrow> nat list \<Rightarrow> ClassifiedTask list \<Rightarrow> (int, PerCpuSchedule) std_map
   \<Rightarrow> (ClassifiedTask list \<times> (int, PerCpuSchedule) std_map) option" where
  "assign_cbs available [] tasks scheds = Some (tasks, scheds)"
| "assign_cbs available (idx # is) tasks scheds =
     (let us = utilization (tasks ! idx);
          best_cpu = best_fit scheds us available (-1) (-1)
      in if best_cpu < 0 then None
         else assign_cbs available is (tasks[idx := (tasks ! idx)\<lparr>ct_assigned_cpu := best_cpu\<rparr>])
                (map_modify (PerCpuSchedule_init (-1)) (\<lambda>s. s\<lparr>pcs_u_cbs := fadd (pcs_u_cbs s) us\<rparr>) best_cpu scheds))"

text \<open>\<open>None\<close> is the return value \<open>false\<close>; otherwise the three containers the code updates.\<close>

definition assign_cpus ::
  "NodeConfigManager option \<Rightarrow> string \<Rightarrow> ClassifiedTask list \<Rightarrow> ClassifiedTask list
   \<Rightarrow> (ClassifiedTask list \<times> ClassifiedTask list \<times> (int, PerCpuSchedule) std_map) option" where
  "assign_cpus mgr node_id tt_tasks cbs_tasks =
     (let available = isolated_cpus mgr node_id;
          scheds = foldl (\<lambda>m cpu. map_put cpu (PerCpuSchedule_init cpu) m) [] available;
          (tt_tasks', scheds') = assign_tt available (tt_workload_groups tt_tasks) 0 tt_tasks scheds;
          cbs_indices = std_sort (\<lambda>a b. utilization (cbs_tasks ! b) < utilization (cbs_tasks ! a)) [0..<length cbs_tasks]
      in map_option (\<lambda>(cbs_tasks', scheds''). (tt_tasks', cbs_tasks', scheds''))
           (assign_cbs available cbs_indices cbs_tasks scheds'))"

section \<open>Placement of the time-triggered slots\<close>

record interval =
  iv_start :: u32
  iv_end :: u32

definition find_conflict :: "interval list \<Rightarrow> u32 \<Rightarrow> u32 \<Rightarrow> interval option" where
  "find_conflict occupied candidate duration =
     List.find (\<lambda>occ. candidate < iv_end occ \<and> iv_start occ < candidate + duration) occupied"

function find_free_slot :: "interval list \<Rightarrow> u32 \<Rightarrow> u32 \<Rightarrow> u32 \<Rightarrow> i32" where
  "find_free_slot occupied candidate duration deadline_end =
     (if candidate + duration \<le> deadline_end then
        (case find_conflict occupied candidate duration of
           None \<Rightarrow> candidate
         | Some occ \<Rightarrow> find_free_slot occupied (iv_end occ) duration deadline_end)
      else - 1)"
  by auto
termination
proof (relation "measure (\<lambda>(occupied, candidate, duration, deadline_end). 4294967296 - unat candidate)")
  fix occupied :: "interval list" and candidate duration deadline_end occ
  assume "find_conflict occupied candidate duration = Some occ"
  then have "unat candidate < unat (iv_end occ)"
    by (auto simp: find_conflict_def find_Some_iff word_less_nat_alt)
  then show "((occupied, iv_end occ, duration, deadline_end), (occupied, candidate, duration, deadline_end))
      \<in> measure (\<lambda>(occupied, candidate, duration, deadline_end). 4294967296 - unat candidate)"
    using unat_bound32 [of "iv_end occ"] by simp
qed simp

text \<open>The same loop with a bound on its turns; \<open>None\<close> stands for a loop that is still running.\<close>

fun find_free_slot_turns :: "nat \<Rightarrow> interval list \<Rightarrow> u32 \<Rightarrow> u32 \<Rightarrow> u32 \<Rightarrow> i32 option" where
  "find_free_slot_turns 0 occupied candidate duration deadline_end = None"
| "find_free_slot_turns (Suc turns) occupied candidate duration deadline_end =
     (if candidate + duration \<le> deadline_end then
        (case find_conflict occupied candidate duration of
           None \<Rightarrow> Some candidate
         | Some occ \<Rightarrow> find_free_slot_turns turns occupied (iv_end occ) duration deadline_end)
      else Some (- 1))"

declare find_free_slot.simps [simp del]

text \<open>The frames of one task; \<open>n\<close> is the number of repeats left and \<open>k\<close> the index of the next.\<close>

definition frame_bounds :: "u64 \<Rightarrow> ClassifiedTask \<Rightarrow> u64 \<Rightarrow> u32 \<times> u32" where
  "frame_bounds hyperperiod task k =
     (let frame_start = ucast (k * ucast (ct_period_us task));
          frame_end = frame_start + ct_deadline_us task
      in (frame_start, if hyperperiod < ucast frame_end then ucast hyperperiod else frame_end))"

fun place_frames ::
  "int \<Rightarrow> u64 \<Rightarrow> ClassifiedTask \<Rightarrow> nat \<Rightarrow> u64 \<Rightarrow> TtSlotPlacement list \<times> interval list
   \<Rightarrow> InfeasibleError + TtSlotPlacement list \<times> interval list" where
  "place_frames cpu hyperperiod task 0 k st = Inr st"
| "place_frames cpu hyperperiod task (Suc n) k (slots, occupied) =
     (let (frame_start, frame_end) = frame_bounds hyperperiod task k;
          offset = find_free_slot occupied frame_start (ct_wcet_us task) frame_end
      in if sint offset < 0 then
           Inl (mk_error TtSlotConflict cpu (ct_task_id task)
             (''TT slot conflict in frame ['' @ nat_to_string (unat frame_start) @ '', '' @
              nat_to_string (unat frame_end) @ '') on CPU '' @ int_to_string cpu))
         else place_frames cpu hyperperiod task n (k + 1)
           (slots @ [\<lparr>sp_workload_id = ct_workload_id task, sp_task_id = ct_task_id task, sp_offset_us = offset,
                     sp_duration_us = ct_wcet_us task, sp_deadline_us = ct_deadline_us task,
                     sp_max_dmiss = ct_max_dmiss task, sp_cpu = cpu\<rparr>],
            occupied @ [\<lparr>iv_start = offset, iv_end = offset + ct_wcet_us task\<rparr>]))"

fun place_tasks ::
  "int \<Rightarrow> u64 \<Rightarrow> ClassifiedTask list \<Rightarrow> TtSlotPlacement list \<times> interval list
   \<Rightarrow> InfeasibleError + TtSlotPlacement list \<times> interval list" where
  "place_tasks cpu hyperperiod [] st = Inr st"
| "place_tasks cpu hyperperiod (task # tasks) st =
     (if ct_period_us task = 0 then place_tasks cpu hyperperiod tasks st
      else bindE (place_frames cpu hyperperiod task (unat (hyperperiod div ucast (ct_period_us task))) 0 st)
             (place_tasks cpu hyperperiod tasks))"

definition place_tt_slots ::
  "int \<Rightarrow> ClassifiedTask list \<Rightarrow> u64 \<Rightarrow> PerCpuSchedule \<Rightarrow> InfeasibleError + PerCpuSchedule" where
  "place_tt_slots cpu tasks hyperperiod schedule =
     (if hyperperiod = 0 then Inl (mk_error TtSlotConflict cpu [] ''Hyperperiod is zero'')
      else bindE (place_tasks cpu hyperperiod (std_sort (\<lambda>a b. ct_deadline_us a < ct_deadline_us b) tasks)
                   (pcs_tt_slots schedule, []))
             (\<lambda>(slots, _). Inr (schedule\<lparr>pcs_tt_slots :=
                std_sort (\<lambda>a b. sp_offset_us a < sp_offset_us b) slots\<rparr>)))"

section \<open>Gaps and budgets\<close>

fun gaps_from :: "u32 \<Rightarrow> TtSlotPlacement list \<Rightarrow> u64 \<Rightarrow> GapInterval list" where
  "gaps_from cursor [] hyperperiod =
     (if cursor < ucast hyperperiod
      then [\<lparr>gap_start_us = cursor, gap_end_us = ucast hyperperiod, gap_length_us = ucast hyperperiod - cursor\<rparr>]
      else [])"
| "gaps_from cursor (slot # slots) hyperperiod =
     (let slot_end = sp_offset_us slot + sp_duration_us slot;
          rest = gaps_from (if cursor < slot_end then slot_end else cursor) slots hyperperiod
      in if cursor < sp_offset_us slot
         then \<lparr>gap_start_us = cursor, gap_end_us = sp_offset_us slot,
               gap_length_us = sp_offset_us slot - cursor\<rparr> # rest
         else rest)"

definition compute_gaps :: "TtSlotPlacement list \<Rightarrow> u64 \<Rightarrow> GapInterval list" where
  "compute_gaps slots hyperperiod = gaps_from 0 slots hyperperiod"

fun allocate_loop ::
  "int \<Rightarrow> double \<Rightarrow> ClassifiedTask list \<Rightarrow> double \<Rightarrow> CbsAllocation list
   \<Rightarrow> InfeasibleError + double \<times> CbsAllocation list" where
  "allocate_loop cpu u_avail [] u_alloc allocs = Inr (u_alloc, allocs)"
| "allocate_loop cpu u_avail (task # tasks) u_alloc allocs =
     (let us = utilization task
      in if u_avail < fadd u_alloc us then
           Inl (mk_error SafetyCbsExceeded cpu (ct_task_id task)
             (''CBS task '' @ [CHR 0x27] @ ct_task_id task @ [CHR 0x27] @ '' requires U_s='' @ double_to_string us @
              '' but only '' @ double_to_string (fsub u_avail u_alloc) @ '' available on CPU '' @ int_to_string cpu))
         else allocate_loop cpu u_avail tasks (fadd u_alloc us)
           (allocs @ [\<lparr>ca_workload_id = ct_workload_id task, ca_task_id = ct_task_id task,
              ca_budget_us = ct_wcet_us task, ca_period_us = ct_period_us task,
              ca_deadline_us = ct_deadline_us task, ca_max_dmiss = ct_max_dmiss task, ca_cpu = cpu\<rparr>]))"

text \<open>The check of the smallest gap only writes a log line.\<close>

definition allocate_cbs_budgets ::
  "int \<Rightarrow> ClassifiedTask list \<Rightarrow> double \<Rightarrow> PerCpuSchedule \<Rightarrow> InfeasibleError + PerCpuSchedule" where
  "allocate_cbs_budgets cpu cbs_tasks u_tt schedule =
     (let u_avail = fsub (fsub U_BOUND u_tt) U_OVERHEAD
      in if u_avail \<le> 0 then
           Inl (mk_error NoCbsBandwidth cpu []
             (''No residual bandwidth on CPU '' @ int_to_string cpu @ '' (U_tt='' @ double_to_string u_tt @ '')''))
         else bindE (allocate_loop cpu u_avail (std_sort (\<lambda>a b. utilization b < utilization a) cbs_tasks) 0
                       (pcs_cbs_allocations schedule))
                (\<lambda>(u_alloc, allocs). Inr (schedule\<lparr>pcs_cbs_allocations := allocs, pcs_u_cbs := u_alloc\<rparr>)))"

section \<open>The table\<close>

definition mk_tt_slot :: "TtSlotPlacement \<Rightarrow> TtSlot" where
  "mk_tt_slot slot = \<lparr>tt_workload_id = sp_workload_id slot, tt_task_id = sp_task_id slot,
     tt_offset_us = sp_offset_us slot, tt_duration_us = sp_duration_us slot, tt_deadline_us = sp_deadline_us slot,
     tt_cpu = word_of_int (sp_cpu slot), tt_workload_id_hash = fnv1a_hash (sp_workload_id slot),
     tt_task_id_hash = fnv1a_hash (sp_task_id slot), tt_current_limit = sp_max_dmiss slot\<rparr>"

definition mk_cbs_entry :: "CbsAllocation \<Rightarrow> CbsConfig" where
  "mk_cbs_entry a = \<lparr>cbs_workload_id = ca_workload_id a, cbs_task_id = ca_task_id a,
     cbs_budget_us = ca_budget_us a, cbs_period_us = ca_period_us a, cbs_deadline_us = ca_deadline_us a,
     cbs_workload_id_hash = fnv1a_hash (ca_workload_id a), cbs_task_id_hash = fnv1a_hash (ca_task_id a),
     cbs_current_limit = ca_max_dmiss a\<rparr>"

definition mk_partition :: "int \<Rightarrow> PerCpuSchedule \<Rightarrow> PartitionConfig" where
  "mk_partition cpu_id sched = \<lparr>partition_id = ''isolated-'' @ int_to_string cpu_id,
     cpuset = \<lparr>cpus = [word_of_int cpu_id], isolated = True\<rparr>,
     layers = [\<lparr>layer_index = 1, layer_model = TIME_TRIGGERED,
                tt_slots = map mk_tt_slot (pcs_tt_slots sched),
                cbs_entries = map mk_cbs_entry (pcs_cbs_allocations sched)\<rparr>]\<rparr>"

definition build_table ::
  "u64 \<Rightarrow> string \<Rightarrow> (int, PerCpuSchedule) std_map \<Rightarrow> u64 \<Rightarrow> HierarchicalScheduleTable" where
  "build_table now_ns node_id scheds hyperperiod =
     \<lparr>table_id = ''table_v1'', table_node_id = node_id, hyperperiod_us = ucast hyperperiod, epoch_ns = now_ns,
      partitions = map (\<lambda>(cpu_id, sched). mk_partition cpu_id sched)
        (filter (\<lambda>(_, sched). \<not> (pcs_tt_slots sched = [] \<and> pcs_cbs_allocations sched = [])) scheds)\<rparr>"

section \<open>The pipeline\<close>

definition positive_periods :: "ClassifiedTask list \<Rightarrow> u64 list" where
  "positive_periods tasks = map (\<lambda>t. ucast (ct_period_us t)) (filter (\<lambda>t. 0 < ct_period_us t) tasks)"

definition on_cpu :: "int \<Rightarrow> ClassifiedTask list \<Rightarrow> ClassifiedTask list" where
  "on_cpu cpu tasks = filter (\<lambda>t. ct_assigned_cpu t = cpu) tasks"

definition place_cpu :: "ClassifiedTask list \<Rightarrow> int \<Rightarrow> PerCpuSchedule \<Rightarrow> InfeasibleError + PerCpuSchedule" where
  "place_cpu tt_tasks cpu_id sched =
     (let cpu_tt = on_cpu cpu_id tt_tasks; periods = positive_periods cpu_tt
      in if cpu_tt = [] then Inr sched
         else if \<not> validate_harmonic periods then
           Inl (mk_error NonHarmonicPeriod cpu_id []
             (''Non-harmonic periods on CPU '' @ int_to_string cpu_id @ '':'' @
              concat (map (\<lambda>p. '' '' @ nat_to_string (unat p)) periods)))
         else place_tt_slots cpu_id cpu_tt (calculate_hyperperiod periods) sched)"

definition allocate_cpu ::
  "ClassifiedTask list \<Rightarrow> u64 \<Rightarrow> int \<Rightarrow> PerCpuSchedule \<Rightarrow> InfeasibleError + PerCpuSchedule" where
  "allocate_cpu cbs_tasks global_hp cpu_id sched =
     (let hp_us = (if global_hp = 0 then 10000 else global_hp);
          sched' = sched\<lparr>pcs_gaps := compute_gaps (pcs_tt_slots sched) hp_us\<rparr>;
          cpu_cbs = on_cpu cpu_id cbs_tasks
      in if cpu_cbs = [] then Inr sched'
         else allocate_cbs_budgets cpu_id cpu_cbs (pcs_u_tt sched') sched')"

text \<open>\<open>for (auto& [cpu_id, sched] : cpu_schedules)\<close> with an early return of the error.\<close>

fun for_each_cpu ::
  "(int \<Rightarrow> PerCpuSchedule \<Rightarrow> InfeasibleError + PerCpuSchedule) \<Rightarrow> (int, PerCpuSchedule) std_map
   \<Rightarrow> InfeasibleError + (int, PerCpuSchedule) std_map" where
  "for_each_cpu f [] = Inr []"
| "for_each_cpu f ((cpu_id, sched) # rest) =
     bindE (f cpu_id sched) (\<lambda>sched'. bindE (for_each_cpu f rest) (\<lambda>rest'. Inr ((cpu_id, sched') # rest')))"

definition assign_error :: "string \<Rightarrow> InfeasibleError" where
  "assign_error node_id = mk_error UtilizationExceeded (-1) []
     (''CPU assignment failed '' @ [CHR 0xE2, CHR 0x80, CHR 0x94] @
      '' no isolated CPUs available for node '' @ [CHR 0x27] @ node_id @ [CHR 0x27])"

definition generate_schedule ::
  "NodeConfigManager option \<Rightarrow> u64 \<Rightarrow> string \<Rightarrow> ClassifiedTask list
   \<Rightarrow> InfeasibleError + HierarchicalScheduleTable" where
  "generate_schedule mgr now_ns node_id tasks =
     (if tasks = [] then Inr (build_table now_ns node_id [] 10000)
      else
        let tt_tasks = filter (\<lambda>t. ct_mechanism t = TT) tasks;
            cbs_tasks = filter (\<lambda>t. ct_mechanism t \<noteq> TT) tasks
        in case assign_cpus mgr node_id tt_tasks cbs_tasks of
             None \<Rightarrow> Inl (assign_error node_id)
           | Some (tt_tasks', cbs_tasks', scheds) \<Rightarrow>
               bindE (for_each_cpu (place_cpu tt_tasks') scheds) (\<lambda>placed.
                 let all_periods = positive_periods tt_tasks';
                     global_hp = (if all_periods = [] then 0 else calculate_hyperperiod all_periods)
                 in bindE (for_each_cpu (allocate_cpu cbs_tasks' global_hp) placed) (\<lambda>allocated.
                      Inr (build_table now_ns node_id allocated global_hp))))"

end
