(* ===== verification/Scheduler_Arith.thy ===== *)
theory Scheduler_Arith
  imports Global_Scheduler
begin

text \<open>
  The arithmetic of the scheduler: Euclid's algorithm and the least common multiple on 64-bit
  words, the hyperperiod, and the harmonic test.
\<close>

lemma gcd_u64_eq: "unat (gcd_u64 a b) = gcd (unat a) (unat b)"
proof (induction a b rule: gcd_u64.induct)
  case (1 a b)
  show ?case
  proof (cases "b = 0")
    case True
    then show ?thesis by (simp add: gcd_u64.simps)
  next
    case False
    then have "unat (gcd_u64 a b) = gcd (unat b) (unat a mod unat b)"
      using 1 by (simp add: gcd_u64.simps [of a b] unat_mod)
    also have "\<dots> = gcd (unat a) (unat b)"
      by (metis gcd_red_nat gcd.commute)
    finally show ?thesis .
  qed
qed

lemma lcm_u64_eq:
  assumes "lcm (unat a) (unat b) < 2 ^ 64"
  shows "unat (lcm_u64 a b) = lcm (unat a) (unat b)"
proof (cases "a = 0 \<or> b = 0")
  case False
  have q: "unat (a div gcd_u64 a b) = unat a div gcd (unat a) (unat b)"
    by (simp add: unat_div gcd_u64_eq)
  have "lcm (unat a) (unat b) = unat a div gcd (unat a) (unat b) * unat b"
    by (simp add: lcm_nat_def dvd_div_mult)
  with False assms q show ?thesis
    by (simp add: lcm_u64_def unat_mult_small)
qed (auto simp: lcm_u64_def)

lemma foldl_lcm_u64:
  assumes "lcm (unat p) (Lcm (unat ` set ps)) < 2 ^ 64" and "p \<noteq> 0" and "0 \<notin> set ps"
  shows "unat (foldl lcm_u64 p ps) = lcm (unat p) (Lcm (unat ` set ps))"
  using assms
proof (induction ps arbitrary: p)
  case (Cons q ps)
  let ?L = "lcm (unat p) (Lcm (unat ` set (q # ps)))"
  have assoc: "lcm (lcm (unat p) (unat q)) (Lcm (unat ` set ps)) = ?L"
    by (simp add: lcm.assoc)
  have pos: "0 < ?L"
    using Cons.prems(2,3) by (auto simp: Lcm_0_iff unat_eq_zero intro!: Nat.gr0I)
  have "lcm (unat p) (unat q) dvd ?L"
    unfolding assoc [symmetric] by simp
  then have "lcm (unat p) (unat q) \<le> ?L"
    using pos by (rule dvd_imp_le)
  with Cons.prems(1) have step: "unat (lcm_u64 p q) = lcm (unat p) (unat q)"
    by (intro lcm_u64_eq) simp
  moreover have "lcm_u64 p q \<noteq> 0"
  proof
    assume "lcm_u64 p q = 0"
    with step have "lcm (unat p) (unat q) = 0" by simp
    with Cons.prems(2,3) show False by (simp add: unat_eq_zero)
  qed
  ultimately show ?case
    using Cons.IH [of "lcm_u64 p q"] Cons.prems assoc by simp
qed simp

lemma calculate_hyperperiod_Lcm:
  assumes "ps \<noteq> []" "0 \<notin> set ps" "Lcm (unat ` set ps) < 2 ^ 64"
  shows "unat (calculate_hyperperiod ps) = Lcm (unat ` set ps)"
proof -
  obtain q qs where ps: "ps = q # qs" using assms(1) by (cases ps) auto
  with assms foldl_lcm_u64 [of q qs] show ?thesis
    by (auto simp: calculate_hyperperiod_def)
qed

section \<open>Harmonic periods\<close>

interpretation u64_order: strict_weak_order "(<) :: u64 \<Rightarrow> u64 \<Rightarrow> bool"
  by unfold_locales auto

lemma set_insert_distinct: "distinct xs \<Longrightarrow> distinct (set_insert x xs)"
proof -
  assume "distinct xs"
  then have "distinct (takeWhile P xs @ dropWhile P xs)" for P by simp
  then have "distinct (takeWhile P xs)" "distinct (dropWhile P xs)"
    "set (takeWhile P xs) \<inter> set (dropWhile P xs) = {}" for P
    unfolding distinct_append by blast+
  moreover have "set (takeWhile P xs) \<union> set (dropWhile P xs) = set xs" for P
    by (metis set_append takeWhile_dropWhile_id)
  ultimately show ?thesis
    using \<open>distinct xs\<close> by (auto simp: set_insert_def)
qed

lemma distinct_set_insert_all: "distinct xs \<Longrightarrow> distinct (set_insert_all ys xs)"
  unfolding set_insert_all_def by (induction ys arbitrary: xs) (simp_all add: set_insert_distinct)

definition pairwise_dvd :: "u64 list \<Rightarrow> bool" where
  "pairwise_dvd ps \<longleftrightarrow> (\<forall>x\<in>set ps. \<forall>y\<in>set ps. unat x dvd unat y \<or> unat y dvd unat x)"

lemma mod_word_zero_iff: "y mod x = 0 \<longleftrightarrow> unat x dvd unat y" for x y :: u64
  by (metis dvd_eq_mod_eq_0 unat_eq_zero unat_mod)

text \<open>On an ascending list of distinct positive values the test of the code is pairwise divisibility.\<close>

lemma ascending_dvd:
  assumes "sorted_wrt (\<lambda>x y. x < y) xs" "0 \<notin> set xs"
  shows "sorted_wrt (\<lambda>x y. y mod x = 0) xs \<longleftrightarrow> pairwise_dvd xs"
  using assms
proof (induction xs)
  case (Cons x xs)
  have "unat x dvd unat y \<or> unat y dvd unat x \<longleftrightarrow> unat x dvd unat y" if "y \<in> set xs" for y
  proof -
    from that Cons.prems have "x < y" "y \<noteq> 0" by auto
    then have "\<not> unat y dvd unat x \<or> x = 0"
      by (metis dvd_imp_le leD unat_gt_0 word_less_nat_alt)
    with Cons.prems show ?thesis by auto
  qed
  with Cons show ?case
    by (auto simp: pairwise_dvd_def mod_word_zero_iff)
qed (simp add: pairwise_dvd_def)

lemma validate_harmonic_iff:
  assumes "0 \<notin> set ps"
  shows "validate_harmonic ps \<longleftrightarrow> pairwise_dvd ps"
proof (cases "length ps \<le> 1")
  case True
  then have "ps = [] \<or> (\<exists>p. ps = [p])" by (cases ps) auto
  with True show ?thesis by (auto simp: validate_harmonic_def pairwise_dvd_def)
next
  case False
  let ?s = "std_sort (<) (set_insert_all ps [])"
  have set: "set ?s = set ps" by simp
  have "distinct ?s"
    using distinct_set_insert_all [of "[]" ps] u64_order.std.mset_srt [of "set_insert_all ps []"]
    by (metis distinct.simps(1) mset_eq_imp_distinct_iff)
  moreover have "sorted ?s"
    using u64_order.std.ordered_srt [of "set_insert_all ps []"] by (simp add: not_less)
  ultimately have "sorted_wrt (<) ?s" by (simp add: strict_sorted_iff)
  from ascending_dvd [OF this] set assms False show ?thesis
    by (simp add: validate_harmonic_def pairwise_dvd_def)
qed

lemma Lcm_harmonic:
  assumes "pairwise_dvd ps" "ps \<noteq> []" "0 \<notin> set ps"
  shows "Lcm (unat ` set ps) = Max (unat ` set ps)"
proof (rule dvd_antisym)
  let ?S = "unat ` set ps"
  have ne: "finite ?S" "?S \<noteq> {}" using assms(2) by auto
  then obtain m where m: "m \<in> set ps" "unat m = Max ?S" by (metis Max_in imageE)
  show "Lcm ?S dvd Max ?S"
  proof (rule Lcm_least)
    fix n
    assume "n \<in> ?S"
    then obtain x where x: "x \<in> set ps" "n = unat x" by blast
    then have "n \<le> Max ?S" using ne by simp
    moreover have "0 < n" using x assms(3) by (metis unat_gt_0)
    moreover have "n dvd unat m \<or> unat m dvd n"
      using assms(1) x m(1) unfolding pairwise_dvd_def by blast
    ultimately show "n dvd Max ?S"
      using m(2) by (metis dvd_imp_le dvd_refl le_antisym)
  qed
  show "Max ?S dvd Lcm ?S" using Max_in [OF ne] by (rule dvd_Lcm)
qed

lemma harmonic_hyperperiod:
  assumes "validate_harmonic ps" "ps \<noteq> []" "0 \<notin> set ps"
  shows "unat (calculate_hyperperiod ps) = Max (unat ` set ps)"
    and "\<And>p. p \<in> set ps \<Longrightarrow> unat p dvd unat (calculate_hyperperiod ps)"
proof -
  have L: "Lcm (unat ` set ps) = Max (unat ` set ps)"
    using assms by (intro Lcm_harmonic) (simp_all add: validate_harmonic_iff)
  have "Max (unat ` set ps) \<in> unat ` set ps" using assms(2) by (intro Max_in) auto
  then have "Max (unat ` set ps) < 2 ^ 64"
    using unat_bound64 by auto
  with assms L show eq: "unat (calculate_hyperperiod ps) = Max (unat ` set ps)"
    by (simp add: calculate_hyperperiod_Lcm)
  fix p
  assume "p \<in> set ps"
  then have "unat p dvd Lcm (unat ` set ps)" by (intro dvd_Lcm) simp
  with L eq show "unat p dvd unat (calculate_hyperperiod ps)" by simp
qed

section \<open>Properties\<close>

text \<open>C13: The hyperperiod of positive periods is their least common multiple whenever that multiple
  fits in 64 bits.\<close>

theorem hyperperiod_is_lcm:
  assumes "ps \<noteq> []" "0 \<notin> set ps" "Lcm (unat ` set ps) < 2 ^ 64"
  shows "unat (calculate_hyperperiod ps) = Lcm (unat ` set ps)"
  using assms by (rule calculate_hyperperiod_Lcm)

theorem hyperperiod_is_lcm_witness: "unat (calculate_hyperperiod [10000, 15000, 4000]) = 60000"
proof -
  have L: "Lcm (unat ` set [10000, 15000, 4000 :: u64]) = 60000"
    by (simp add: lcm_nat_def gcd_non_0_nat)
  show ?thesis
    using hyperperiod_is_lcm [of "[10000, 15000, 4000]"] unfolding L by simp
qed

text \<open>C14: The harmonic test accepts a list of positive periods exactly when of any two one divides
  the other, and then the hyperperiod is the longest period and a multiple of every period.\<close>

theorem harmonic_test:
  assumes "0 \<notin> set ps"
  shows "(validate_harmonic ps \<longleftrightarrow> pairwise_dvd ps)
    \<and> (ps \<noteq> [] \<longrightarrow> validate_harmonic ps \<longrightarrow>
        unat (calculate_hyperperiod ps) = Max (unat ` set ps)
        \<and> (\<forall>p\<in>set ps. unat p dvd unat (calculate_hyperperiod ps)))"
  using assms harmonic_hyperperiod [of ps] by (simp add: validate_harmonic_iff)

theorem harmonic_test_witness:
  "validate_harmonic [20000, 5000, 20000, 10000] \<and> unat (calculate_hyperperiod [20000, 5000, 20000, 10000]) = 20000
   \<and> \<not> validate_harmonic [10000, 15000]"
proof -
  have v: "pairwise_dvd [20000, 5000, 20000, 10000]" "\<not> pairwise_dvd [10000, 15000]"
    by (simp_all add: pairwise_dvd_def)
  with harmonic_test [of "[20000, 5000, 20000, 10000]"] harmonic_test [of "[10000, 15000]"]
  show ?thesis by simp
qed

end
