(* ===== verification/Scheduler_TT.thy ===== *)
theory Scheduler_TT
  imports Scheduler_Arith
begin

text \<open>
  Placement of the time-triggered slots: the search for a free position returns the least one,
  every frame of every task gets one slot inside its deadline window, slots do not overlap, and
  the gaps are the rest of the hyperperiod. Positions are read as natural numbers; the bound
  \<open>H < 2 ^ 31\<close> on the hyperperiod is what keeps the 32-bit sums of the code from wrapping.
\<close>

section \<open>The search for a free position\<close>

definition fits :: "interval list \<Rightarrow> nat \<Rightarrow> nat \<Rightarrow> nat \<Rightarrow> bool" where
  "fits occupied c duration deadline_end \<longleftrightarrow> c + duration \<le> deadline_end
     \<and> (\<forall>occ\<in>set occupied. \<not> (c < unat (iv_end occ) \<and> unat (iv_start occ) < c + duration))"

definition least_fit :: "interval list \<Rightarrow> nat \<Rightarrow> nat \<Rightarrow> nat \<Rightarrow> nat \<Rightarrow> bool" where
  "least_fit occupied start duration deadline_end c \<longleftrightarrow>
     start \<le> c \<and> fits occupied c duration deadline_end
     \<and> (\<forall>c'. start \<le> c' \<and> c' < c \<longrightarrow> \<not> fits occupied c' duration deadline_end)"

lemma find_free_slot_least:
  assumes "unat candidate \<le> H" "unat duration \<le> H" "H < 2 ^ 31" "\<forall>occ\<in>set occupied. unat (iv_end occ) \<le> H"
  shows "(find_free_slot occupied candidate duration deadline_end = - 1 \<and> (\<forall>c\<ge>unat candidate. \<not> fits occupied c (unat duration) (unat deadline_end)))
    \<or> (unat (find_free_slot occupied candidate duration deadline_end) \<le> H
        \<and> least_fit occupied (unat candidate) (unat duration) (unat deadline_end)
             (unat (find_free_slot occupied candidate duration deadline_end)))"
  using assms
proof (induction occupied candidate duration deadline_end rule: find_free_slot.induct)
  case (1 occupied candidate duration deadline_end)
  have add: "unat (candidate + duration) = unat candidate + unat duration"
    using "1.prems" by (intro unat_add_small) simp
  consider (late) "\<not> candidate + duration \<le> deadline_end"
    | (free) "candidate + duration \<le> deadline_end" "find_conflict occupied candidate duration = None"
    | (busy) occ where "candidate + duration \<le> deadline_end" "find_conflict occupied candidate duration = Some occ"
    by (cases "find_conflict occupied candidate duration") auto
  then show ?case
  proof cases
    case late
    then have "find_free_slot occupied candidate duration deadline_end = - 1"
      by (subst find_free_slot.simps) simp
    with late add show ?thesis by (auto simp: fits_def word_le_nat_alt)
  next
    case free
    then have "find_free_slot occupied candidate duration deadline_end = candidate"
      by (subst find_free_slot.simps) simp
    with free add "1.prems" show ?thesis
      by (auto simp: least_fit_def fits_def find_conflict_def find_None_iff word_le_nat_alt word_less_nat_alt)
  next
    case busy
    then have hit: "occ \<in> set occupied" "unat candidate < unat (iv_end occ)"
      "unat (iv_start occ) < unat candidate + unat duration"
      using add by (auto simp: find_conflict_def find_Some_iff word_less_nat_alt)
    have skip: "\<not> fits occupied c (unat duration) (unat deadline_end)"
      if "unat candidate \<le> c" "c < unat (iv_end occ)" for c
      using that hit by (force simp: fits_def)
    have eq: "find_free_slot occupied candidate duration deadline_end
        = find_free_slot occupied (iv_end occ) duration deadline_end"
      using busy by (subst find_free_slot.simps) simp
    have H: "unat (iv_end occ) \<le> H" using "1.prems"(4) hit(1) by blast
    from "1.IH" [OF busy H "1.prems"(2,3,4)] skip hit(2) show ?thesis
      unfolding eq least_fit_def by (meson le_less_linear less_imp_le order_trans)
  qed
qed

section \<open>Frames\<close>

definition slot_end :: "TtSlotPlacement \<Rightarrow> nat" where
  "slot_end s = unat (sp_offset_us s) + unat (sp_duration_us s)"

definition disjoint_slots :: "TtSlotPlacement \<Rightarrow> TtSlotPlacement \<Rightarrow> bool" where
  "disjoint_slots a b \<longleftrightarrow> slot_end a \<le> unat (sp_offset_us b) \<or> slot_end b \<le> unat (sp_offset_us a)"

text \<open>The slot of the \<open>k\<close>-th frame of a task: its data, its CPU, and the window it is in.\<close>

fun slot_in_frame :: "int \<Rightarrow> nat \<Rightarrow> ClassifiedTask \<times> nat \<Rightarrow> TtSlotPlacement \<Rightarrow> bool" where
  "slot_in_frame cpu H (t, k) s \<longleftrightarrow>
     sp_workload_id s = ct_workload_id t \<and> sp_task_id s = ct_task_id t \<and> sp_duration_us s = ct_wcet_us t
     \<and> sp_deadline_us s = ct_deadline_us t \<and> sp_max_dmiss s = ct_max_dmiss t \<and> sp_cpu s = cpu
     \<and> k * unat (ct_period_us t) \<le> unat (sp_offset_us s)
     \<and> slot_end s \<le> k * unat (ct_period_us t) + unat (ct_deadline_us t) \<and> slot_end s \<le> H"

definition frames :: "nat \<Rightarrow> ClassifiedTask list \<Rightarrow> (ClassifiedTask \<times> nat) list" where
  "frames H tasks = concat (map (\<lambda>t. if ct_period_us t = 0 then []
     else map (Pair t) [0..<H div unat (ct_period_us t)]) tasks)"

definition occ_of :: "TtSlotPlacement \<Rightarrow> interval" where
  "occ_of s = \<lparr>iv_start = sp_offset_us s, iv_end = sp_offset_us s + sp_duration_us s\<rparr>"

definition place_inv :: "nat \<Rightarrow> TtSlotPlacement list \<times> interval list \<Rightarrow> bool" where
  "place_inv H st \<longleftrightarrow> snd st = map occ_of (fst st) \<and> (\<forall>s\<in>set (fst st). slot_end s \<le> H)
     \<and> sorted_wrt disjoint_slots (fst st)"

lemma iv_end_occ_of: "slot_end s \<le> H \<Longrightarrow> H < 2 ^ 31 \<Longrightarrow> unat (iv_end (occ_of s)) = slot_end s"
  by (simp add: occ_of_def slot_end_def unat_add_small)

lemma frame_bounds_nat:
  assumes H: "unat hp < 2 ^ 31" and k: "(unat k + 1) * unat (ct_period_us t) \<le> unat hp" and p: "0 < ct_period_us t"
    and b: "frame_bounds hp t k = (fs, fe)"
  shows "unat fs = unat k * unat (ct_period_us t)" and "unat fe \<le> unat hp"
    and "unat fs \<le> unat fe \<Longrightarrow> unat fe \<le> unat fs + unat (ct_deadline_us t)"
proof -
  have le: "unat k * unat (ct_period_us t) \<le> unat hp" using k by simp
  have "unat (k * ucast (ct_period_us t)) = unat k * unat (ct_period_us t)"
    using le H by (subst unat_mult_small) simp_all
  then show fs: "unat fs = unat k * unat (ct_period_us t)"
    using b le H by (auto simp: frame_bounds_def Let_def unat_ucast_64_32)
  have fe: "fe = (if hp < ucast (fs + ct_deadline_us t) then ucast hp else fs + ct_deadline_us t)"
    using b by (auto simp: frame_bounds_def Let_def)
  then show le_hp: "unat fe \<le> unat hp"
    using H by (auto simp: unat_ucast_64_32 word_less_nat_alt not_less)
  have sum: "unat (fs + ct_deadline_us t) = (unat fs + unat (ct_deadline_us t)) mod 4294967296"
    by (simp add: unat_word_ariths)
  have "unat fe \<le> unat (fs + ct_deadline_us t)"
    using fe H by (auto simp: unat_ucast_64_32 word_less_nat_alt)
  also have "\<dots> \<le> unat fs + unat (ct_deadline_us t)"
    unfolding sum by (rule mod_less_eq_dividend)
  finally show "unat fe \<le> unat fs + unat (ct_deadline_us t)" .
qed

lemma place_frame_step:
  assumes H: "unat hp < 2 ^ 31" and k: "(unat k + 1) * unat (ct_period_us t) \<le> unat hp" and p: "0 < ct_period_us t"
    and b: "frame_bounds hp t k = (fs, fe)"
    and inv: "place_inv (unat hp) (slots, occupied)"
    and dur: "k \<noteq> 0 \<Longrightarrow> unat (ct_wcet_us t) \<le> unat hp"
    and r: "r = find_free_slot occupied fs (ct_wcet_us t) fe" "\<not> sint r < 0"
    and s: "s = \<lparr>sp_workload_id = ct_workload_id t, sp_task_id = ct_task_id t, sp_offset_us = r,
                 sp_duration_us = ct_wcet_us t, sp_deadline_us = ct_deadline_us t,
                 sp_max_dmiss = ct_max_dmiss t, sp_cpu = cpu\<rparr>"
  shows "unat (ct_wcet_us t) \<le> unat hp"
    and "place_inv (unat hp) (slots @ [s], occupied @ [\<lparr>iv_start = r, iv_end = r + ct_wcet_us t\<rparr>])"
    and "slot_in_frame cpu (unat hp) (t, unat k) s"
proof -
  note fb = frame_bounds_nat [OF H k p b]
  have m1: "sint (- 1 :: u32) < 0" by simp
  show dur': "unat (ct_wcet_us t) \<le> unat hp"
  proof (cases "k = 0")
    case True
    then have "fs = 0" using fb(1) by (simp add: unat_eq_zero)
    with r m1 have "ct_wcet_us t \<le> fe"
      by (subst (asm) find_free_slot.simps) (auto split: if_splits)
    with fb(2) show ?thesis by (simp add: word_le_nat_alt)
  qed (rule dur)
  have occ: "\<forall>occ\<in>set occupied. unat (iv_end occ) \<le> unat hp"
    using inv H by (auto simp: place_inv_def iv_end_occ_of)
  have fs_le: "unat fs \<le> unat hp" using fb(1) k by simp
  from find_free_slot_least [OF fs_le dur' H occ, of fe] r m1
  have least: "least_fit occupied (unat fs) (unat (ct_wcet_us t)) (unat fe) (unat r)" by auto
  then have fit: "unat fs \<le> unat r" "unat r + unat (ct_wcet_us t) \<le> unat fe"
    by (simp_all add: least_fit_def fits_def)
  have send: "slot_end s = unat r + unat (ct_wcet_us t)" by (simp add: s slot_end_def)
  have "disjoint_slots q s" if q: "q \<in> set slots" for q
  proof -
    have "occ_of q \<in> set occupied" "slot_end q \<le> unat hp" using q inv by (auto simp: place_inv_def)
    with least H have "\<not> (unat r < slot_end q \<and> unat (sp_offset_us q) < unat r + unat (ct_wcet_us t))"
      by (metis fits_def iv_end_occ_of least_fit_def interval.select_convs(1) occ_of_def)
    then show ?thesis using send by (auto simp: disjoint_slots_def s)
  qed
  then show "place_inv (unat hp) (slots @ [s], occupied @ [\<lparr>iv_start = r, iv_end = r + ct_wcet_us t\<rparr>])"
    using inv fit fb(2) send by (auto simp: place_inv_def sorted_wrt_append) (simp_all add: occ_of_def s)
  show "slot_in_frame cpu (unat hp) (t, unat k) s"
    using fit fb send by (simp add: s)
qed

lemma place_frames_correct:
  assumes H: "unat hp < 2 ^ 31" and p: "0 < ct_period_us t"
    and "(unat k + n) * unat (ct_period_us t) \<le> unat hp"
    and "k \<noteq> 0 \<Longrightarrow> unat (ct_wcet_us t) \<le> unat hp"
    and "place_inv (unat hp) st" and "place_frames cpu hp t n k st = Inr st'"
  shows "place_inv (unat hp) st' \<and> (\<exists>new. fst st' = fst st @ new
    \<and> list_all2 (slot_in_frame cpu (unat hp)) (map (Pair t) [unat k..<unat k + n]) new)"
  using assms(3-)
proof (induction n arbitrary: k st)
  case (Suc n)
  obtain slots occupied where st: "st = (slots, occupied)" by (cases st)
  obtain fs fe where fb: "frame_bounds hp t k = (fs, fe)" by fastforce
  let ?r = "find_free_slot occupied fs (ct_wcet_us t) fe"
  let ?s = "\<lparr>sp_workload_id = ct_workload_id t, sp_task_id = ct_task_id t, sp_offset_us = ?r,
    sp_duration_us = ct_wcet_us t, sp_deadline_us = ct_deadline_us t, sp_max_dmiss = ct_max_dmiss t, sp_cpu = cpu\<rparr>"
  let ?st1 = "(slots @ [?s], occupied @ [\<lparr>iv_start = ?r, iv_end = ?r + ct_wcet_us t\<rparr>])"
  have run: "\<not> sint ?r < 0" "place_frames cpu hp t n (k + 1) ?st1 = Inr st'"
    using Suc.prems(4) by (auto simp: st fb Let_def split: if_splits)
  have "m \<le> m * unat (ct_period_us t)" for m using p by (simp add: word_less_nat_alt)
  from this [of "unat k + Suc n"]
  have k1: "unat (k + 1) = unat k + 1"
    using Suc.prems(1) H by (subst unat_add_small) simp_all
  have "(unat k + 1) * unat (ct_period_us t) \<le> (unat k + Suc n) * unat (ct_period_us t)" by simp
  then have kle: "(unat k + 1) * unat (ct_period_us t) \<le> unat hp" using Suc.prems(1) by linarith
  have inv: "place_inv (unat hp) (slots, occupied)" using Suc.prems(3) st by simp
  note step = place_frame_step [OF H kle p fb inv Suc.prems(2) refl run(1) refl]
  have "(unat (k + 1) + n) * unat (ct_period_us t) \<le> unat hp" using Suc.prems(1) k1 by simp
  from Suc.IH [OF this step(1) step(2) run(2)] obtain new
    where new: "place_inv (unat hp) st'" "fst st' = fst ?st1 @ new"
      "list_all2 (slot_in_frame cpu (unat hp)) (map (Pair t) [unat (k + 1)..<unat (k + 1) + n]) new"
    by blast
  have upt: "[unat k..<unat k + Suc n] = unat k # [unat (k + 1)..<unat (k + 1) + n]"
    using k1 by (simp add: upt_rec)
  have "list_all2 (slot_in_frame cpu (unat hp)) (map (Pair t) [unat k..<unat k + Suc n]) (?s # new)"
    unfolding upt list.map list_all2_Cons using new(3) step(3) by blast
  with new(1,2) st show ?case by (intro conjI exI [of _ "?s # new"]) simp_all
qed simp

lemma place_tasks_correct:
  assumes H: "unat hp < 2 ^ 31"
    and "place_inv (unat hp) st" and "place_tasks cpu hp tasks st = Inr st'"
  shows "place_inv (unat hp) st' \<and> (\<exists>new. fst st' = fst st @ new
    \<and> list_all2 (slot_in_frame cpu (unat hp)) (frames (unat hp) tasks) new)"
  using assms(2-)
proof (induction tasks arbitrary: st)
  case Nil
  then show ?case by (simp add: frames_def)
next
  case (Cons t tasks)
  show ?case
  proof (cases "ct_period_us t = 0")
    case True
    with Cons.IH [of st] Cons.prems show ?thesis by (simp add: frames_def)
  next
    case False
    let ?n = "unat (hp div ucast (ct_period_us t))"
    have n: "?n = unat hp div unat (ct_period_us t)" by (simp add: unat_div)
    from Cons.prems(2) False obtain st1 where st1: "place_frames cpu hp t ?n 0 st = Inr st1"
      and rest: "place_tasks cpu hp tasks st1 = Inr st'"
      by (auto simp: bindE_eq_Inr)
    have bound: "(unat (0::u64) + ?n) * unat (ct_period_us t) \<le> unat hp"
      unfolding n by (simp add: div_times_less_eq_dividend)
    have p: "0 < ct_period_us t" using False by (simp add: word_neq_0_conv)
    from place_frames_correct [OF H p bound _ Cons.prems(1) st1] obtain new
      where new: "place_inv (unat hp) st1" "fst st1 = fst st @ new"
        "list_all2 (slot_in_frame cpu (unat hp)) (map (Pair t) [0..<?n]) new" by auto
    from Cons.IH [OF new(1) rest] obtain new' where new': "place_inv (unat hp) st'" "fst st' = fst st1 @ new'"
      "list_all2 (slot_in_frame cpu (unat hp)) (frames (unat hp) tasks) new'" by blast
    have "frames (unat hp) (t # tasks) = map (Pair t) [0..<?n] @ frames (unat hp) tasks"
      using False n by (simp add: frames_def)
    with new new' show ?thesis
      by (intro conjI exI [of _ "new @ new'"]) (simp_all add: list_all2_appendI)
  qed
qed

interpretation dm_order: strict_weak_order "\<lambda>a b. ct_deadline_us a < ct_deadline_us b"
  by unfold_locales auto

interpretation offset_order: strict_weak_order "\<lambda>a b. sp_offset_us a < sp_offset_us b"
  by unfold_locales auto

lemma mset_frames: "mset xs = mset ys \<Longrightarrow> mset (frames H xs) = mset (frames H ys)"
  unfolding frames_def mset_concat map_map by (rule sum_list_map_mset)

text \<open>What a successful placement guarantees for one CPU.\<close>

definition tt_placed :: "int \<Rightarrow> nat \<Rightarrow> ClassifiedTask list \<Rightarrow> TtSlotPlacement list \<Rightarrow> bool" where
  "tt_placed cpu H tasks slots \<longleftrightarrow> rel_mset (slot_in_frame cpu H) (mset (frames H tasks)) (mset slots)
     \<and> sorted_wrt disjoint_slots slots \<and> sorted_wrt (\<lambda>a b. sp_offset_us a \<le> sp_offset_us b) slots"

lemma place_tt_slots_placed:
  assumes H: "unat hp < 2 ^ 31" and e: "pcs_tt_slots sched = []"
    and r: "place_tt_slots cpu tasks hp sched = Inr sched'"
  shows "tt_placed cpu (unat hp) tasks (pcs_tt_slots sched')"
    and "sched' = sched\<lparr>pcs_tt_slots := pcs_tt_slots sched'\<rparr>"
proof -
  let ?sorted = "std_sort (\<lambda>a b. ct_deadline_us a < ct_deadline_us b) tasks"
  from r obtain slots occ where run: "place_tasks cpu hp ?sorted ([], []) = Inr (slots, occ)"
    and s': "sched' = sched\<lparr>pcs_tt_slots := std_sort (\<lambda>a b. sp_offset_us a < sp_offset_us b) slots\<rparr>"
    by (auto simp: place_tt_slots_def e bindE_eq_Inr split: if_splits)
  have "place_inv (unat hp) ([], [])" by (simp add: place_inv_def)
  from place_tasks_correct [OF H this run]
  have inv: "place_inv (unat hp) (slots, occ)"
    and fr: "list_all2 (slot_in_frame cpu (unat hp)) (frames (unat hp) ?sorted) slots" by auto
  have "mset (frames (unat hp) ?sorted) = mset (frames (unat hp) tasks)"
    by (intro mset_frames) (rule dm_order.std.mset_srt)
  moreover have "mset (pcs_tt_slots sched') = mset slots"
    unfolding s' by (simp add: offset_order.std.mset_srt)
  ultimately have "rel_mset (slot_in_frame cpu (unat hp)) (mset (frames (unat hp) tasks)) (mset (pcs_tt_slots sched'))"
    using fr unfolding rel_mset_def by metis
  moreover have "sorted_wrt disjoint_slots (pcs_tt_slots sched')"
    using inv offset_order.std.pairwise_srt [of disjoint_slots slots]
    by (auto simp: s' place_inv_def disjoint_slots_def)
  moreover have "sorted_wrt (\<lambda>a b. sp_offset_us a \<le> sp_offset_us b) (pcs_tt_slots sched')"
    unfolding s' using offset_order.std.ordered_srt [of slots] by (simp add: not_less)
  ultimately show "tt_placed cpu (unat hp) tasks (pcs_tt_slots sched')"
    by (simp add: tt_placed_def)
  show "sched' = sched\<lparr>pcs_tt_slots := pcs_tt_slots sched'\<rparr>" by (simp add: s')
qed

lemma rel_mset_ball:
  assumes "rel_mset R A B" "y \<in># B"
  shows "\<exists>x. x \<in># A \<and> R x y"
proof -
  from assms(1) obtain xs ys where "mset xs = A" "mset ys = B" "list_all2 R xs ys"
    by (auto simp: rel_mset_def)
  with assms(2) show ?thesis
    by (metis in_set_conv_nth list_all2_conv_all_nth set_mset_mset)
qed

lemma tt_placed_bound: "tt_placed cpu H tasks slots \<Longrightarrow> s \<in> set slots \<Longrightarrow> slot_end s \<le> H"
  unfolding tt_placed_def by (auto dest!: rel_mset_ball)

section \<open>Gaps\<close>

definition in_slot :: "TtSlotPlacement \<Rightarrow> nat \<Rightarrow> bool" where
  "in_slot s x \<longleftrightarrow> unat (sp_offset_us s) \<le> x \<and> x < slot_end s"

definition in_gap :: "GapInterval \<Rightarrow> nat \<Rightarrow> bool" where
  "in_gap g x \<longleftrightarrow> unat (gap_start_us g) \<le> x \<and> x < unat (gap_end_us g)"

definition gap_ok :: "GapInterval \<Rightarrow> bool" where
  "gap_ok g \<longleftrightarrow> gap_start_us g < gap_end_us g \<and> unat (gap_length_us g) = unat (gap_end_us g) - unat (gap_start_us g)"

lemma gaps_from_partition:
  assumes "sorted_wrt (\<lambda>a b. sp_offset_us a \<le> sp_offset_us b) slots"
    and "\<forall>s\<in>set slots. slot_end s \<le> unat hp" and "unat hp < 2 ^ 32" and "unat cursor \<le> unat hp"
  shows "(\<forall>g\<in>set (gaps_from cursor slots hp). gap_ok g \<and> cursor \<le> gap_start_us g)
    \<and> sorted_wrt (\<lambda>g g'. gap_end_us g \<le> gap_start_us g') (gaps_from cursor slots hp)
    \<and> (\<forall>x. unat cursor \<le> x \<and> x < unat hp \<longrightarrow>
          (\<exists>g\<in>set (gaps_from cursor slots hp). in_gap g x) \<longleftrightarrow> \<not> (\<exists>s\<in>set slots. in_slot s x))"
  using assms
proof (induction slots arbitrary: cursor)
  case Nil
  have hp: "unat (ucast hp :: u32) = unat hp" using Nil.prems(3) by (simp add: unat_ucast_64_32)
  show ?case
  proof (cases "cursor < ucast hp")
    case True
    then have "unat (ucast hp - cursor :: u32) = unat hp - unat cursor"
      using hp by (simp add: unat_diff_le)
    with True hp show ?thesis by (simp add: gap_ok_def in_gap_def)
  next
    case False
    with hp show ?thesis by (simp add: word_less_nat_alt)
  qed
next
  case (Cons s slots)
  let ?e = "sp_offset_us s + sp_duration_us s"
  define c where "c = (if cursor < ?e then ?e else cursor)"
  define R where "R = gaps_from c slots hp"
  have "unat ?e = slot_end s"
    using Cons.prems by (simp add: slot_end_def unat_add_small)
  then have c: "unat c = max (unat cursor) (slot_end s)"
    by (auto simp: c_def word_less_nat_alt max_def)
  then have "unat c \<le> unat hp" using Cons.prems by simp
  with Cons.IH [of c] Cons.prems
  have IH: "\<forall>g\<in>set R. gap_ok g \<and> c \<le> gap_start_us g" "sorted_wrt (\<lambda>g g'. gap_end_us g \<le> gap_start_us g') R"
    "\<And>x. unat c \<le> x \<Longrightarrow> x < unat hp \<Longrightarrow> (\<exists>g\<in>set R. in_gap g x) \<longleftrightarrow> \<not> (\<exists>s\<in>set slots. in_slot s x)"
    by (simp_all add: R_def)
  have later: "\<not> in_slot q x" if "q \<in> set slots" "x < unat (sp_offset_us s)" for q x
    using that Cons.prems(1) by (auto simp: in_slot_def word_le_nat_alt)
  have low: "\<not> in_gap g x" if "g \<in> set R" "x < unat c" for g x
    using that IH(1) by (force simp: in_gap_def word_le_nat_alt)
  have off: "unat (sp_offset_us s) \<le> slot_end s" by (simp add: slot_end_def)
  let ?g = "\<lparr>gap_start_us = cursor, gap_end_us = sp_offset_us s, gap_length_us = sp_offset_us s - cursor\<rparr>"
  have pt: "(in_gap ?g x \<or> (\<exists>g\<in>set R. in_gap g x)) \<longleftrightarrow> \<not> (\<exists>q\<in>set (s # slots). in_slot q x)"
    if x: "unat cursor \<le> x" "x < unat hp" for x
  proof (cases "x < unat c")
    case True
    then have lo: "\<not> (\<exists>g\<in>set R. in_gap g x)" using low by blast
    from True x(1) c have "x < slot_end s" by simp
    with x(1) later [of _ x] lo show ?thesis
      by (cases "x < unat (sp_offset_us s)") (auto simp: in_slot_def in_gap_def)
  next
    case False
    with c off have "\<not> in_slot s x" "\<not> in_gap ?g x" by (auto simp: in_slot_def in_gap_def)
    with IH(3) [of x] False x show ?thesis by auto
  qed
  have cle: "cursor \<le> c" "sp_offset_us s \<le> c" using c off by (simp_all only: word_le_nat_alt)
  show ?case
  proof (cases "cursor < sp_offset_us s")
    case True
    then have gs: "gaps_from cursor (s # slots) hp = ?g # R"
      by (simp add: Let_def R_def c_def)
    have "gap_ok ?g" using True by (simp add: gap_ok_def unat_diff_le)
    with IH(1) cle(1) have 1: "\<forall>g\<in>set (?g # R). gap_ok g \<and> cursor \<le> gap_start_us g"
      by (auto intro: order_trans)
    from IH(1,2) cle(2) have 2: "sorted_wrt (\<lambda>g g'. gap_end_us g \<le> gap_start_us g') (?g # R)"
      by (auto intro: order_trans)
    from 1 2 pt show ?thesis unfolding gs by simp
  next
    case False
    then have gs: "gaps_from cursor (s # slots) hp = R"
      by (simp add: Let_def R_def c_def)
    from IH(1) cle(1) have 1: "\<forall>g\<in>set R. gap_ok g \<and> cursor \<le> gap_start_us g"
      by (auto intro: order_trans)
    have "\<not> in_gap ?g x" for x
      using False by (auto simp: in_gap_def word_less_nat_alt)
    with 1 IH(2) pt show ?thesis unfolding gs by simp
  qed
qed

section \<open>Properties\<close>

text \<open>C5: The slot search is exact: with the hyperperiod, the duration and every occupied interval
  below 2 to the 31, it returns the least offset from the start of the frame at which the slot fits
  before the deadline without touching an occupied interval, and -1 exactly when no offset fits.\<close>

theorem find_free_slot_exact:
  assumes "unat start \<le> H" "unat duration \<le> H" "H < 2 ^ 31"
    and "\<forall>occ\<in>set occupied. unat (iv_end occ) \<le> H"
  shows "(find_free_slot occupied start duration deadline_end = - 1
        \<and> (\<forall>c\<ge>unat start. \<not> fits occupied c (unat duration) (unat deadline_end)))
    \<or> (unat (find_free_slot occupied start duration deadline_end) \<le> H
        \<and> least_fit occupied (unat start) (unat duration) (unat deadline_end)
             (unat (find_free_slot occupied start duration deadline_end)))"
  using assms by (rule find_free_slot_least)

theorem find_free_slot_exact_witness:
  "least_fit [\<lparr>iv_start = 0, iv_end = 4\<rparr>, \<lparr>iv_start = 6, iv_end = 9\<rparr>] 0 3 20 9"
proof -
  let ?occ = "[\<lparr>iv_start = 0, iv_end = 4\<rparr>, \<lparr>iv_start = 6, iv_end = 9\<rparr>]"
  have "find_free_slot ?occ 0 3 20 = 9"
    by (simp add: find_free_slot.simps find_conflict_def)
  then show ?thesis
    using find_free_slot_exact [of 0 100 3 ?occ 20] by simp
qed

text \<open>C4: When the placement of the time-triggered tasks of a CPU succeeds, and the hyperperiod is
  below 2 to the 31 microseconds, every release of every task in the hyperperiod has exactly one
  slot, with the duration of the task, between the release and its deadline and inside the
  hyperperiod; no two slots overlap; and the slots are in the order of their offsets.\<close>

theorem place_tt_slots_correct:
  assumes "unat hp < 2 ^ 31" "pcs_tt_slots sched = []" "place_tt_slots cpu tasks hp sched = Inr sched'"
  shows "rel_mset (slot_in_frame cpu (unat hp)) (mset (frames (unat hp) tasks)) (mset (pcs_tt_slots sched'))
    \<and> sorted_wrt disjoint_slots (pcs_tt_slots sched')
    \<and> sorted_wrt (\<lambda>a b. sp_offset_us a \<le> sp_offset_us b) (pcs_tt_slots sched')"
  using place_tt_slots_placed(1) [OF assms] by (simp add: tt_placed_def)

definition demo_task :: "string \<Rightarrow> string \<Rightarrow> Mechanism \<Rightarrow> u32 \<Rightarrow> u32 \<Rightarrow> u32 \<Rightarrow> ClassifiedTask" where
  "demo_task wl name mech period wcet deadline =
     \<lparr>ct_workload_id = wl, ct_task_id = name, ct_mechanism = mech, ct_period_us = period, ct_wcet_us = wcet,
      ct_deadline_us = deadline, ct_max_dmiss = 3, ct_assigned_cpu = -1\<rparr>"

definition demo_tt :: "ClassifiedTask list" where
  "demo_tt = [demo_task ''w'' ''slow'' TT 20 6 20, demo_task ''w'' ''fast'' TT 10 3 5]"

lemma demo_tt_slots:
  "\<exists>sched'. place_tt_slots 2 demo_tt 20 (PerCpuSchedule_init 2) = Inr sched'
     \<and> map (\<lambda>s. (sp_task_id s, sp_offset_us s)) (pcs_tt_slots sched')
        = [(''fast'', 0), (''slow'', 3), (''fast'', 10)]"
proof -
  have sorted: "std_sort (\<lambda>a b. ct_deadline_us a < ct_deadline_us b) demo_tt
      = [demo_task ''w'' ''fast'' TT 10 3 5, demo_task ''w'' ''slow'' TT 20 6 20]"
    by (simp add: std_sort_def demo_tt_def demo_task_def)
  have search: "find_free_slot [] 0 3 5 = 0" "find_free_slot [\<lparr>iv_start = 0, iv_end = 3\<rparr>] 10 3 15 = 10"
    "find_free_slot [\<lparr>iv_start = 0, iv_end = 3\<rparr>, \<lparr>iv_start = 10, iv_end = 13\<rparr>] 0 6 20 = 3"
    by (simp_all add: find_free_slot.simps find_conflict_def)
  have bounds: "frame_bounds 20 (demo_task ''w'' ''fast'' TT 10 3 5) 0 = (0, 5)"
    "frame_bounds 20 (demo_task ''w'' ''fast'' TT 10 3 5) 1 = (10, 15)"
    "frame_bounds 20 (demo_task ''w'' ''slow'' TT 20 6 20) 0 = (0, 20)"
    by (simp_all add: frame_bounds_def demo_task_def)
  have repeats: "unat (20 div ucast (10 :: u32) :: u64) = Suc (Suc 0)" "unat (20 div ucast (20 :: u32) :: u64) = Suc 0"
    by (simp_all add: unat_div)
  let ?slot = "\<lambda>name off dur dl. \<lparr>sp_workload_id = ''w'', sp_task_id = name, sp_offset_us = off,
    sp_duration_us = dur, sp_deadline_us = dl, sp_max_dmiss = 3, sp_cpu = 2\<rparr>"
  let ?occ = "[\<lparr>iv_start = 0, iv_end = 3\<rparr>, \<lparr>iv_start = 10, iv_end = 13\<rparr>]"
  have fast: "place_frames 2 20 (demo_task ''w'' ''fast'' TT 10 3 5) (Suc (Suc 0)) 0 ([], [])
      = Inr ([?slot ''fast'' 0 3 5, ?slot ''fast'' 10 3 5], ?occ)"
    by (simp add: bounds Let_def) (simp add: demo_task_def search)
  have slow: "place_frames 2 20 (demo_task ''w'' ''slow'' TT 20 6 20) (Suc 0) 0
        ([?slot ''fast'' 0 3 5, ?slot ''fast'' 10 3 5], ?occ)
      = Inr ([?slot ''fast'' 0 3 5, ?slot ''fast'' 10 3 5, ?slot ''slow'' 3 6 20], ?occ @ [\<lparr>iv_start = 3, iv_end = 9\<rparr>])"
    by (simp add: bounds Let_def) (simp add: demo_task_def search)
  have period: "ct_period_us (demo_task wl n m p w d) = p" for wl n m p w d by (simp add: demo_task_def)
  have "place_tasks 2 20 [demo_task ''w'' ''fast'' TT 10 3 5, demo_task ''w'' ''slow'' TT 20 6 20] ([], [])
      = Inr ([?slot ''fast'' 0 3 5, ?slot ''fast'' 10 3 5, ?slot ''slow'' 3 6 20], ?occ @ [\<lparr>iv_start = 3, iv_end = 9\<rparr>])"
    by (simp only: place_tasks.simps period repeats fast slow bindE_simps if_False) simp
  then show ?thesis
    unfolding place_tt_slots_def sorted by (simp add: PerCpuSchedule_init_def std_sort_def)
qed

theorem place_tt_slots_correct_witness:
  "\<exists>sched'. place_tt_slots 2 demo_tt 20 (PerCpuSchedule_init 2) = Inr sched'
     \<and> length (pcs_tt_slots sched') = 3 \<and> sorted_wrt disjoint_slots (pcs_tt_slots sched')"
proof -
  from demo_tt_slots obtain sched' where "place_tt_slots 2 demo_tt 20 (PerCpuSchedule_init 2) = Inr sched'
      \<and> map (\<lambda>s. (sp_task_id s, sp_offset_us s)) (pcs_tt_slots sched')
        = [(''fast'', 0), (''slow'', 3), (''fast'', 10)]" ..
  note r = conjunct1 [OF this] and m = conjunct2 [OF this]
  from arg_cong [OF m, of length] have "length (pcs_tt_slots sched') = 3" by simp
  moreover have "sorted_wrt disjoint_slots (pcs_tt_slots sched')"
    using place_tt_slots_correct [OF _ _ r] by (simp add: PerCpuSchedule_init_def)
  ultimately show ?thesis using r by (intro exI [of _ sched'] conjI)
qed

text \<open>C12: The gaps are exactly the free time of the hyperperiod: they are non-empty, ordered and
  disjoint, their recorded length is end minus start, and a point of the hyperperiod is in a gap
  exactly when it is in no slot.\<close>

theorem compute_gaps_partition:
  assumes "sorted_wrt (\<lambda>a b. sp_offset_us a \<le> sp_offset_us b) slots"
    and "\<forall>s\<in>set slots. slot_end s \<le> unat hp" and "unat hp < 2 ^ 32"
  shows "(\<forall>g\<in>set (compute_gaps slots hp). gap_ok g)
    \<and> sorted_wrt (\<lambda>g g'. gap_end_us g \<le> gap_start_us g') (compute_gaps slots hp)
    \<and> (\<forall>x<unat hp. (\<exists>g\<in>set (compute_gaps slots hp). in_gap g x) \<longleftrightarrow> \<not> (\<exists>s\<in>set slots. in_slot s x))"
  using gaps_from_partition [OF assms, of 0] by (simp add: compute_gaps_def)

theorem compute_gaps_partition_witness:
  "\<exists>slots. slots \<noteq> [] \<and> (\<forall>x<20. (\<exists>g\<in>set (compute_gaps slots 20). in_gap g x) \<longleftrightarrow> \<not> (\<exists>s\<in>set slots. in_slot s x))"
proof -
  let ?s = "\<lambda>off dur. \<lparr>sp_workload_id = ''w'', sp_task_id = ''t'', sp_offset_us = off, sp_duration_us = dur,
      sp_deadline_us = 20, sp_max_dmiss = 3, sp_cpu = 2\<rparr>"
  let ?slots = "[?s 0 3, ?s 3 6, ?s 10 3]"
  from compute_gaps_partition [of ?slots 20]
  have "\<forall>x<20. (\<exists>g\<in>set (compute_gaps ?slots 20). in_gap g x) \<longleftrightarrow> \<not> (\<exists>s\<in>set ?slots. in_slot s x)"
    by (simp add: slot_end_def)
  then show ?thesis by (intro exI [of _ ?slots] conjI) simp_all
qed

lemma find_conflict_ahead:
  assumes "find_conflict occupied candidate duration = Some occ"
  shows "occ \<in> set occupied" and "candidate < iv_end occ"
  using assms by (auto simp: find_conflict_def find_Some_iff)

lemma find_free_slot_turns_enough:
  assumes "length (filter (\<lambda>o1. candidate < iv_end o1) occupied) < turns"
  shows "find_free_slot_turns turns occupied candidate duration deadline_end
    = Some (find_free_slot occupied candidate duration deadline_end)"
  using assms
proof (induction turns arbitrary: candidate)
  case (Suc turns)
  show ?case
  proof (cases "find_conflict occupied candidate duration")
    case None
    then show ?thesis by (subst find_free_slot.simps) simp
  next
    case (Some occ)
    note ahead = find_conflict_ahead [OF Some]
    have "filter (\<lambda>o1. iv_end occ < iv_end o1) occupied
        = filter (\<lambda>o1. iv_end occ < iv_end o1) (filter (\<lambda>o1. candidate < iv_end o1) occupied)"
      using ahead(2) by (auto intro: filter_cong)
    moreover have "length (filter (\<lambda>o1. iv_end occ < iv_end o1) (filter (\<lambda>o1. candidate < iv_end o1) occupied))
        < length (filter (\<lambda>o1. candidate < iv_end o1) occupied)"
      using ahead by (intro length_filter_less [of occ]) auto
    ultimately have "length (filter (\<lambda>o1. iv_end occ < iv_end o1) occupied) < turns" using Suc.prems by simp
    with Suc.IH [of "iv_end occ"] Some show ?thesis by (subst find_free_slot.simps) simp
  qed
qed simp

text \<open>C6: The search for a free slot always ends, also when the additions wrap around: with \<open>n\<close> occupied
  intervals its loop leaves after at most \<open>n + 1\<close> turns, because each conflict moves the candidate past
  an interval for good.\<close>

theorem find_free_slot_terminates:
  "find_free_slot_turns (Suc (length occupied)) occupied candidate duration deadline_end
    = Some (find_free_slot occupied candidate duration deadline_end)"
  by (rule find_free_slot_turns_enough) (simp add: le_imp_less_Suc)

end
