(* ===== verification/Scheduler_CBS.thy ===== *)
theory Scheduler_CBS
  imports Scheduler_TT
begin

text \<open>
  Admission of the constant-bandwidth servers. The code compares rounded sums of rounded
  quotients; the lemmas here carry lower bounds from the doubles back to the exact
  utilisations, so that the bound the code enforces holds for the real quotients up to a
  stated slack.
\<close>

section \<open>Rounded sums against exact ones\<close>

definition exact_util :: "ClassifiedTask \<Rightarrow> rat" where
  "exact_util t = (if ct_period_us t = 0 then 0
     else of_nat (unat (ct_wcet_us t)) / of_nat (unat (ct_period_us t)))"

lemma exact_util_nonneg [simp]: "0 \<le> exact_util t"
  unfolding exact_util_def by (simp only: divide_nonneg_nonneg of_nat_0_le_iff order_refl split: if_split) simp

lemma utilization_fl: "utilization t = fl (exact_util t)"
  by (auto simp: utilization_def exact_util_def fdiv_def word_neq_0_conv)

text \<open>\<open>u\<close> is at least the exact sum \<open>S\<close> after at most \<open>n\<close> roundings.\<close>

definition approx :: "nat \<Rightarrow> double \<Rightarrow> rat \<Rightarrow> bool" where
  "approx n u S \<longleftrightarrow> 0 \<le> u \<and> 0 \<le> S \<and> (1 - 1 / 2 ^ 53) ^ n * S \<le> u"

lemma approx_0 [simp]: "approx n 0 0"
  by (simp add: approx_def)

lemma shrink_mono: "m \<le> n \<Longrightarrow> (1 - 1 / 2 ^ 53 :: rat) ^ n \<le> (1 - 1 / 2 ^ 53) ^ m"
  by (rule power_decreasing) simp_all

lemma approx_weaken:
  assumes "approx m u S" "m \<le> n"
  shows "approx n u S"
proof -
  have "(1 - 1 / 2 ^ 53) ^ n * S \<le> (1 - 1 / 2 ^ 53) ^ m * S"
    using assms by (intro mult_right_mono shrink_mono) (simp_all add: approx_def)
  with assms(1) show ?thesis by (simp add: approx_def)
qed

lemma approx_utilization: "approx (Suc 0) (utilization t) (exact_util t)"
  using fl_lower [of "exact_util t"] by (simp add: approx_def utilization_fl fl_nonneg mult.commute)

lemma approx_fadd:
  assumes "approx n u S" "approx n v T"
  shows "approx (Suc n) (fadd u v) (S + T)"
proof -
  let ?q = "1 - 1 / 2 ^ 53 :: rat"
  have "?q ^ n * (S + T) \<le> u + v"
    using assms by (simp add: approx_def algebra_simps)
  then have "?q ^ Suc n * (S + T) \<le> (u + v) * ?q"
    using mult_left_mono [of "?q ^ n * (S + T)" "u + v" ?q] by (simp add: mult_ac)
  also have "\<dots> \<le> fadd u v"
    using assms fl_lower [of "u + v"] by (simp add: approx_def fadd_def)
  finally show ?thesis
    using assms by (simp add: approx_def fadd_def fl_nonneg)
qed

lemma shrink_bernoulli: "1 - of_nat n / 2 ^ 53 \<le> (1 - 1 / 2 ^ 53 :: rat) ^ n"
  using Bernoulli_inequality [of "- 1 / 2 ^ 53 :: rat" n] by simp

lemma approx_bound:
  assumes "approx n u S" "n \<le> 2 ^ 21" "u \<le> B" "B \<le> 1"
  shows "S \<le> B + 1 / 2 ^ 31"
proof -
  have n: "of_nat n / 2 ^ 53 \<le> (1 / 2 ^ 32 :: rat)"
  proof -
    have "(of_nat n :: rat) \<le> of_nat (2 ^ 21)" using assms(2) by (simp only: of_nat_le_iff)
    then show ?thesis by simp
  qed
  have "(1 - of_nat n / 2 ^ 53) * S \<le> (1 - 1 / 2 ^ 53) ^ n * S"
    using assms(1) by (intro mult_right_mono shrink_bernoulli) (simp add: approx_def)
  also have "\<dots> \<le> B" using assms(1,3) by (simp add: approx_def)
  finally have *: "S \<le> B + of_nat n / 2 ^ 53 * S" by (simp add: algebra_simps)
  also have "\<dots> \<le> B + 1 / 2 ^ 32 * S"
    using n assms(1) by (intro add_left_mono mult_right_mono) (simp_all add: approx_def)
  finally have **: "S \<le> B + 1 / 2 ^ 32 * S" .
  with assms(4) have "S \<le> 2" by simp
  with ** show ?thesis by simp
qed

section \<open>Budgets of one CPU\<close>

definition alloc_of :: "int \<Rightarrow> ClassifiedTask \<Rightarrow> CbsAllocation" where
  "alloc_of cpu task = \<lparr>ca_workload_id = ct_workload_id task, ca_task_id = ct_task_id task,
     ca_budget_us = ct_wcet_us task, ca_period_us = ct_period_us task,
     ca_deadline_us = ct_deadline_us task, ca_max_dmiss = ct_max_dmiss task, ca_cpu = cpu\<rparr>"

interpretation util_order: strict_weak_order "\<lambda>a b. utilization b < utilization a"
  by unfold_locales auto

lemma allocate_loop_Inr:
  assumes "allocate_loop cpu u_avail tasks u allocs = Inr (u', allocs')"
    and "approx n u S" "u \<le> u_avail" "0 < n"
  shows "allocs' = allocs @ map (alloc_of cpu) tasks \<and> u' \<le> u_avail
    \<and> approx (n + length tasks) u' (S + sum_list (map exact_util tasks))"
  using assms
proof (induction tasks arbitrary: u allocs n S)
  case (Cons t tasks)
  from Cons.prems(1) have le: "fadd u (utilization t) \<le> u_avail"
    and rest: "allocate_loop cpu u_avail tasks (fadd u (utilization t)) (allocs @ [alloc_of cpu t]) = Inr (u', allocs')"
    by (simp_all add: Let_def alloc_of_def not_less split: if_splits)
  have "approx n (utilization t) (exact_util t)"
    using approx_weaken [OF approx_utilization, of n] Cons.prems(4) by simp
  from Cons.IH [OF rest approx_fadd [OF Cons.prems(2) this] le] show ?case
    by (simp add: add.assoc)
qed simp

lemma allocate_cbs_budgets_Inr:
  assumes r: "allocate_cbs_budgets cpu tasks u_tt sched = Inr sched'" and e: "pcs_cbs_allocations sched = []"
  shows "0 < fsub (fsub U_BOUND u_tt) U_OVERHEAD"
    and "mset (pcs_cbs_allocations sched') = mset (map (alloc_of cpu) tasks)"
    and "pcs_u_cbs sched' \<le> fsub (fsub U_BOUND u_tt) U_OVERHEAD"
    and "approx (Suc (length tasks)) (pcs_u_cbs sched') (sum_list (map exact_util tasks))"
    and "sched' = sched\<lparr>pcs_cbs_allocations := pcs_cbs_allocations sched', pcs_u_cbs := pcs_u_cbs sched'\<rparr>"
proof -
  let ?avail = "fsub (fsub U_BOUND u_tt) U_OVERHEAD"
  let ?sorted = "std_sort (\<lambda>a b. utilization b < utilization a) tasks"
  from r show pos: "0 < ?avail"
    by (auto simp: allocate_cbs_budgets_def Let_def split: if_splits)
  from r obtain u allocs where
    "0 < ?avail"
    and loop: "allocate_loop cpu ?avail ?sorted 0 [] = Inr (u, allocs)"
    and s': "sched' = sched\<lparr>pcs_cbs_allocations := allocs, pcs_u_cbs := u\<rparr>"
    by (auto simp: allocate_cbs_budgets_def Let_def e bindE_eq_Inr split: if_splits)
  have "approx 1 0 0" by simp
  from allocate_loop_Inr [OF loop this less_imp_le [OF pos]]
  have res: "allocs = map (alloc_of cpu) ?sorted" "u \<le> ?avail"
    "approx (1 + length ?sorted) u (sum_list (map exact_util ?sorted))" by simp_all
  show "mset (pcs_cbs_allocations sched') = mset (map (alloc_of cpu) tasks)"
    by (simp add: s' res(1) util_order.std.mset_srt)
  show "pcs_u_cbs sched' \<le> ?avail" using res(2) by (simp add: s')
  show "approx (Suc (length tasks)) (pcs_u_cbs sched') (sum_list (map exact_util tasks))"
    using res(3) by (simp add: s' util_order.std.sum_srt)
  show "sched' = sched\<lparr>pcs_cbs_allocations := pcs_cbs_allocations sched', pcs_u_cbs := pcs_u_cbs sched'\<rparr>"
    by (simp add: s')
qed

text \<open>The bound left for the servers, against the exact utilisation of the time-triggered tasks.\<close>

lemma round_even_nonpos: "y \<le> 0 \<Longrightarrow> round_even y \<le> 0"
proof -
  assume y: "y \<le> 0"
  then have "\<lfloor>y\<rfloor> \<le> 0" by (simp add: floor_le_iff)
  moreover have "y = 0" if "\<lfloor>y\<rfloor> = 0" using that y by (simp add: floor_eq_iff)
  ultimately show ?thesis
    by (cases "\<lfloor>y\<rfloor> = 0") (auto simp: round_even_def Let_def)
qed

lemma fl_nonpos: "x \<le> 0 \<Longrightarrow> fl x \<le> 0"
  by (auto simp: fl_def Let_def mult_nonpos_nonneg intro!: mult_nonpos_nonneg round_even_nonpos)

lemma fl_close: "\<bar>x\<bar> \<le> 1 \<Longrightarrow> \<bar>fl x - x\<bar> \<le> 1 / 2 ^ 53"
  using order_trans [OF fl_error divide_right_mono [of "\<bar>x\<bar>" 1 "2 ^ 53"]] by simp

lemma u_bound_close: "U_BOUND \<le> 80 / 100 + 1 / 2 ^ 53" and u_overhead_close: "2 / 100 - 1 / 2 ^ 53 \<le> U_OVERHEAD"
    and u_overhead_nonneg: "0 \<le> U_OVERHEAD"
proof -
  have "\<bar>fl (80 / 100) - 80 / 100\<bar> \<le> 1 / 2 ^ 53" "\<bar>fl (2 / 100) - 2 / 100\<bar> \<le> 1 / 2 ^ 53"
    by (rule fl_close; simp)+
  then show "U_BOUND \<le> 80 / 100 + 1 / 2 ^ 53" "2 / 100 - 1 / 2 ^ 53 \<le> U_OVERHEAD"
    unfolding U_BOUND_def U_OVERHEAD_def by linarith+
  show "0 \<le> U_OVERHEAD" by (simp add: U_OVERHEAD_def fl_nonneg)
qed

lemma u_avail_bound:
  assumes pos: "0 < fsub (fsub U_BOUND u) U_OVERHEAD" and u: "0 \<le> u"
  shows "fsub (fsub U_BOUND u) U_OVERHEAD \<le> 78 / 100 - u + 1 / 2 ^ 51"
proof -
  let ?y = "fsub U_BOUND u"
  have "\<not> U_BOUND - u \<le> 0"
  proof
    assume "U_BOUND - u \<le> 0"
    then have "?y - U_OVERHEAD \<le> 0"
      using fl_nonpos [of "U_BOUND - u"] u_overhead_nonneg by (simp add: fsub_def)
    with pos fl_nonpos [of "?y - U_OVERHEAD"] show False unfolding fsub_def [of ?y] by linarith
  qed
  moreover have ub: "U_BOUND - u \<le> 1" using u u_bound_close by simp
  ultimately have y: "\<bar>?y - (U_BOUND - u)\<bar> \<le> 1 / 2 ^ 53" unfolding fsub_def by (intro fl_close) simp
  have "\<not> ?y - U_OVERHEAD \<le> 0"
    using pos fl_nonpos [of "?y - U_OVERHEAD"] by (auto simp: fsub_def)
  moreover have "?y - U_OVERHEAD \<le> 1"
  proof -
    have "(1 :: rat) / 2 ^ 53 \<le> 1 / 100" by simp
    with y u u_bound_close u_overhead_nonneg show ?thesis by linarith
  qed
  ultimately have "\<bar>fsub ?y U_OVERHEAD - (?y - U_OVERHEAD)\<bar> \<le> 1 / 2 ^ 53"
    unfolding fsub_def [of ?y] by (intro fl_close) simp
  moreover have "(1 :: rat) / 2 ^ 51 = 4 * (1 / 2 ^ 53)" by simp
  ultimately show ?thesis using y u_bound_close u_overhead_close by linarith
qed

text \<open>The exact total utilisation of a CPU whose servers were admitted.\<close>

lemma admitted_utilization:
  assumes tt: "approx n u_tt S_tt" and cbs: "approx n u_cbs S_cbs" and n: "n \<le> 2 ^ 21"
    and pos: "0 < fsub (fsub U_BOUND u_tt) U_OVERHEAD" and le: "u_cbs \<le> fsub (fsub U_BOUND u_tt) U_OVERHEAD"
  shows "S_tt + S_cbs \<le> 78 / 100 + 1 / 2 ^ 30"
proof -
  have sum: "approx n (u_tt + u_cbs) (S_tt + S_cbs)"
    using tt cbs by (simp add: approx_def algebra_simps)
  have "u_tt + u_cbs \<le> 78 / 100 + 1 / 2 ^ 51"
    using u_avail_bound [OF pos] le tt by (simp add: approx_def)
  from approx_bound [OF sum n this] have "S_tt + S_cbs \<le> (78 / 100 + 1 / 2 ^ 51) + 1 / 2 ^ 31" by simp
  then show ?thesis by simp
qed

section \<open>Properties\<close>

text \<open>C10: When the budget allocation of a CPU succeeds, every server task has exactly one budget
  entry, with its worst-case execution time as budget and its minimum inter-arrival time as period,
  and the exact sum of the server utilisations, not only the rounded one the code compares, is at
  most 0.78 minus the utilisation of the time-triggered tasks, up to 2 to the -30.\<close>

theorem allocate_cbs_budgets_correct:
  assumes "allocate_cbs_budgets cpu tasks u_tt sched = Inr sched'" "pcs_cbs_allocations sched = []"
    and "0 \<le> u_tt" "length tasks < 2 ^ 21"
  shows "mset (pcs_cbs_allocations sched') = mset (map (alloc_of cpu) tasks)
    \<and> sum_list (map exact_util tasks) + u_tt \<le> 78 / 100 + 1 / 2 ^ 30"
proof -
  note a = allocate_cbs_budgets_Inr [OF assms(1,2)]
  have "approx (Suc (length tasks)) u_tt u_tt"
    by (rule approx_weaken [of 0]) (simp_all add: approx_def assms(3))
  from admitted_utilization [OF this a(4) _ a(1,3)] assms(4) a(2) show ?thesis by simp
qed

definition demo_cbs :: "ClassifiedTask list" where
  "demo_cbs = [demo_task ''w2'' ''a'' CBS 16 1 16, demo_task ''w2'' ''b'' CBS 8 2 8]"

lemma demo_cbs_alloc: "\<not> isl (allocate_cbs_budgets 2 demo_cbs (1 / 4) (PerCpuSchedule_init 2))"
  by code_simp

theorem allocate_cbs_budgets_correct_witness:
  "\<exists>sched'. allocate_cbs_budgets 2 demo_cbs (1 / 4) (PerCpuSchedule_init 2) = Inr sched'
    \<and> mset (pcs_cbs_allocations sched') = mset (map (alloc_of 2) demo_cbs)
    \<and> sum_list (map exact_util demo_cbs) = 5 / 16
    \<and> sum_list (map exact_util demo_cbs) + 1 / 4 \<le> 78 / 100 + 1 / 2 ^ 30"
proof -
  obtain sched' where r: "allocate_cbs_budgets 2 demo_cbs (1 / 4) (PerCpuSchedule_init 2) = Inr sched'"
    using demo_cbs_alloc by (cases "allocate_cbs_budgets 2 demo_cbs (1 / 4) (PerCpuSchedule_init 2)") simp_all
  have sum: "sum_list (map exact_util demo_cbs) = 5 / 16"
    by (simp add: demo_cbs_def demo_task_def exact_util_def)
  have "pcs_cbs_allocations (PerCpuSchedule_init 2) = []" "length demo_cbs < 2 ^ 21"
    by (simp_all add: PerCpuSchedule_init_def demo_cbs_def)
  from allocate_cbs_budgets_correct [OF r this(1) _ this(2)] r sum show ?thesis by simp
qed

end
