(* ===== verification/Scheduler_Assign.thy ===== *)
theory Scheduler_Assign
  imports Scheduler_CBS
begin

text \<open>
  The assignment of tasks to CPUs: every workload of time-triggered tasks goes to one CPU, every
  server task to the CPU with the most residual capacity that holds it, and the utilisation
  recorded for a CPU covers the exact utilisation of the tasks on it.
\<close>

section \<open>Grouping by workload\<close>

lemma tt_workload_groups_find:
  assumes "n \<le> length tasks"
  shows "map_ok (foldl (\<lambda>m i. map_modify [] (\<lambda>is. is @ [i]) (ct_workload_id (tasks ! i)) m) [] [0..<n])
    \<and> (\<forall>wl. map_find wl (foldl (\<lambda>m i. map_modify [] (\<lambda>is. is @ [i]) (ct_workload_id (tasks ! i)) m) [] [0..<n])
        = (let is = filter (\<lambda>i. ct_workload_id (tasks ! i) = wl) [0..<n] in if is = [] then None else Some is))"
  using assms
proof (induction n)
  case (Suc n)
  then show ?case
    by (auto simp: Let_def map_ok_modify map_find_modify map_at_def)
qed simp

lemma groups_ok: "map_ok (tt_workload_groups tasks)"
  using tt_workload_groups_find [of "length tasks" tasks] by (simp add: tt_workload_groups_def)

lemma groups_mem:
  "(wl, is) \<in> set (tt_workload_groups tasks) \<longleftrightarrow>
     is = filter (\<lambda>i. ct_workload_id (tasks ! i) = wl) [0..<length tasks] \<and> is \<noteq> []"
proof -
  have "(wl, is) \<in> set (tt_workload_groups tasks) \<longleftrightarrow> map_find wl (tt_workload_groups tasks) = Some is"
    by (simp add: map_find_iff groups_ok)
  then show ?thesis
    using tt_workload_groups_find [of "length tasks" tasks]
    by (auto simp: tt_workload_groups_def Let_def)
qed

section \<open>Time-triggered workloads\<close>

lemma length_assign_group: "length (snd (assign_group cpu is u tasks)) = length tasks"
  by (induction "is" arbitrary: u tasks) (simp_all add: Let_def)

lemma assign_group_tasks:
  "i < length tasks \<Longrightarrow> snd (assign_group cpu is u tasks) ! i
     = (if i \<in> set is then (tasks ! i)\<lparr>ct_assigned_cpu := cpu\<rparr> else tasks ! i)"
proof (induction "is" arbitrary: u tasks)
  case (Cons j "is")
  then show ?case
    by (cases "j = i") (simp_all add: Let_def)
qed simp

lemma exact_util_assigned [simp]: "exact_util (t\<lparr>ct_assigned_cpu := c\<rparr>) = exact_util t"
  by (simp add: exact_util_def)

lemma utilization_assigned [simp]: "utilization (t\<lparr>ct_assigned_cpu := c\<rparr>) = utilization t"
  by (simp add: utilization_def)

lemma exact_util_zero_period: "\<not> 0 < ct_period_us t \<Longrightarrow> exact_util t = 0"
  by (simp add: exact_util_def word_gt_0)

lemma assign_group_util:
  assumes "approx n u S" "0 < n" "\<forall>i\<in>set is. i < length tasks"
  shows "approx (n + length is) (fst (assign_group cpu is u tasks)) (S + sum_list (map (\<lambda>i. exact_util (tasks ! i)) is))"
  using assms
proof (induction "is" arbitrary: u n S tasks)
  case (Cons i "is")
  let ?t = "(tasks ! i)\<lparr>ct_assigned_cpu := cpu\<rparr>"
  let ?u = "if 0 < ct_period_us ?t then fadd u (utilization ?t) else u"
  have "approx n (utilization (tasks ! i)) (exact_util (tasks ! i))"
    using approx_weaken [OF approx_utilization, of n] Cons.prems(2) by simp
  from approx_fadd [OF Cons.prems(1) this] approx_weaken [OF Cons.prems(1), of "Suc n"]
  have step: "approx (Suc n) ?u (S + exact_util (tasks ! i))"
    by (auto simp: exact_util_zero_period)
  have same: "map (\<lambda>j. exact_util (tasks[i := ?t] ! j)) is = map (\<lambda>j. exact_util (tasks ! j)) is"
    using Cons.prems(3) by (auto simp: nth_list_update)
  have run: "assign_group cpu (i # is) u tasks = assign_group cpu is ?u (tasks[i := ?t])"
    by (simp add: Let_def)
  have "\<forall>j\<in>set is. j < length (tasks[i := ?t])" using Cons.prems(3) by simp
  from Cons.IH [OF step _ this] show ?case
    unfolding run same by (simp add: add.assoc)
qed simp

text \<open>What the table of CPUs records: one entry per CPU, nothing placed yet.\<close>

definition fresh_sched :: "int \<Rightarrow> PerCpuSchedule \<Rightarrow> bool" where
  "fresh_sched cpu s \<longleftrightarrow> pcs_cpu_id s = cpu \<and> pcs_tt_slots s = [] \<and> pcs_cbs_allocations s = []"

definition scheds_ok :: "int list \<Rightarrow> (int, PerCpuSchedule) std_map \<Rightarrow> bool" where
  "scheds_ok available m \<longleftrightarrow> map_ok m \<and> fst ` set m = set available
     \<and> (\<forall>cpu s. map_find cpu m = Some s \<longrightarrow> fresh_sched cpu s)"

lemma scheds_ok_find: "scheds_ok available m \<Longrightarrow> cpu \<in> set available \<Longrightarrow> \<exists>s. map_find cpu m = Some s \<and> fresh_sched cpu s"
  unfolding scheds_ok_def by (metis map_find_None option.exhaust)

lemma scheds_ok_modify:
  assumes "scheds_ok available m" "cpu \<in> set available" "\<And>s. fresh_sched cpu s \<Longrightarrow> fresh_sched cpu (f s)"
  shows "scheds_ok available (map_modify d f cpu m)"
proof -
  from scheds_ok_find [OF assms(1,2)] obtain s where s: "map_find cpu m = Some s" "fresh_sched cpu s" by blast
  have "fst ` set (map_modify d f cpu m) = set available"
    using assms(1,2) by (auto simp: map_modify_def fst_set_map_put scheds_ok_def)
  moreover have "fresh_sched c t" if "map_find c (map_modify d f cpu m) = Some t" for c t
    using that assms(1,3) s by (auto simp: map_find_modify map_at_def scheds_ok_def split: if_splits)
  ultimately show ?thesis
    using assms(1) by (simp add: scheds_ok_def map_ok_modify)
qed

definition group_util :: "(string \<Rightarrow> int) \<Rightarrow> ClassifiedTask list \<Rightarrow> int \<Rightarrow> (string, nat list) std_map \<Rightarrow> rat" where
  "group_util a tasks cpu groups =
     sum_list (map (\<lambda>(wl, is). if a wl = cpu then sum_list (map (\<lambda>i. exact_util (tasks ! i)) is) else 0) groups)"

definition u_tt_of :: "(int, PerCpuSchedule) std_map \<Rightarrow> int \<Rightarrow> double" where
  "u_tt_of m cpu = pcs_u_tt (map_at (PerCpuSchedule_init (-1)) cpu m)"

lemma assign_tt_correct:
  assumes "available \<noteq> []" "scheds_ok available scheds" "distinct (map fst groups)"
    and "\<forall>(wl, is)\<in>set groups. \<forall>i. i \<in> set is \<longleftrightarrow> i < length tasks \<and> ct_workload_id (tasks ! i) = wl"
    and "\<forall>(wl, is)\<in>set groups. length is < n"
    and "\<forall>cpu\<in>set available. approx n (u_tt_of scheds cpu) (S cpu)"
    and "assign_tt available groups cpu_idx tasks scheds = (tasks', scheds')"
  shows "\<exists>a. (\<forall>wl. a wl \<in> set available) \<and> scheds_ok available scheds'
    \<and> length tasks' = length tasks
    \<and> (\<forall>i<length tasks. tasks' ! i = (if ct_workload_id (tasks ! i) \<in> fst ` set groups
          then (tasks ! i)\<lparr>ct_assigned_cpu := a (ct_workload_id (tasks ! i))\<rparr> else tasks ! i))
    \<and> (\<forall>cpu\<in>set available. approx (n + length groups) (u_tt_of scheds' cpu) (S cpu + group_util a tasks cpu groups))"
  using assms
proof (induction groups arbitrary: cpu_idx tasks scheds n S)
  case Nil
  then show ?case by (intro exI [of _ "\<lambda>_. hd available"]) (auto simp: group_util_def)
next
  case (Cons g groups)
  obtain wl "is" where g: "g = (wl, is)" by (cases g)
  define idx where "idx = (if length available \<le> cpu_idx then length available - 1 else cpu_idx)"
  define cpu where "cpu = available ! idx"
  have "idx < length available" using Cons.prems(1) by (simp add: idx_def)
  then have cpu: "cpu \<in> set available" by (simp add: cpu_def)
  obtain u tasks1 where grp: "assign_group cpu is 0 tasks = (u, tasks1)" by (cases "assign_group cpu is 0 tasks")
  define scheds1 where "scheds1 = map_modify (PerCpuSchedule_init (-1)) (\<lambda>s. s\<lparr>pcs_u_tt := fadd (pcs_u_tt s) u\<rparr>) cpu scheds"
  have run: "assign_tt available groups (idx + 1) tasks1 scheds1 = (tasks', scheds')"
    using Cons.prems(7) grp by (simp add: g Let_def idx_def cpu_def scheds1_def)
  have isin: "i \<in> set is \<longleftrightarrow> i < length tasks \<and> ct_workload_id (tasks ! i) = wl" for i
    using Cons.prems(4) g by auto
  have len1: "length tasks1 = length tasks" using length_assign_group [of cpu "is" 0 tasks] grp by simp
  have t1: "tasks1 ! i = (if i \<in> set is then (tasks ! i)\<lparr>ct_assigned_cpu := cpu\<rparr> else tasks ! i)" if "i < length tasks" for i
    using assign_group_tasks [OF that, of cpu "is" 0] grp by simp
  then have wl1: "ct_workload_id (tasks1 ! i) = ct_workload_id (tasks ! i)"
    and eu1: "exact_util (tasks1 ! i) = exact_util (tasks ! i)" if "i < length tasks" for i
    using that by simp_all
  have ok1: "scheds_ok available scheds1"
    unfolding scheds1_def using Cons.prems(2) cpu by (rule scheds_ok_modify) (simp add: fresh_sched_def)
  have gu: "approx n u (sum_list (map (\<lambda>i. exact_util (tasks ! i)) is))"
  proof -
    have "approx (1 + length is) u (0 + sum_list (map (\<lambda>i. exact_util (tasks ! i)) is))"
      using assign_group_util [of 1 0 0 "is" tasks cpu] isin grp by simp
    moreover have "1 + length is \<le> n" using Cons.prems(5) g by auto
    ultimately show ?thesis using approx_weaken by simp
  qed
  define S1 where "S1 = (\<lambda>c. S c + (if c = cpu then sum_list (map (\<lambda>i. exact_util (tasks ! i)) is) else 0))"
  have ap1: "\<forall>c\<in>set available. approx (Suc n) (u_tt_of scheds1 c) (S1 c)"
  proof
    fix c
    assume c: "c \<in> set available"
    have "u_tt_of scheds1 c = (if c = cpu then fadd (u_tt_of scheds c) u else u_tt_of scheds c)"
      using Cons.prems(2) by (simp add: u_tt_of_def scheds1_def scheds_ok_def map_at_def map_find_modify split: option.split)
    then show "approx (Suc n) (u_tt_of scheds1 c) (S1 c)"
      using Cons.prems(6) c approx_fadd [OF _ gu] approx_weaken [of n _ _ "Suc n"] by (auto simp: S1_def)
  qed
  have d: "distinct (map fst groups)" "wl \<notin> fst ` set groups" using Cons.prems(3) g by auto
  have gi: "\<forall>(wl', is')\<in>set groups. \<forall>i. i \<in> set is' \<longleftrightarrow> i < length tasks1 \<and> ct_workload_id (tasks1 ! i) = wl'"
    using Cons.prems(4) len1 wl1 by fastforce
  have gl: "\<forall>(wl', is')\<in>set groups. length is' < Suc n" using Cons.prems(5) by fastforce
  from Cons.IH [OF Cons.prems(1) ok1 d(1) gi gl ap1 run] obtain a0 where
    a0: "\<forall>wl. a0 wl \<in> set available" "scheds_ok available scheds'" "length tasks' = length tasks1"
    "\<forall>i<length tasks1. tasks' ! i = (if ct_workload_id (tasks1 ! i) \<in> fst ` set groups
          then (tasks1 ! i)\<lparr>ct_assigned_cpu := a0 (ct_workload_id (tasks1 ! i))\<rparr> else tasks1 ! i)"
    "\<forall>c\<in>set available. approx (Suc n + length groups) (u_tt_of scheds' c) (S1 c + group_util a0 tasks1 c groups)"
    by blast
  let ?a = "a0(wl := cpu)"
  have gu_eq: "S c + group_util ?a tasks c (g # groups) = S1 c + group_util a0 tasks1 c groups" for c
  proof -
    have "map (\<lambda>(wl', is'). if ?a wl' = c then sum_list (map (\<lambda>i. exact_util (tasks ! i)) is') else 0) groups
        = map (\<lambda>(wl', is'). if a0 wl' = c then sum_list (map (\<lambda>i. exact_util (tasks1 ! i)) is') else 0) groups"
    proof (rule map_cong [OF refl], clarify)
      fix wl' is'
      assume m: "(wl', is') \<in> set groups"
      then have "wl' \<noteq> wl" using d(2) by force
      moreover have "i < length tasks" if "i \<in> set is'" for i using that m gi len1 by fastforce
      then have "map (\<lambda>i. exact_util (tasks ! i)) is' = map (\<lambda>i. exact_util (tasks1 ! i)) is'"
        using eu1 by simp
      ultimately show "(if ?a wl' = c then sum_list (map (\<lambda>i. exact_util (tasks ! i)) is') else 0)
          = (if a0 wl' = c then sum_list (map (\<lambda>i. exact_util (tasks1 ! i)) is') else 0)"
        by (simp only: fun_upd_def) simp
    qed
    then have "group_util ?a tasks c groups = group_util a0 tasks1 c groups"
      unfolding group_util_def by (rule arg_cong)
    moreover have "group_util ?a tasks c (g # groups)
        = (if cpu = c then sum_list (map (\<lambda>i. exact_util (tasks ! i)) is) else 0) + group_util ?a tasks c groups"
      by (simp add: group_util_def g)
    ultimately show ?thesis by (simp add: S1_def)
  qed
  have T: "tasks' ! i = (if ct_workload_id (tasks ! i) \<in> fst ` set (g # groups)
      then (tasks ! i)\<lparr>ct_assigned_cpu := ?a (ct_workload_id (tasks ! i))\<rparr> else tasks ! i)" if i: "i < length tasks" for i
    using a0(4) len1 i t1 [OF i] wl1 [OF i] isin [of i] d(2) by (auto simp: g)
  have A: "\<forall>c\<in>set available. approx (n + length (g # groups)) (u_tt_of scheds' c) (S c + group_util ?a tasks c (g # groups))"
    unfolding gu_eq using a0(5) by simp
  show ?case
  proof (intro exI [of _ ?a] conjI)
    show "\<forall>wl. ?a wl \<in> set available" using a0(1) cpu by simp
    show "scheds_ok available scheds'" by (rule a0(2))
    show "length tasks' = length tasks" using a0(3) len1 by simp
  qed (use T A in blast)+
qed

section \<open>Server tasks\<close>

text \<open>Worst fit: the choice is a CPU that holds the task and none that does has more room.\<close>

lemma best_fit_spec:
  assumes "best_fit scheds us cs b r = c"
  shows "(c = b \<and> (\<forall>c'\<in>set cs. us \<le> residual scheds c' \<longrightarrow> residual scheds c' \<le> r))
    \<or> (c \<in> set cs \<and> us \<le> residual scheds c \<and> r < residual scheds c
        \<and> (\<forall>c'\<in>set cs. us \<le> residual scheds c' \<longrightarrow> residual scheds c' \<le> residual scheds c))"
  using assms
proof (induction cs arbitrary: b r)
  case (Cons x cs)
  show ?case
  proof (cases "us \<le> residual scheds x \<and> r < residual scheds x")
    case True
    with Cons.prems have "best_fit scheds us cs x (residual scheds x) = c" by (simp add: Let_def)
    from Cons.IH [OF this] True show ?thesis by auto
  next
    case False
    with Cons.prems have "best_fit scheds us cs b r = c" by (simp add: Let_def)
    from Cons.IH [OF this] False show ?thesis by auto
  qed
qed simp

lemma assign_cbs_correct:
  assumes "scheds_ok available scheds" "distinct is" "\<forall>i\<in>set is. i < length tasks"
    and "assign_cbs available is tasks scheds = Some (tasks', scheds')"
  shows "scheds_ok available scheds' \<and> length tasks' = length tasks
    \<and> (\<forall>cpu\<in>set available. u_tt_of scheds' cpu = u_tt_of scheds cpu)
    \<and> (\<exists>b. (\<forall>i\<in>set is. b i \<in> set available \<and> 0 \<le> b i)
        \<and> (\<forall>i<length tasks. tasks' ! i = (if i \<in> set is then (tasks ! i)\<lparr>ct_assigned_cpu := b i\<rparr> else tasks ! i)))"
  using assms
proof (induction "is" arbitrary: tasks scheds)
  case (Cons j "is")
  define us where "us = utilization (tasks ! j)"
  define cpu where "cpu = best_fit scheds us available (-1) (-1)"
  define tasks1 where "tasks1 = tasks[j := (tasks ! j)\<lparr>ct_assigned_cpu := cpu\<rparr>]"
  define scheds1 where "scheds1 = map_modify (PerCpuSchedule_init (-1)) (\<lambda>s. s\<lparr>pcs_u_cbs := fadd (pcs_u_cbs s) us\<rparr>) cpu scheds"
  from Cons.prems(4) have nn: "\<not> cpu < 0" and run: "assign_cbs available is tasks1 scheds1 = Some (tasks', scheds')"
    by (simp_all add: Let_def us_def cpu_def tasks1_def scheds1_def split: if_splits)
  have mem: "cpu \<in> set available"
    using best_fit_spec [of scheds us available "-1" "-1" cpu] nn by (auto simp: cpu_def)
  have ok1: "scheds_ok available scheds1"
    unfolding scheds1_def using Cons.prems(1) mem by (rule scheds_ok_modify) (simp add: fresh_sched_def)
  have tt1: "u_tt_of scheds1 c = u_tt_of scheds c" for c
    using Cons.prems(1) by (simp add: u_tt_of_def scheds1_def scheds_ok_def map_at_def map_find_modify split: option.split)
  have "\<forall>i\<in>set is. i < length tasks1" using Cons.prems(3) by (simp add: tasks1_def)
  from Cons.IH [OF ok1 _ this run] Cons.prems(2) obtain b where
    b: "scheds_ok available scheds'" "length tasks' = length tasks1"
    "\<forall>cpu\<in>set available. u_tt_of scheds' cpu = u_tt_of scheds1 cpu" "\<forall>i\<in>set is. b i \<in> set available \<and> 0 \<le> b i"
    "\<forall>i<length tasks1. tasks' ! i = (if i \<in> set is then (tasks1 ! i)\<lparr>ct_assigned_cpu := b i\<rparr> else tasks1 ! i)"
    by auto
  have "tasks' ! i = (if i \<in> set (j # is) then (tasks ! i)\<lparr>ct_assigned_cpu := (b(j := cpu)) i\<rparr> else tasks ! i)"
    if "i < length tasks" for i
    using b(5) that Cons.prems(2) by (cases "i = j") (auto simp: tasks1_def)
  moreover have "\<forall>i\<in>set (j # is). (b(j := cpu)) i \<in> set available \<and> 0 \<le> (b(j := cpu)) i"
    using b(4) mem nn by simp
  ultimately have "\<exists>b. (\<forall>i\<in>set (j # is). b i \<in> set available \<and> 0 \<le> b i)
      \<and> (\<forall>i<length tasks. tasks' ! i = (if i \<in> set (j # is) then (tasks ! i)\<lparr>ct_assigned_cpu := b i\<rparr> else tasks ! i))"
    by (intro exI [of _ "b(j := cpu)"] conjI) blast+
  with b(1-3) tt1 show ?case by (simp add: tasks1_def)
qed simp

section \<open>The whole assignment\<close>

interpretation int_order: strict_weak_order "(<) :: int \<Rightarrow> int \<Rightarrow> bool"
  by unfold_locales auto

lemma isolated_cpus_nonempty: "isolated_cpus mgr node_id \<noteq> []"
proof -
  have "std_sort (<) xs \<noteq> []" if "xs \<noteq> []" for xs :: "int list"
    using that int_order.std.length_srt [of xs] by (metis length_0_conv)
  then show ?thesis by (auto simp: isolated_cpus_def Let_def)
qed

lemma init_scheds:
  defines "m \<equiv> \<lambda>available. foldl (\<lambda>m cpu. map_put cpu (PerCpuSchedule_init cpu) m) [] available"
  shows "scheds_ok available (m available)" and "u_tt_of (m available) cpu = 0"
proof -
  have keys: "fst ` set (foldl (\<lambda>m cpu. map_put cpu (PerCpuSchedule_init cpu) m) m0 xs) = fst ` set m0 \<union> set xs" for m0 xs
    by (induction xs arbitrary: m0) (auto simp: fst_set_map_put)
  have ok: "map_ok (m available)"
    unfolding m_def using smap.ok_put_all [of "[]" "\<lambda>c. c" PerCpuSchedule_init] by simp
  have find: "s = PerCpuSchedule_init c" if "map_find c (m available) = Some s" for c s
    using that smap.find_put_all_some [of "[]" c "\<lambda>c. c" PerCpuSchedule_init available s] by (auto simp: m_def)
  have "fst ` set (m available) = set available" using keys [of "[]" available] by (simp add: m_def)
  moreover have "fresh_sched c s" if "map_find c (m available) = Some s" for c s
    using find [OF that] by (simp add: fresh_sched_def PerCpuSchedule_init_def)
  ultimately show "scheds_ok available (m available)"
    using ok by (simp add: scheds_ok_def)
  show "u_tt_of (m available) cpu = 0"
    using find [of cpu] by (cases "map_find cpu (m available)") (simp_all add: u_tt_of_def map_at_def PerCpuSchedule_init_def)
qed

lemma groups_image:
  "set (tt_workload_groups tasks) = (\<lambda>wl. (wl, filter (\<lambda>i. ct_workload_id (tasks ! i) = wl) [0..<length tasks])) `
     (\<lambda>i. ct_workload_id (tasks ! i)) ` {..<length tasks}" (is "_ = ?f ` ?W")
proof (rule set_eqI)
  fix g :: "string \<times> nat list"
  obtain wl "is" where g: "g = (wl, is)" by (cases g)
  show "g \<in> set (tt_workload_groups tasks) \<longleftrightarrow> g \<in> ?f ` ?W"
    unfolding g groups_mem image_iff by (auto simp: filter_empty_conv atLeast0LessThan)
qed

lemma groups_distinct: "distinct (map fst (tt_workload_groups tasks))"
  using groups_ok [of tasks] by (simp add: map_ok_def strict_sorted_iff)

lemma group_util_on_cpu:
  "group_util a tasks cpu (tt_workload_groups tasks)
     = sum_list (map exact_util (on_cpu cpu (map (\<lambda>t. t\<lparr>ct_assigned_cpu := a (ct_workload_id t)\<rparr>) tasks)))"
proof -
  let ?n = "length tasks" and ?w = "\<lambda>i. ct_workload_id (tasks ! i)"
  let ?x = "\<lambda>i. if a (?w i) = cpu then exact_util (tasks ! i) else 0"
  let ?g = "\<lambda>(wl, is). if a wl = cpu then sum_list (map (\<lambda>i. exact_util (tasks ! i)) is) else 0"
  let ?f = "\<lambda>wl. (wl, filter (\<lambda>i. ?w i = wl) [0..<?n])"
  have "group_util a tasks cpu (tt_workload_groups tasks) = sum ?g (set (tt_workload_groups tasks))"
    unfolding group_util_def using groups_distinct [of tasks]
    by (intro sum_list_distinct_conv_sum_set) (simp add: distinct_map)
  also have "\<dots> = (\<Sum>wl\<in>?w ` {..<?n}. ?g (?f wl))"
    unfolding groups_image by (subst sum.reindex) (auto simp: inj_on_def)
  also have "\<dots> = (\<Sum>wl\<in>?w ` {..<?n}. \<Sum>i\<in>{i \<in> {..<?n}. ?w i = wl}. ?x i)"
  proof (rule sum.cong [OF refl])
    fix wl
    have "sum_list (map (\<lambda>i. exact_util (tasks ! i)) (filter (\<lambda>i. ?w i = wl) [0..<?n]))
        = (\<Sum>i\<in>{i \<in> {..<?n}. ?w i = wl}. exact_util (tasks ! i))"
      by (subst sum_list_distinct_conv_sum_set) (auto intro!: sum.cong)
    then show "?g (?f wl) = (\<Sum>i\<in>{i \<in> {..<?n}. ?w i = wl}. ?x i)"
      by (auto intro!: sum.cong)
  qed
  also have "\<dots> = (\<Sum>i<?n. ?x i)"
    by (rule sum.group) simp_all
  also have "\<dots> = sum_list (map (\<lambda>t. if a (ct_workload_id t) = cpu then exact_util t else 0) tasks)"
    by (simp add: sum_list_sum_nth atLeast0LessThan)
  also have "\<dots> = sum_list (map exact_util (on_cpu cpu (map (\<lambda>t. t\<lparr>ct_assigned_cpu := a (ct_workload_id t)\<rparr>) tasks)))"
    by (induction tasks) (simp_all add: on_cpu_def)
  finally show ?thesis .
qed

lemma length_groups: "length (tt_workload_groups tasks) \<le> length tasks"
proof -
  have "length (tt_workload_groups tasks) = card (set (tt_workload_groups tasks))"
    using groups_distinct [of tasks] by (metis distinct_card distinct_map)
  also have "\<dots> \<le> card ((\<lambda>i. ct_workload_id (tasks ! i)) ` {..<length tasks})"
    unfolding groups_image by (rule card_image_le) simp
  also have "\<dots> \<le> card {..<length tasks}" by (rule card_image_le) simp
  finally show ?thesis by simp
qed

lemma assign_cpus_spec:
  assumes r: "assign_cpus mgr node_id tt cbs = Some (tt', cbs', scheds)"
  defines "available \<equiv> isolated_cpus mgr node_id"
  shows "\<exists>a. (\<forall>wl. a wl \<in> set available) \<and> tt' = map (\<lambda>t. t\<lparr>ct_assigned_cpu := a (ct_workload_id t)\<rparr>) tt"
    and "list_all2 (\<lambda>t t'. \<exists>c\<in>set available. 0 \<le> c \<and> t' = t\<lparr>ct_assigned_cpu := c\<rparr>) cbs cbs'"
    and "scheds_ok available scheds"
    and "\<And>cpu. cpu \<in> set available \<Longrightarrow>
      approx (2 * length tt + 1) (u_tt_of scheds cpu) (sum_list (map exact_util (on_cpu cpu tt')))"
proof -
  let ?m = "foldl (\<lambda>m cpu. map_put cpu (PerCpuSchedule_init cpu) m) [] available"
  let ?lt = "\<lambda>a b. utilization (cbs ! b) < utilization (cbs ! a)"
  obtain scheds1 where tt: "assign_tt available (tt_workload_groups tt) 0 tt ?m = (tt', scheds1)"
    and cb: "assign_cbs available (std_sort ?lt [0..<length cbs]) cbs scheds1 = Some (cbs', scheds)"
    using r by (auto simp: assign_cpus_def Let_def available_def split: prod.splits)
  have ne: "available \<noteq> []" by (simp add: available_def isolated_cpus_nonempty)
  have gi: "\<forall>(wl, is)\<in>set (tt_workload_groups tt). \<forall>i. i \<in> set is \<longleftrightarrow> i < length tt \<and> ct_workload_id (tt ! i) = wl"
    by (auto simp: groups_mem)
  have gl: "\<forall>(wl, is)\<in>set (tt_workload_groups tt). length is < length tt + 1"
    using length_filter_le [of _ "[0..<length tt]"] by (auto simp: groups_mem less_Suc_eq_le)
  have ap: "\<forall>cpu\<in>set available. approx (length tt + 1) (u_tt_of ?m cpu) 0"
    using init_scheds(2) by simp
  from assign_tt_correct [OF ne init_scheds(1) groups_distinct gi gl ap tt] obtain a where
    a: "\<forall>wl. a wl \<in> set available" "scheds_ok available scheds1" "length tt' = length tt"
    "\<forall>i<length tt. tt' ! i = (if ct_workload_id (tt ! i) \<in> fst ` set (tt_workload_groups tt)
        then (tt ! i)\<lparr>ct_assigned_cpu := a (ct_workload_id (tt ! i))\<rparr> else tt ! i)"
    "\<forall>cpu\<in>set available. approx (length tt + 1 + length (tt_workload_groups tt)) (u_tt_of scheds1 cpu)
        (0 + group_util a tt cpu (tt_workload_groups tt))"
    by auto
  have "fst ` set (tt_workload_groups tt) = (\<lambda>i. ct_workload_id (tt ! i)) ` {..<length tt}"
    unfolding groups_image by (auto simp: image_image)
  then have tt': "tt' = map (\<lambda>t. t\<lparr>ct_assigned_cpu := a (ct_workload_id t)\<rparr>) tt"
    using a(3,4) by (intro nth_equalityI) auto
  with a(1) show "\<exists>a. (\<forall>wl. a wl \<in> set available) \<and> tt' = map (\<lambda>t. t\<lparr>ct_assigned_cpu := a (ct_workload_id t)\<rparr>) tt"
    by blast
  have idx: "mset (std_sort ?lt [0..<length cbs]) = mset [0..<length cbs]" by (rule mset_std_sort)
  then have set_idx: "set (std_sort ?lt [0..<length cbs]) = {..<length cbs}"
    by (metis atLeast0LessThan atLeast_upt mset_eq_setD set_upt)
  have "distinct (std_sort ?lt [0..<length cbs])" using idx by (metis distinct_upt mset_eq_imp_distinct_iff)
  from assign_cbs_correct [OF a(2) this _ cb] set_idx obtain b where
    b: "scheds_ok available scheds" "length cbs' = length cbs" "\<forall>cpu\<in>set available. u_tt_of scheds cpu = u_tt_of scheds1 cpu"
    "\<forall>i<length cbs. b i \<in> set available \<and> 0 \<le> b i" "\<forall>i<length cbs. cbs' ! i = (cbs ! i)\<lparr>ct_assigned_cpu := b i\<rparr>"
    by auto
  show "scheds_ok available scheds" by (rule b(1))
  show "list_all2 (\<lambda>t t'. \<exists>c\<in>set available. 0 \<le> c \<and> t' = t\<lparr>ct_assigned_cpu := c\<rparr>) cbs cbs'"
    using b(2,4,5) by (auto simp: list_all2_conv_all_nth)
  fix cpu
  assume cpu: "cpu \<in> set available"
  with a(5) b(3) have "approx (length tt + 1 + length (tt_workload_groups tt)) (u_tt_of scheds cpu)
      (group_util a tt cpu (tt_workload_groups tt))" by simp
  then show "approx (2 * length tt + 1) (u_tt_of scheds cpu) (sum_list (map exact_util (on_cpu cpu tt')))"
    unfolding tt' group_util_on_cpu [symmetric]
    by (rule approx_weaken) (use length_groups [of tt] in linarith)
qed

section \<open>Properties\<close>

text \<open>C11: A successful CPU assignment puts all time-triggered tasks of a workload on one and the same
  isolated CPU and every server task on one, changes nothing else of a task, and records for every CPU
  a utilisation that covers the exact utilisation of the time-triggered tasks on it up to rounding.\<close>

theorem assign_cpus_correct:
  assumes "assign_cpus mgr node_id tt cbs = Some (tt', cbs', scheds)"
  shows "(\<exists>a. (\<forall>wl. a wl \<in> set (isolated_cpus mgr node_id))
        \<and> tt' = map (\<lambda>t. t\<lparr>ct_assigned_cpu := a (ct_workload_id t)\<rparr>) tt)
    \<and> list_all2 (\<lambda>t t'. \<exists>c\<in>set (isolated_cpus mgr node_id). t' = t\<lparr>ct_assigned_cpu := c\<rparr>) cbs cbs'
    \<and> fst ` set scheds = set (isolated_cpus mgr node_id)
    \<and> (\<forall>cpu\<in>set (isolated_cpus mgr node_id).
         approx (2 * length tt + 1) (u_tt_of scheds cpu) (sum_list (map exact_util (on_cpu cpu tt'))))"
proof -
  note s = assign_cpus_spec [OF assms]
  have "list_all2 (\<lambda>t t'. \<exists>c\<in>set (isolated_cpus mgr node_id). t' = t\<lparr>ct_assigned_cpu := c\<rparr>) cbs cbs'"
    using s(2) by (rule list_all2_mono) blast
  with s(1,3,4) show ?thesis by (simp add: scheds_ok_def)
qed

theorem assign_cpus_correct_witness:
  "\<exists>tt' cbs' scheds. assign_cpus None ''n'' demo_tt [] = Some (tt', cbs', scheds)
    \<and> length tt' = 2 \<and> fst ` set scheds = {2, 3}"
proof -
  have "assign_cpus None ''n'' demo_tt [] \<noteq> None"
    by (simp add: assign_cpus_def Let_def std_sort_def split: prod.split)
  then obtain tt' cbs' scheds where r: "assign_cpus None ''n'' demo_tt [] = Some (tt', cbs', scheds)"
    by (metis not_None_eq prod_cases3)
  have cpus: "set (isolated_cpus None ''n'') = {2, 3}" by (simp add: isolated_cpus_def)
  from assign_cpus_correct [OF r] have "length tt' = 2 \<and> fst ` set scheds = {2, 3}"
    unfolding cpus by (auto simp: demo_tt_def)
  with r show ?thesis by (intro exI conjI) auto
qed

text \<open>The placement of a server task is worst fit: the chosen CPU has room for the task, and no
  CPU with room for it has more; no CPU is chosen exactly when none has room.\<close>

theorem best_fit_is_worst_fit:
  assumes "0 \<le> us" "\<forall>c\<in>set cs. 0 \<le> c"
  shows "(best_fit scheds us cs (-1) (-1) = - 1 \<and> (\<forall>c\<in>set cs. residual scheds c < us))
    \<or> (best_fit scheds us cs (-1) (-1) \<in> set cs \<and> us \<le> residual scheds (best_fit scheds us cs (-1) (-1))
        \<and> (\<forall>c\<in>set cs. us \<le> residual scheds c \<longrightarrow> residual scheds c \<le> residual scheds (best_fit scheds us cs (-1) (-1))))"
  using best_fit_spec [OF refl, of scheds us cs "-1" "-1"] assms by (auto simp: not_le)

theorem best_fit_is_worst_fit_witness: "best_fit [] 1 [2, 3] (-1) (-1) = -1"
proof -
  have r: "residual [] c < 1" for c
    by (simp add: residual_def map_at_def PerCpuSchedule_init_def) code_simp
  have "(0::rat) \<le> 1" "\<forall>c\<in>set [2, 3::int]. 0 \<le> c" by simp_all
  from best_fit_is_worst_fit [OF this, of "[]"] r show ?thesis by (meson leD)
qed

end
