(* ===== verification/Scheduler_Table.thy ===== *)
theory Scheduler_Table
  imports Scheduler_Assign
begin

text \<open>
  The pipeline end to end: what a schedule table that the generator returns guarantees for every
  CPU of the node, and what the generator does when the hyperperiods of the CPUs differ.
\<close>

section \<open>The loops over the CPUs\<close>

lemma for_each_cpu_Inr:
  "for_each_cpu f m = Inr m' \<longleftrightarrow> list_all2 (\<lambda>(c, s) (c', s'). c' = c \<and> f c s = Inr s') m m'"
proof (induction m arbitrary: m')
  case Nil
  then show ?case by auto
next
  case (Cons e m)
  obtain c s where e: "e = (c, s)" by (cases e)
  show ?case
    by (cases m') (auto simp: e bindE_eq_Inr Cons.IH)
qed

text \<open>A relation of schedules that both loops keep, key by key.\<close>

lemma list_all2_keys: "list_all2 (\<lambda>(c, s) (c', s'). c' = c \<and> R c s s') m m' \<Longrightarrow> map fst m' = map fst m"
  by (induction rule: list_all2_induct) auto

lemma list_all2_mem:
  assumes "list_all2 (\<lambda>(c, s) (c', s'). c' = c \<and> R c s s') m m'" "(c, s') \<in> set m'"
  shows "\<exists>s. (c, s) \<in> set m \<and> R c s s'"
  using assms by (induction rule: list_all2_induct) auto

section \<open>One CPU\<close>

text \<open>The hyperperiod of a CPU is a whole number of periods of each of its tasks and the longest of these periods.\<close>

definition whole_periods :: "nat \<Rightarrow> ClassifiedTask list \<Rightarrow> bool" where
  "whole_periods H tasks \<longleftrightarrow> 0 < H \<and> (\<forall>t\<in>set tasks. 0 < ct_period_us t \<longrightarrow> unat (ct_period_us t) dvd H)
     \<and> (\<exists>t\<in>set tasks. unat (ct_period_us t) = H)"

definition cpu_schedule_ok :: "int \<Rightarrow> ClassifiedTask list \<Rightarrow> ClassifiedTask list \<Rightarrow> PerCpuSchedule \<Rightarrow> bool" where
  "cpu_schedule_ok cpu tt cbs s \<longleftrightarrow>
     (if tt = [] then pcs_tt_slots s = []
      else tt_placed cpu (unat (calculate_hyperperiod (positive_periods tt))) tt (pcs_tt_slots s) \<and> pcs_tt_slots s \<noteq> []
        \<and> whole_periods (unat (calculate_hyperperiod (positive_periods tt))) tt)
     \<and> mset (pcs_cbs_allocations s) = mset (map (alloc_of cpu) cbs)
     \<and> (cbs \<noteq> [] \<longrightarrow> sum_list (map exact_util tt) + sum_list (map exact_util cbs) \<le> 78 / 100 + 1 / 2 ^ 30)"

lemma positive_periods_pos: "0 \<notin> set (positive_periods tasks)"
proof
  assume "0 \<in> set (positive_periods tasks)"
  then obtain t where t: "(0 :: u64) = ucast (ct_period_us t)" "t \<in> set (filter (\<lambda>t. 0 < ct_period_us t) tasks)"
    unfolding positive_periods_def set_map by (rule imageE)
  have "unat (ct_period_us t) = unat (ucast (ct_period_us t) :: u64)" by simp
  with t show False by (simp add: word_less_nat_alt)
qed

lemma frames_nonempty:
  assumes "p \<in> set (positive_periods tasks)" "unat p \<le> H"
  shows "frames H tasks \<noteq> []"
proof -
  from assms(1) obtain t where t: "t \<in> set tasks" "0 < ct_period_us t" "p = ucast (ct_period_us t)"
    by (auto simp: positive_periods_def)
  then have "H div unat (ct_period_us t) > 0"
    using assms(2) by (simp add: div_greater_zero_iff word_less_nat_alt)
  then have "(t, 0) \<in> set (frames H tasks)"
    using t(1,2) by (auto simp: frames_def word_gt_0 intro!: bexI [of _ t])
  then show ?thesis by auto
qed

lemma place_cpu_ok:
  assumes r: "place_cpu tt cpu s = Inr s'" and e: "pcs_tt_slots s = []"
    and p: "\<forall>t\<in>set tt. unat (ct_period_us t) < 2 ^ 31"
  shows "s' = s\<lparr>pcs_tt_slots := pcs_tt_slots s'\<rparr>"
    and "if on_cpu cpu tt = [] then pcs_tt_slots s' = []
      else tt_placed cpu (unat (calculate_hyperperiod (positive_periods (on_cpu cpu tt)))) (on_cpu cpu tt) (pcs_tt_slots s')
        \<and> pcs_tt_slots s' \<noteq> [] \<and> whole_periods (unat (calculate_hyperperiod (positive_periods (on_cpu cpu tt)))) (on_cpu cpu tt)"
proof -
  let ?tt = "on_cpu cpu tt" let ?ps = "positive_periods ?tt" let ?hp = "calculate_hyperperiod ?ps"
  have "s' = s\<lparr>pcs_tt_slots := pcs_tt_slots s'\<rparr> \<and> (if ?tt = [] then pcs_tt_slots s' = []
      else tt_placed cpu (unat ?hp) ?tt (pcs_tt_slots s') \<and> pcs_tt_slots s' \<noteq> [] \<and> whole_periods (unat ?hp) ?tt)"
  proof (cases "?tt = []")
    case True
    with r e show ?thesis by (simp add: place_cpu_def)
  next
    case False
    with r have h: "validate_harmonic ?ps" and pl: "place_tt_slots cpu ?tt ?hp s = Inr s'"
      by (simp_all add: place_cpu_def Let_def split: if_splits)
    have ne: "?ps \<noteq> []"
      using pl by (auto simp: place_tt_slots_def calculate_hyperperiod_def split: if_splits)
    note hh = harmonic_hyperperiod [OF h ne positive_periods_pos]
    have "Max (unat ` set ?ps) \<in> unat ` set ?ps" using ne by (intro Max_in) auto
    then obtain q where q: "q \<in> set ?ps" "unat ?hp = unat q" using hh(1) by auto
    then have H: "unat ?hp < 2 ^ 31" using p by (auto simp: positive_periods_def on_cpu_def)
    note placed = place_tt_slots_placed [OF H e pl]
    have "frames (unat ?hp) ?tt \<noteq> []" using frames_nonempty [OF q(1)] q(2) by simp
    then have slots: "pcs_tt_slots s' \<noteq> []"
      using placed(1) unfolding tt_placed_def by (metis mset_zero_iff rel_mset_Zero_iff(2))
    have "0 < unat ?hp" using q positive_periods_pos by (metis gr0I unat_eq_zero)
    moreover have "\<exists>t\<in>set ?tt. unat (ct_period_us t) = unat ?hp" using q by (auto simp: positive_periods_def)
    ultimately have "whole_periods (unat ?hp) ?tt"
      using hh(2) by (fastforce simp: whole_periods_def positive_periods_def)
    then show ?thesis using placed False slots by simp
  qed
  then show "s' = s\<lparr>pcs_tt_slots := pcs_tt_slots s'\<rparr>"
    and "if ?tt = [] then pcs_tt_slots s' = []
      else tt_placed cpu (unat ?hp) ?tt (pcs_tt_slots s') \<and> pcs_tt_slots s' \<noteq> [] \<and> whole_periods (unat ?hp) ?tt"
    by blast+
qed

lemma allocate_cpu_ok:
  assumes r: "allocate_cpu cbs hp cpu s = Inr s'" and e: "pcs_cbs_allocations s = []"
    and tt: "approx n (pcs_u_tt s) S" and n: "n \<le> 2 ^ 21" "length cbs < n"
  shows "pcs_tt_slots s' = pcs_tt_slots s"
    and "mset (pcs_cbs_allocations s') = mset (map (alloc_of cpu) (on_cpu cpu cbs))"
    and "on_cpu cpu cbs \<noteq> [] \<Longrightarrow> S + sum_list (map exact_util (on_cpu cpu cbs)) \<le> 78 / 100 + 1 / 2 ^ 30"
proof -
  let ?s = "s\<lparr>pcs_gaps := compute_gaps (pcs_tt_slots s) (if hp = 0 then 10000 else hp)\<rparr>"
  have "pcs_tt_slots s' = pcs_tt_slots s
    \<and> mset (pcs_cbs_allocations s') = mset (map (alloc_of cpu) (on_cpu cpu cbs))
    \<and> (on_cpu cpu cbs \<noteq> [] \<longrightarrow> S + sum_list (map exact_util (on_cpu cpu cbs)) \<le> 78 / 100 + 1 / 2 ^ 30)"
  proof (cases "on_cpu cpu cbs = []")
    case True
    with r e show ?thesis by (auto simp: allocate_cpu_def Let_def)
  next
    case False
    with r have al: "allocate_cbs_budgets cpu (on_cpu cpu cbs) (pcs_u_tt s) ?s = Inr s'"
      by (simp add: allocate_cpu_def Let_def)
    have e': "pcs_cbs_allocations ?s = []" using e by simp
    note a = allocate_cbs_budgets_Inr [OF al e']
    have "Suc (length (on_cpu cpu cbs)) \<le> n"
      using n(2) length_filter_le [of "\<lambda>t. ct_assigned_cpu t = cpu" cbs] unfolding on_cpu_def by linarith
    from admitted_utilization [OF tt approx_weaken [OF a(4) this] n(1) a(1,3)] a(2)
    have "S + sum_list (map exact_util (on_cpu cpu cbs)) \<le> 78 / 100 + 1 / 2 ^ 30" by simp
    moreover have "pcs_tt_slots s' = pcs_tt_slots s" by (subst a(5)) simp
    ultimately show ?thesis using a(2) by simp
  qed
  then show "pcs_tt_slots s' = pcs_tt_slots s"
    and "mset (pcs_cbs_allocations s') = mset (map (alloc_of cpu) (on_cpu cpu cbs))"
    and "on_cpu cpu cbs \<noteq> [] \<Longrightarrow> S + sum_list (map exact_util (on_cpu cpu cbs)) \<le> 78 / 100 + 1 / 2 ^ 30"
    by blast+
qed

section \<open>The table\<close>

text \<open>The tasks of a request as assigned: each workload of time-triggered tasks to one CPU.\<close>

definition assigned :: "int set \<Rightarrow> ClassifiedTask list \<Rightarrow> ClassifiedTask list \<Rightarrow> ClassifiedTask list \<Rightarrow> bool" where
  "assigned available tasks tt cbs \<longleftrightarrow>
     (\<exists>a. (\<forall>wl. a wl \<in> available)
        \<and> tt = map (\<lambda>t. t\<lparr>ct_assigned_cpu := a (ct_workload_id t)\<rparr>) (filter (\<lambda>t. ct_mechanism t = TT) tasks))
     \<and> list_all2 (\<lambda>t t'. \<exists>c\<in>available. 0 \<le> c \<and> t' = t\<lparr>ct_assigned_cpu := c\<rparr>) (filter (\<lambda>t. ct_mechanism t \<noteq> TT) tasks) cbs"

lemma positive_periods_assigned:
  "positive_periods (map (\<lambda>t. t\<lparr>ct_assigned_cpu := f t\<rparr>) tasks) = positive_periods tasks"
  by (induction tasks) (simp_all add: positive_periods_def)

lemma generate_schedule_Inr:
  assumes g: "generate_schedule mgr now node_id tasks = Inr table" and ne: "tasks \<noteq> []"
    and p: "\<forall>t\<in>set tasks. unat (ct_period_us t) < 2 ^ 31" and n: "length tasks < 2 ^ 20"
  shows "\<exists>tt cbs scheds. assigned (set (isolated_cpus mgr node_id)) tasks tt cbs
    \<and> fst ` set scheds = set (isolated_cpus mgr node_id)
    \<and> (\<forall>(cpu, s)\<in>set scheds. cpu_schedule_ok cpu (on_cpu cpu tt) (on_cpu cpu cbs) s)
    \<and> table = build_table now node_id scheds (calculate_hyperperiod (positive_periods (filter (\<lambda>t. ct_mechanism t = TT) tasks)))"
proof -
  let ?tt = "filter (\<lambda>t. ct_mechanism t = TT) tasks" and ?cbs = "filter (\<lambda>t. ct_mechanism t \<noteq> TT) tasks"
  let ?av = "isolated_cpus mgr node_id"
  from g ne obtain tt cbs scheds placed allocated hp where
    a: "assign_cpus mgr node_id ?tt ?cbs = Some (tt, cbs, scheds)"
    and pl: "for_each_cpu (place_cpu tt) scheds = Inr placed"
    and hp: "hp = (if positive_periods tt = [] then 0 else calculate_hyperperiod (positive_periods tt))"
    and al: "for_each_cpu (allocate_cpu cbs hp) placed = Inr allocated"
    and tb: "table = build_table now node_id allocated hp"
    by (auto simp: generate_schedule_def Let_def bindE_eq_Inr split: option.splits)
  note as = assign_cpus_spec [OF a]
  from as(1) obtain f where f: "\<forall>wl. f wl \<in> set ?av" "tt = map (\<lambda>t. t\<lparr>ct_assigned_cpu := f (ct_workload_id t)\<rparr>) ?tt" by blast
  have ass: "assigned (set ?av) tasks tt cbs" using f as(2) by (auto simp: assigned_def)
  have pp: "positive_periods tt = positive_periods ?tt" unfolding f(2) by (rule positive_periods_assigned)
  then have hp': "hp = calculate_hyperperiod (positive_periods ?tt)" using hp by (simp add: calculate_hyperperiod_def)
  have ptt: "\<forall>t\<in>set tt. unat (ct_period_us t) < 2 ^ 31" using p by (auto simp: f(2))
  note pl' = pl [unfolded for_each_cpu_Inr] and al' = al [unfolded for_each_cpu_Inr]
  have keys: "fst ` set allocated = set ?av"
    using list_all2_keys [OF pl'] list_all2_keys [OF al'] as(3) by (metis scheds_ok_def set_map)
  have "(2 :: nat) ^ 21 = 2 * 2 ^ 20" by simp
  then have len: "2 * length ?tt + 1 \<le> 2 ^ 21" "length cbs < 2 ^ 21"
    using n length_filter_le [of "\<lambda>t. ct_mechanism t = TT" tasks] length_filter_le [of "\<lambda>t. ct_mechanism t \<noteq> TT" tasks]
      list_all2_lengthD [OF as(2)] by (linarith, linarith)
  have "cpu_schedule_ok cpu (on_cpu cpu tt) (on_cpu cpu cbs) s2" if "(cpu, s2) \<in> set allocated" for cpu s2
  proof -
    from list_all2_mem [OF al' that] obtain s1 where s1: "(cpu, s1) \<in> set placed" "allocate_cpu cbs hp cpu s1 = Inr s2" by blast
    from list_all2_mem [OF pl' s1(1)] obtain s where s: "(cpu, s) \<in> set scheds" "place_cpu tt cpu s = Inr s1" by blast
    have find: "map_find cpu scheds = Some s" using s(1) as(3) by (simp add: map_find_iff scheds_ok_def)
    then have fresh: "fresh_sched cpu s" and cpu: "cpu \<in> set ?av"
      using as(3) image_eqI [OF _ s(1), of cpu fst] by (simp_all add: scheds_ok_def)
    note p1 = place_cpu_ok [OF s(2) _ ptt]
    have s1s: "pcs_cbs_allocations s1 = []" "pcs_u_tt s1 = pcs_u_tt s"
      using fresh by (subst p1(1), simp_all add: fresh_sched_def)+
    have "approx (2 ^ 21) (pcs_u_tt s1) (sum_list (map exact_util (on_cpu cpu tt)))"
      using approx_weaken [OF as(4) [OF cpu] len(1)] find by (simp add: s1s u_tt_of_def map_at_def)
    from allocate_cpu_ok [OF s1(2) s1s(1) this _ len(2)] p1(2) fresh show ?thesis
      by (auto simp: cpu_schedule_ok_def fresh_sched_def)
  qed
  with ass keys tb hp' show ?thesis by blast
qed

section \<open>Properties\<close>

text \<open>C1: A schedule table the generator returns is correct for every isolated CPU of the node. The
  tasks of the request are assigned to isolated CPUs, all time-triggered tasks of a workload to the
  same one, and the table has one partition for every CPU with tasks, made from a schedule in which
  every release of every time-triggered task on the CPU in the CPU's hyperperiod has its own slot
  between release and deadline, the hyperperiod holds a whole number of periods and is the longest of
  them, no two slots overlap, every server task has its budget, and a CPU with server tasks has exact utilisation at most 0.78 (up to 2 to the -30). The periods are those of
  a signed 32-bit request.\<close>

theorem generate_schedule_correct:
  assumes "generate_schedule mgr now node_id tasks = Inr table" "tasks \<noteq> []"
    and "\<forall>t\<in>set tasks. unat (ct_period_us t) < 2 ^ 31" "length tasks < 2 ^ 20"
  shows "\<exists>tt cbs scheds. assigned (set (isolated_cpus mgr node_id)) tasks tt cbs
    \<and> fst ` set scheds = set (isolated_cpus mgr node_id)
    \<and> (\<forall>(cpu, s)\<in>set scheds. cpu_schedule_ok cpu (on_cpu cpu tt) (on_cpu cpu cbs) s)
    \<and> table_node_id table = node_id \<and> epoch_ns table = now
    \<and> partitions table = map (\<lambda>(cpu, s). mk_partition cpu s)
        (filter (\<lambda>(cpu, s). on_cpu cpu tt \<noteq> [] \<or> on_cpu cpu cbs \<noteq> []) scheds)"
proof -
  from generate_schedule_Inr [OF assms] obtain tt cbs scheds where
    r: "assigned (set (isolated_cpus mgr node_id)) tasks tt cbs" "fst ` set scheds = set (isolated_cpus mgr node_id)"
    "\<forall>(cpu, s)\<in>set scheds. cpu_schedule_ok cpu (on_cpu cpu tt) (on_cpu cpu cbs) s"
    "table = build_table now node_id scheds (calculate_hyperperiod (positive_periods (filter (\<lambda>t. ct_mechanism t = TT) tasks)))"
    by blast
  have "filter (\<lambda>(_, s). \<not> (pcs_tt_slots s = [] \<and> pcs_cbs_allocations s = [])) scheds
      = filter (\<lambda>(cpu, s). on_cpu cpu tt \<noteq> [] \<or> on_cpu cpu cbs \<noteq> []) scheds"
  proof (rule filter_cong [OF refl], clarify)
    fix cpu s
    assume "(cpu, s) \<in> set scheds"
    with r(3) have ok: "cpu_schedule_ok cpu (on_cpu cpu tt) (on_cpu cpu cbs) s" by blast
    then have "pcs_tt_slots s = [] \<longleftrightarrow> on_cpu cpu tt = []"
      by (auto simp: cpu_schedule_ok_def split: if_splits)
    moreover from ok have "pcs_cbs_allocations s = [] \<longleftrightarrow> on_cpu cpu cbs = []"
      unfolding cpu_schedule_ok_def by (metis list.map_disc_iff mset_zero_iff)
    ultimately show "(\<not> (pcs_tt_slots s = [] \<and> pcs_cbs_allocations s = []))
        = (on_cpu cpu tt \<noteq> [] \<or> on_cpu cpu cbs \<noteq> [])" by blast
  qed
  with r show ?thesis by (intro exI [of _ tt] exI [of _ cbs] exI [of _ scheds]) (simp add: build_table_def)
qed

lemma demo_tt_schedulable: "\<not> isl (generate_schedule None 7 ''n'' demo_tt)"
  by code_simp

theorem generate_schedule_correct_witness:
  "\<exists>table tt cbs scheds. generate_schedule None 7 ''n'' demo_tt = Inr table
    \<and> assigned {2, 3} demo_tt tt cbs \<and> fst ` set scheds = {2, 3}
    \<and> (\<forall>(cpu, s)\<in>set scheds. cpu_schedule_ok cpu (on_cpu cpu tt) (on_cpu cpu cbs) s)
    \<and> epoch_ns table = 7"
proof -
  obtain table where g: "generate_schedule None 7 ''n'' demo_tt = Inr table"
    using demo_tt_schedulable by (cases "generate_schedule None 7 ''n'' demo_tt") simp_all
  have h: "demo_tt \<noteq> []" "\<forall>t\<in>set demo_tt. unat (ct_period_us t) < 2 ^ 31" "length demo_tt < 2 ^ 20"
    by (simp_all add: demo_tt_def demo_task_def)
  have cpus: "set (isolated_cpus None ''n'') = {2, 3}" by (simp add: isolated_cpus_def)
  from generate_schedule_correct [OF g h] g show ?thesis unfolding cpus by blast
qed

text \<open>
  The slots of a CPU cover one hyperperiod of that CPU, while the table carries the hyperperiod of
  all time-triggered tasks of the node. With workloads of periods 10 and 15 on two CPUs the table
  has hyperperiod 30 and a single slot for each task, although 30 microseconds hold three releases
  of the first task and two of the second.
\<close>

fun table_shape :: "InfeasibleError + HierarchicalScheduleTable \<Rightarrow> (u32 \<times> u32 list list) option" where
  "table_shape (Inl _) = None"
| "table_shape (Inr t) = Some (hyperperiod_us t,
     map (\<lambda>p. concat (map (\<lambda>l. map tt_offset_us (tt_slots l)) (layers p))) (partitions t))"

theorem slots_cover_own_hyperperiod_only:
  "table_shape (generate_schedule None 0 ''n'' [demo_task ''a'' ''x'' TT 10 1 10, demo_task ''b'' ''y'' TT 15 1 15])
     = Some (30, [[0], [0]])"
  by code_simp

end
