(* ===== verification/SchedInfo_Service.thy ===== *)
theory SchedInfo_Service
  imports Scheduler_Table
begin

text \<open>
  The service of \<open>timpani-o/src/schedinfo_service.cpp\<close> that admits and removes workloads. Its state
  is the map of admitted workloads, the map of schedule tables by node and the flag that tells the
  sender that the tables changed. Every operation runs under the service's lock, so it is one
  step. The wall clock is a parameter: \<open>clk n\<close> is its reading when the table of node \<open>n\<close> is built.
\<close>

section \<open>State\<close>

record WorkloadEntry =
  we_target_nodes :: "string list"
  we_tasks :: "ClassifiedTask list"

record SchedInfoServiceImpl =
  workload_tasks :: "(string, WorkloadEntry) std_map"
  schedule_tables :: "(string, HierarchicalScheduleTable) std_map"
  schedule_changed :: bool
  node_config_manager :: "NodeConfigManager option"

definition SchedInfoServiceImpl_init :: "NodeConfigManager option \<Rightarrow> SchedInfoServiceImpl" where
  "SchedInfoServiceImpl_init mgr =
     \<lparr>workload_tasks = [], schedule_tables = [], schedule_changed = False, node_config_manager = mgr\<rparr>"

section \<open>Requests\<close>

definition convert_task :: "string \<Rightarrow> Mechanism \<Rightarrow> TaskInfo \<Rightarrow> ClassifiedTask" where
  "convert_task workload_id mechanism t =
     (let ct = \<lparr>ct_workload_id = workload_id, ct_task_id = ti_name t, ct_mechanism = mechanism,
                ct_period_us = ti_period t, ct_wcet_us = ti_runtime t, ct_deadline_us = ti_deadline t,
                ct_max_dmiss = ti_max_dmiss t, ct_assigned_cpu = -1\<rparr>
      in if ct_deadline_us ct = 0 \<and> 0 < ct_period_us ct then ct\<lparr>ct_deadline_us := ct_period_us ct\<rparr> else ct)"

definition ConvertToClassifiedTasks :: "SchedInfo \<Rightarrow> Mechanism \<Rightarrow> ClassifiedTask list" where
  "ConvertToClassifiedTasks request mechanism =
     map (convert_task (si_workload_id request) mechanism) (si_tasks request)"

definition classify :: "i32 \<Rightarrow> Mechanism option" where
  "classify temporal_class = (if temporal_class = 0 then Some TT else if temporal_class = 1 then Some CBS else None)"

definition target_nodes_of :: "NodeConfigManager option \<Rightarrow> SchedInfo \<Rightarrow> string list" where
  "target_nodes_of mgr request =
     (let named = set_insert_all (filter (\<lambda>n. n \<noteq> []) (map ti_node_id (si_tasks request))) [];
          configured = (case mgr of
              Some m \<Rightarrow> if ncm_loaded m then set_insert_all (map fst (ncm_nodes m)) [] else []
            | None \<Rightarrow> [])
      in if named \<noteq> [] then named else if configured \<noteq> [] then configured else [''default''])"

section \<open>Regeneration\<close>

definition all_nodes :: "SchedInfoServiceImpl \<Rightarrow> string list" where
  "all_nodes st =
     set_insert_all (map fst (schedule_tables st))
       (foldl (\<lambda>acc e. set_insert_all (we_target_nodes (snd e)) acc) [] (workload_tasks st))"

definition node_tasks :: "SchedInfoServiceImpl \<Rightarrow> string \<Rightarrow> ClassifiedTask list" where
  "node_tasks st node_id =
     concat (map (\<lambda>e. if node_id \<in> set (we_target_nodes (snd e)) then we_tasks (snd e) else []) (workload_tasks st))"

fun regenerate ::
  "(string \<Rightarrow> u64) \<Rightarrow> SchedInfoServiceImpl \<Rightarrow> string list \<Rightarrow> (string, HierarchicalScheduleTable) std_map
   \<Rightarrow> string + (string, HierarchicalScheduleTable) std_map" where
  "regenerate clk st [] new_tables = Inr new_tables"
| "regenerate clk st (n # ns) new_tables =
     (case generate_schedule (node_config_manager st) (clk n) n (node_tasks st n) of
        Inl err \<Rightarrow> Inl (''node '' @ [CHR 0x27] @ n @ [CHR 0x27] @ '': '' @ ie_details err)
      | Inr t \<Rightarrow> regenerate clk st ns (map_put n t new_tables))"

text \<open>The left summand is the return value \<open>false\<close> with its error text; the state is then unchanged.\<close>

definition RegenerateAllSchedules ::
  "(string \<Rightarrow> u64) \<Rightarrow> SchedInfoServiceImpl \<Rightarrow> string + SchedInfoServiceImpl" where
  "RegenerateAllSchedules clk st =
     bindE (regenerate clk st (all_nodes st) []) (\<lambda>t. Inr (st\<lparr>schedule_tables := t\<rparr>))"

section \<open>Operations\<close>

text \<open>\<open>clk\<close> is the clock of the first regeneration and \<open>clk'\<close> that of the one after a roll-back.\<close>

definition AddSchedInfo ::
  "(string \<Rightarrow> u64) \<Rightarrow> (string \<Rightarrow> u64) \<Rightarrow> SchedInfo \<Rightarrow> SchedInfoServiceImpl \<Rightarrow> int \<times> SchedInfoServiceImpl" where
  "AddSchedInfo clk clk' request st =
     (case classify (si_temporal_class request) of
        None \<Rightarrow> (-1, st)
      | Some mechanism \<Rightarrow>
          let classified = ConvertToClassifiedTasks request mechanism;
              entry = \<lparr>we_target_nodes = target_nodes_of (node_config_manager st) request, we_tasks = classified\<rparr>
          in if classified = [] then (-1, st)
             else
               let st1 = st\<lparr>workload_tasks := map_put (si_workload_id request) entry (workload_tasks st)\<rparr>
               in case RegenerateAllSchedules clk st1 of
                    Inl _ \<Rightarrow>
                      let st2 = st1\<lparr>workload_tasks := map_erase (si_workload_id request) (workload_tasks st1)\<rparr>
                      in (-1, case RegenerateAllSchedules clk' st2 of Inl _ \<Rightarrow> st2 | Inr st3 \<Rightarrow> st3)
                  | Inr st2 \<Rightarrow> (0, st2\<lparr>schedule_changed := True\<rparr>))"

definition GetScheduleTables :: "bool \<Rightarrow> SchedInfoServiceImpl
    \<Rightarrow> (string, HierarchicalScheduleTable) std_map \<times> bool option \<times> SchedInfoServiceImpl" where
  "GetScheduleTables want_changed st =
     (if want_changed then (schedule_tables st, Some (schedule_changed st), st\<lparr>schedule_changed := False\<rparr>)
      else (schedule_tables st, None, st))"

definition SchedPolicyToInt :: "i32 \<Rightarrow> int" where
  "SchedPolicyToInt policy = (if policy = 0 then 0 else if policy = 1 then 1 else if policy = 2 then 2 else -1)"

text \<open>The search for a workload by the hash of its name; \<open>std::stoull\<close> can throw out of it.\<close>

fun resolve_hashed :: "string \<Rightarrow> string list \<Rightarrow> std_exn + string option" where
  "resolve_hashed workload_id [] = Inr None"
| "resolve_hashed workload_id (name # names) =
     (let h = fnv1a_hash name
      in if nat_to_string (unat h) = workload_id then Inr (Some name)
         else if starts_with ''0x'' workload_id then
           (case stoull16 workload_id of
              Inl e \<Rightarrow> Inl e
            | Inr v \<Rightarrow> if v = h then Inr (Some name) else resolve_hashed workload_id names)
         else resolve_hashed workload_id names)"

text \<open>The result: the exception, or the returned flag with the resolved name where one is found.\<close>

definition RemoveWorkload ::
  "(string \<Rightarrow> u64) \<Rightarrow> string \<Rightarrow> bool \<Rightarrow> SchedInfoServiceImpl
   \<Rightarrow> (std_exn + bool \<times> string option) \<times> SchedInfoServiceImpl" where
  "RemoveWorkload clk workload_id trigger_push st =
     (case (if map_find workload_id (workload_tasks st) \<noteq> None then Inr (Some workload_id)
            else resolve_hashed workload_id (map fst (workload_tasks st))) of
        Inl e \<Rightarrow> (Inl e, st)
      | Inr None \<Rightarrow> (Inr (False, None), st)
      | Inr (Some actual_id) \<Rightarrow>
          let st1 = st\<lparr>workload_tasks := map_erase actual_id (workload_tasks st)\<rparr>
          in case RegenerateAllSchedules clk st1 of
               Inl _ \<Rightarrow> (Inr (False, Some actual_id), st1)
             | Inr st2 \<Rightarrow> (Inr (True, Some actual_id), if trigger_push then st2\<lparr>schedule_changed := True\<rparr> else st2))"

section \<open>Consistency\<close>

text \<open>
  The tables of a consistent service are those the scheduler generates, at some clock reading, from
  exactly the admitted workloads, and every node a workload names has one.
\<close>

definition consistent :: "SchedInfoServiceImpl \<Rightarrow> bool" where
  "consistent st \<longleftrightarrow> map_ok (workload_tasks st) \<and> map_ok (schedule_tables st)
     \<and> (\<forall>e\<in>set (workload_tasks st). set (we_target_nodes (snd e)) \<subseteq> fst ` set (schedule_tables st))
     \<and> (\<forall>n t. map_find n (schedule_tables st) = Some t \<longrightarrow>
          (\<exists>now. generate_schedule (node_config_manager st) now n (node_tasks st n) = Inr t))"

lemma set_all_nodes:
  "set (all_nodes st) = fst ` set (schedule_tables st) \<union> (\<Union>e\<in>set (workload_tasks st). set (we_target_nodes (snd e)))"
proof -
  have "set (foldl (\<lambda>acc e. set_insert_all (we_target_nodes (snd e)) acc) acc es)
      = set acc \<union> (\<Union>e\<in>set es. set (we_target_nodes (snd e)))" for acc and es :: "(string \<times> WorkloadEntry) list"
    by (induction es arbitrary: acc) auto
  then show ?thesis by (simp add: all_nodes_def)
qed

lemma regenerate_Inr:
  assumes "regenerate clk st ns acc = Inr new" "map_ok acc"
  shows "map_ok new \<and> fst ` set new = fst ` set acc \<union> set ns
    \<and> (\<forall>n t. map_find n new = Some t \<longrightarrow>
          (if n \<in> set ns then generate_schedule (node_config_manager st) (clk n) n (node_tasks st n) = Inr t
           else map_find n acc = Some t))"
  using assms
proof (induction ns arbitrary: acc)
  case (Cons n ns)
  from Cons.prems(1) obtain t where t: "generate_schedule (node_config_manager st) (clk n) n (node_tasks st n) = Inr t"
    and rest: "regenerate clk st ns (map_put n t acc) = Inr new" by (auto split: sum.splits)
  from Cons.IH [OF rest map_ok_put [OF Cons.prems(2)]] t Cons.prems(2) show ?case
    by (auto simp: fst_set_map_put map_find_put split: if_splits)
qed simp

lemma RegenerateAllSchedules_consistent:
  assumes "RegenerateAllSchedules clk st = Inr st'" "map_ok (workload_tasks st)"
  shows "consistent st'" and "st' = st\<lparr>schedule_tables := schedule_tables st'\<rparr>"
proof -
  from assms(1) obtain new where r: "regenerate clk st (all_nodes st) [] = Inr new"
    and st': "st' = st\<lparr>schedule_tables := new\<rparr>" by (auto simp: RegenerateAllSchedules_def bindE_eq_Inr)
  note g = regenerate_Inr [OF r map_ok_Nil]
  have nt: "node_tasks st' = node_tasks st" by (simp add: st' node_tasks_def fun_eq_iff)
  have "\<exists>now. generate_schedule (node_config_manager st') now n (node_tasks st' n) = Inr t"
    if "map_find n (schedule_tables st') = Some t" for n t
    using that g unfolding nt by (simp add: st' split: if_splits) blast
  moreover have "set (we_target_nodes (snd e)) \<subseteq> fst ` set (schedule_tables st')" if "e \<in> set (workload_tasks st')" for e
    using that g by (auto simp: st' set_all_nodes)
  ultimately show "consistent st'"
    using g assms(2) by (simp add: consistent_def st')
  show "st' = st\<lparr>schedule_tables := schedule_tables st'\<rparr>" by (simp add: st')
qed

text \<open>Whether a task set is schedulable does not depend on the clock.\<close>

lemma generate_schedule_clock:
  assumes "generate_schedule mgr now n tasks = Inr t"
  shows "generate_schedule mgr now' n tasks = Inr (t\<lparr>epoch_ns := now'\<rparr>)"
  using assms
  by (auto simp: generate_schedule_def Let_def build_table_def bindE_eq_Inr split: if_splits option.splits)

lemma regenerate_total:
  assumes "\<forall>n\<in>set ns. \<exists>now t. generate_schedule (node_config_manager st) now n (node_tasks st n) = Inr t"
  shows "\<exists>new. regenerate clk st ns acc = Inr new"
  using assms
proof (induction ns arbitrary: acc)
  case (Cons n ns)
  then obtain now t where "generate_schedule (node_config_manager st) now n (node_tasks st n) = Inr t" by auto
  from generate_schedule_clock [OF this] Cons show ?case by simp
qed simp

text \<open>Regeneration of a consistent service succeeds and only moves the epochs.\<close>

lemma consistent_regenerates:
  assumes "consistent st"
  shows "\<exists>st'. RegenerateAllSchedules clk st = Inr st'"
proof -
  have "\<exists>now t. generate_schedule (node_config_manager st) now n (node_tasks st n) = Inr t" if "n \<in> set (all_nodes st)" for n
  proof -
    have "n \<in> fst ` set (schedule_tables st)"
      using that assms by (auto simp: set_all_nodes consistent_def)
    then obtain t where "map_find n (schedule_tables st) = Some t" by (metis map_find_None option.exhaust)
    with assms show ?thesis unfolding consistent_def by blast
  qed
  then obtain new where "regenerate clk st (all_nodes st) [] = Inr new" using regenerate_total by blast
  then show ?thesis by (simp add: RegenerateAllSchedules_def)
qed

lemma map_erase_put_new: "map_find k m = None \<Longrightarrow> map_erase k (map_put k v m) = m"
proof (induction m)
  case (Cons e m)
  then have "map_find k m = None" "fst e \<noteq> k" by (cases e; auto simp: map_find_def split: if_splits)+
  with Cons.IH have "map_erase k (map_put k v m) = m" "map_erase k m = m"
    by (auto simp: map_erase_def map_find_None intro!: filter_True)
  with \<open>fst e \<noteq> k\<close> show ?case by (auto simp: map_erase_def)
qed (simp add: map_erase_def)

definition entry_of :: "SchedInfoServiceImpl \<Rightarrow> SchedInfo \<Rightarrow> Mechanism \<Rightarrow> WorkloadEntry" where
  "entry_of st request mechanism = \<lparr>we_target_nodes = target_nodes_of (node_config_manager st) request,
     we_tasks = ConvertToClassifiedTasks request mechanism\<rparr>"

text \<open>The three ways out of \<open>AddSchedInfo\<close>.\<close>

lemma AddSchedInfo_cases:
  obtains (refused) "classify (si_temporal_class request) = None \<or> si_tasks request = []"
      "AddSchedInfo clk clk' request st = (-1, st)"
  | (admitted) m st2 where "classify (si_temporal_class request) = Some m" "si_tasks request \<noteq> []"
      "RegenerateAllSchedules clk (st\<lparr>workload_tasks := map_put (si_workload_id request) (entry_of st request m) (workload_tasks st)\<rparr>) = Inr st2"
      "AddSchedInfo clk clk' request st = (0, st2\<lparr>schedule_changed := True\<rparr>)"
  | (rolled_back) m st2 where "classify (si_temporal_class request) = Some m" "si_tasks request \<noteq> []"
      "isl (RegenerateAllSchedules clk (st\<lparr>workload_tasks := map_put (si_workload_id request) (entry_of st request m) (workload_tasks st)\<rparr>))"
      "st2 = st\<lparr>workload_tasks := map_erase (si_workload_id request) (map_put (si_workload_id request) (entry_of st request m) (workload_tasks st))\<rparr>"
      "AddSchedInfo clk clk' request st = (-1, case RegenerateAllSchedules clk' st2 of Inl _ \<Rightarrow> st2 | Inr st3 \<Rightarrow> st3)"
proof (cases "classify (si_temporal_class request)")
  case None
  then show thesis using refused by (simp add: AddSchedInfo_def)
next
  case (Some m)
  let ?st1 = "st\<lparr>workload_tasks := map_put (si_workload_id request) (entry_of st request m) (workload_tasks st)\<rparr>"
  show thesis
  proof (cases "si_tasks request = []")
    case True
    with Some show thesis using refused by (simp add: AddSchedInfo_def ConvertToClassifiedTasks_def)
  next
    case False
    let ?st2 = "st\<lparr>workload_tasks := map_erase (si_workload_id request) (workload_tasks ?st1)\<rparr>"
    have run: "AddSchedInfo clk clk' request st = (case RegenerateAllSchedules clk ?st1 of
        Inl _ \<Rightarrow> (-1, case RegenerateAllSchedules clk' ?st2 of Inl _ \<Rightarrow> ?st2 | Inr st3 \<Rightarrow> st3)
      | Inr st2 \<Rightarrow> (0, st2\<lparr>schedule_changed := True\<rparr>))"
      using Some False by (simp add: AddSchedInfo_def ConvertToClassifiedTasks_def entry_of_def Let_def cong: sum.case_cong)
    show thesis
    proof (cases "RegenerateAllSchedules clk ?st1")
      case (Inl e)
      then show thesis using rolled_back [OF Some False, of ?st2] run by simp
    next
      case (Inr st2)
      then show thesis using admitted [OF Some False Inr] run by simp
    qed
  qed
qed

lemma AddSchedInfo_consistent:
  assumes "AddSchedInfo clk clk' request st = (0, st')" and "map_ok (workload_tasks st)"
  shows "consistent st'"
proof (cases rule: AddSchedInfo_cases [of request clk clk' st])
  case (admitted m st2)
  have "map_ok (workload_tasks (st\<lparr>workload_tasks := map_put (si_workload_id request) (entry_of st request m)
      (workload_tasks st)\<rparr>))" using assms(2) by (simp add: map_ok_put)
  from RegenerateAllSchedules_consistent(1) [OF admitted(3) this] have "consistent (st2\<lparr>schedule_changed := True\<rparr>)"
    by (simp add: consistent_def node_tasks_def)
  with assms(1) admitted(4) show ?thesis by simp
qed (use assms(1) in simp_all)

text \<open>A request answered -1: nothing happens, or the workload is taken out and the tables are made anew.\<close>

lemma AddSchedInfo_fails:
  assumes "AddSchedInfo clk clk' request st = (-1, st')" and "map_ok (workload_tasks st)"
  shows "st' = st \<or> (map_ok (workload_tasks st') \<and>
    (case RegenerateAllSchedules clk' (st\<lparr>workload_tasks := workload_tasks st'\<rparr>) of
       Inl _ \<Rightarrow> st' = st\<lparr>workload_tasks := workload_tasks st'\<rparr> | Inr st3 \<Rightarrow> st' = st3 \<and> consistent st'))"
proof (cases rule: AddSchedInfo_cases [of request clk clk' st])
  case refused
  with assms(1) show ?thesis by simp
next
  case (admitted m st2)
  with assms(1) show ?thesis by simp
next
  case (rolled_back m st2)
  have ok: "map_ok (workload_tasks st2)" using assms(2) by (simp add: rolled_back(4) map_ok_erase map_ok_put)
  have st2: "st2 = st\<lparr>workload_tasks := workload_tasks st2\<rparr>" by (simp add: rolled_back(4))
  show ?thesis
  proof (cases "RegenerateAllSchedules clk' st2")
    case (Inl e)
    then have "st' = st2" using assms(1) rolled_back(5) by simp
    with st2 Inl ok show ?thesis by simp
  next
    case (Inr st3)
    then have st': "st' = st3" using assms(1) rolled_back(5) by simp
    note c = RegenerateAllSchedules_consistent [OF Inr ok]
    have "workload_tasks st3 = workload_tasks st2" by (subst c(2)) simp
    with st2 st' Inr c(1) ok show ?thesis by simp
  qed
qed

lemma RemoveWorkload_result:
  assumes "RemoveWorkload clk workload_id trigger_push st = (Inr (ok, resolved), st')" "map_ok (workload_tasks st)"
  shows "(ok \<longrightarrow> consistent st' \<and> (\<exists>w. resolved = Some w \<and> workload_tasks st' = map_erase w (workload_tasks st))
        \<and> schedule_changed st' = (trigger_push \<or> schedule_changed st))
    \<and> (\<not> ok \<longrightarrow> schedule_tables st' = schedule_tables st \<and> schedule_changed st' = schedule_changed st)"
proof -
  let ?found = "if map_find workload_id (workload_tasks st) \<noteq> None then Inr (Some workload_id)
    else resolve_hashed workload_id (map fst (workload_tasks st))"
  consider (exn) e where "?found = Inl e" | (none) "?found = Inr None" | (some) w where "?found = Inr (Some w)"
    by (metis option.exhaust sum.exhaust_sel)
  then show ?thesis
  proof cases
    case exn
    with assms(1) show ?thesis by (simp add: RemoveWorkload_def)
  next
    case none
    with assms(1) show ?thesis by (simp add: RemoveWorkload_def)
  next
    case (some w)
    let ?st1 = "st\<lparr>workload_tasks := map_erase w (workload_tasks st)\<rparr>"
    show ?thesis
    proof (cases "RegenerateAllSchedules clk ?st1")
      case (Inl e)
      with some assms(1) show ?thesis by (auto simp: RemoveWorkload_def Let_def)
    next
      case (Inr st2)
      have "map_ok (workload_tasks ?st1)" using assms(2) by (simp add: map_ok_erase)
      note c = RegenerateAllSchedules_consistent [OF Inr this]
      have w2: "workload_tasks st2 = map_erase w (workload_tasks st)" "schedule_changed st2 = schedule_changed st"
        by (subst c(2), simp)+
      have "consistent (st2\<lparr>schedule_changed := True\<rparr>)" using c(1) by (simp add: consistent_def node_tasks_def)
      with c(1) w2 some Inr assms(1) show ?thesis
        by (cases trigger_push) (auto simp: RemoveWorkload_def Let_def)
    qed
  qed
qed

section \<open>Runs\<close>

text \<open>
  All runs of the service: requests with any answer, removals with any result, and readings. The first
  argument tells whether the last attempt to make the tables has succeeded. It fails when the workloads
  that remain after a removal or a failed update cannot be scheduled, which the code does not undo.
\<close>

inductive service_run :: "bool \<Rightarrow> SchedInfoServiceImpl \<Rightarrow> bool" where
  start: "service_run True (SchedInfoServiceImpl_init mgr)"
| added: "service_run b st \<Longrightarrow> AddSchedInfo clk clk' request st = (0, st') \<Longrightarrow> service_run True st'"
| rejected: "service_run b st \<Longrightarrow> AddSchedInfo clk clk' request st = (-1, st')
    \<Longrightarrow> workload_tasks st' = workload_tasks st \<Longrightarrow> service_run b st'"
| dropped: "service_run b st \<Longrightarrow> AddSchedInfo clk clk' request st = (-1, st')
    \<Longrightarrow> workload_tasks st' \<noteq> workload_tasks st
    \<Longrightarrow> service_run (\<not> isl (RegenerateAllSchedules clk' (st\<lparr>workload_tasks := workload_tasks st'\<rparr>))) st'"
| removed: "service_run b st \<Longrightarrow> RemoveWorkload clk w trigger_push st = (Inr (True, resolved), st')
    \<Longrightarrow> service_run True st'"
| unknown: "service_run b st \<Longrightarrow> RemoveWorkload clk w trigger_push st = (Inr (False, None), st') \<Longrightarrow> service_run b st'"
| failed: "service_run b st \<Longrightarrow> RemoveWorkload clk w trigger_push st = (Inr (False, Some v), st')
    \<Longrightarrow> service_run False st'"
| thrown: "service_run b st \<Longrightarrow> RemoveWorkload clk w trigger_push st = (Inl e, st') \<Longrightarrow> service_run b st'"
| get: "service_run b st \<Longrightarrow> GetScheduleTables want_changed st = (tables, changed, st') \<Longrightarrow> service_run b st'"

lemma RemoveWorkload_keeps:
  assumes "RemoveWorkload clk w trigger_push st = (res, st')"
  shows "map_ok (workload_tasks st) \<Longrightarrow> map_ok (workload_tasks st')"
    and "isl res \<or> res = Inr (False, None) \<Longrightarrow> st' = st"
proof -
  let ?found = "if map_find w (workload_tasks st) \<noteq> None then Inr (Some w)
    else resolve_hashed w (map fst (workload_tasks st))"
  consider (exn) e where "?found = Inl e" | (none) "?found = Inr None" | (some) v where "?found = Inr (Some v)"
    by (metis option.exhaust sum.exhaust_sel)
  then have "(map_ok (workload_tasks st) \<longrightarrow> map_ok (workload_tasks st'))
    \<and> (isl res \<or> res = Inr (False, None) \<longrightarrow> st' = st)"
  proof cases
    case (some v)
    let ?st1 = "st\<lparr>workload_tasks := map_erase v (workload_tasks st)\<rparr>"
    show ?thesis
    proof (cases "RegenerateAllSchedules clk ?st1")
      case (Inl e)
      with some assms show ?thesis by (auto simp: RemoveWorkload_def Let_def map_ok_erase)
    next
      case (Inr st2)
      then have "workload_tasks st2 = map_erase v (workload_tasks st)"
        by (auto simp: RegenerateAllSchedules_def bindE_eq_Inr)
      with some Inr assms show ?thesis by (auto simp: RemoveWorkload_def Let_def map_ok_erase)
    qed
  qed (use assms in \<open>auto simp: RemoveWorkload_def\<close>)
  then show "map_ok (workload_tasks st) \<Longrightarrow> map_ok (workload_tasks st')"
    and "isl res \<or> res = Inr (False, None) \<Longrightarrow> st' = st" by blast+
qed

lemma service_run_inv: "service_run b st \<Longrightarrow> map_ok (workload_tasks st) \<and> (b \<longrightarrow> consistent st)"
proof (induction rule: service_run.induct)
  case (start mgr)
  show ?case by (simp add: SchedInfoServiceImpl_init_def consistent_def)
next
  case (added b st clk clk' request st')
  then show ?case using AddSchedInfo_consistent [OF added(2)] by (auto simp: consistent_def)
next
  case (rejected b st clk clk' request st')
  have st: "st\<lparr>workload_tasks := workload_tasks st'\<rparr> = st" using rejected(3) by simp
  have "consistent st'" if "consistent st"
    using AddSchedInfo_fails [OF rejected(2)] rejected(4) consistent_regenerates [OF that, of clk'] that
    unfolding st by (auto split: sum.splits)
  with rejected show ?case by simp
next
  case (dropped b st clk clk' request st')
  then show ?case using AddSchedInfo_fails [OF dropped(2)] by (auto split: sum.splits)
next
  case (removed b st clk w trigger_push resolved st')
  then have "consistent st'" using RemoveWorkload_result [OF removed(2)] by simp
  then show ?case by (simp add: consistent_def)
next
  case (unknown b st clk w trigger_push st')
  then show ?case using RemoveWorkload_keeps(2) [OF unknown(2)] by simp
next
  case (failed b st clk w trigger_push v st')
  then show ?case using RemoveWorkload_keeps(1) [OF failed(2)] by simp
next
  case (thrown b st clk w trigger_push e st')
  then show ?case using RemoveWorkload_keeps(2) [OF thrown(2)] by simp
next
  case (get b st want_changed tables changed st')
  then have "st' = st \<or> st' = st\<lparr>schedule_changed := False\<rparr>"
    by (auto simp: GetScheduleTables_def split: if_splits)
  moreover have "consistent (st\<lparr>schedule_changed := False\<rparr>) \<longleftrightarrow> consistent st"
    by (simp add: consistent_def node_tasks_def)
  ultimately show ?case using get.IH by auto
qed

section \<open>Properties\<close>

text \<open>C8: When \<open>AddSchedInfo\<close> answers 0, the workload is stored with the tasks of the request, no
  other workload is touched, the tables are the ones the scheduler generates from exactly the
  admitted workloads with one for every node a workload targets, and the sender is told.\<close>

theorem AddSchedInfo_admits:
  assumes "AddSchedInfo clk clk' request st = (0, st')" "map_ok (workload_tasks st)"
  shows "consistent st' \<and> schedule_changed st'
    \<and> (\<exists>m. classify (si_temporal_class request) = Some m
         \<and> map_find (si_workload_id request) (workload_tasks st') = Some (entry_of st request m))
    \<and> (\<forall>w. w \<noteq> si_workload_id request \<longrightarrow> map_find w (workload_tasks st') = map_find w (workload_tasks st))"
proof (cases rule: AddSchedInfo_cases [of request clk clk' st])
  case (admitted m st2)
  let ?st1 = "st\<lparr>workload_tasks := map_put (si_workload_id request) (entry_of st request m) (workload_tasks st)\<rparr>"
  have "map_ok (workload_tasks ?st1)" using assms(2) by (simp add: map_ok_put)
  note c = RegenerateAllSchedules_consistent [OF admitted(3) this]
  have st': "st' = st2\<lparr>schedule_changed := True\<rparr>" using assms(1) admitted(4) by simp
  have "consistent st'" using c(1) by (simp add: st' consistent_def node_tasks_def)
  moreover have "workload_tasks st' = workload_tasks ?st1" unfolding st' by (subst c(2)) simp
  ultimately show ?thesis
    using admitted(1) assms(2) by (simp add: st' map_find_put)
next
  case refused
  with assms(1) show ?thesis by simp
next
  case (rolled_back m st2)
  from assms(1) [unfolded rolled_back(5)] show ?thesis by simp
qed

definition demo_request :: SchedInfo where
  "demo_request = \<lparr>si_workload_id = ''w'', si_tasks = [\<lparr>ti_name = ''t'', ti_priority = 0, ti_policy = 0,
     ti_cpu_affinity = 0, ti_period = 10, ti_release_time = 0, ti_runtime = 2, ti_deadline = 0,
     ti_node_id = ''n1'', ti_max_dmiss = 3\<rparr>], si_temporal_class = 0\<rparr>"

lemma demo_request_admitted:
  "fst (AddSchedInfo (\<lambda>_. 5) (\<lambda>_. 6) demo_request (SchedInfoServiceImpl_init None)) = 0"
  by code_simp

theorem AddSchedInfo_admits_witness:
  "\<exists>st'. AddSchedInfo (\<lambda>_. 5) (\<lambda>_. 6) demo_request (SchedInfoServiceImpl_init None) = (0, st')
    \<and> consistent st' \<and> schedule_changed st'"
proof -
  obtain st' where r: "AddSchedInfo (\<lambda>_. 5) (\<lambda>_. 6) demo_request (SchedInfoServiceImpl_init None) = (0, st')"
    using demo_request_admitted by (metis prod.collapse)
  have "map_ok (workload_tasks (SchedInfoServiceImpl_init None))" by (simp add: SchedInfoServiceImpl_init_def)
  from AddSchedInfo_admits [OF r this] r show ?thesis by blast
qed

text \<open>C9: A rejected new workload leaves no trace: from a consistent state in which the workload is
  unknown, a request answered -1 keeps the admitted workloads, the flag and the consistency, and
  every table up to its epoch.\<close>

theorem AddSchedInfo_rejects_new:
  assumes "AddSchedInfo clk clk' request st = (-1, st')" "consistent st"
    and "map_find (si_workload_id request) (workload_tasks st) = None"
  shows "workload_tasks st' = workload_tasks st \<and> schedule_changed st' = schedule_changed st \<and> consistent st'
    \<and> (\<forall>n. map_option (epoch_ns_update (\<lambda>_. 0)) (map_find n (schedule_tables st'))
          = map_option (epoch_ns_update (\<lambda>_. 0)) (map_find n (schedule_tables st)))"
proof (cases rule: AddSchedInfo_cases [of request clk clk' st])
  case (rolled_back m st2)
  have st2: "st2 = st" using assms(3) by (simp add: rolled_back(4) map_erase_put_new)
  from consistent_regenerates [OF assms(2)] obtain st3 where st3: "RegenerateAllSchedules clk' st = Inr st3" by blast
  then have st': "st' = st3" using assms(1) rolled_back(5) st2 by simp
  have "map_ok (workload_tasks st)" using assms(2) by (simp add: consistent_def)
  note c = RegenerateAllSchedules_consistent [OF st3 this]
  have keys: "fst ` set (schedule_tables st3) = fst ` set (schedule_tables st)"
  proof -
    from st3 obtain new where r: "regenerate clk' st (all_nodes st) [] = Inr new" and "st3 = st\<lparr>schedule_tables := new\<rparr>"
      by (auto simp: RegenerateAllSchedules_def bindE_eq_Inr)
    with regenerate_Inr [OF r map_ok_Nil] have "fst ` set (schedule_tables st3) = set (all_nodes st)" by simp
    also have "\<dots> = fst ` set (schedule_tables st)" using assms(2) by (auto simp: set_all_nodes consistent_def)
    finally show ?thesis .
  qed
  have nt: "node_tasks st3 = node_tasks st" "node_config_manager st3 = node_config_manager st"
    by (subst c(2), simp add: node_tasks_def fun_eq_iff)+
  have eq: "t'\<lparr>epoch_ns := 0\<rparr> = t\<lparr>epoch_ns := 0\<rparr>"
    if f: "map_find n (schedule_tables st3) = Some t'" "map_find n (schedule_tables st) = Some t" for n t t'
  proof -
    obtain now now' where "generate_schedule (node_config_manager st) now n (node_tasks st n) = Inr t"
      "generate_schedule (node_config_manager st) now' n (node_tasks st n) = Inr t'"
      using f c(1) assms(2) unfolding consistent_def nt by blast
    from generate_schedule_clock [OF this(1), of now'] this(2) have "t' = t\<lparr>epoch_ns := now'\<rparr>" by simp
    then show ?thesis by simp
  qed
  have "map_option (epoch_ns_update (\<lambda>_. 0)) (map_find n (schedule_tables st3))
      = map_option (epoch_ns_update (\<lambda>_. 0)) (map_find n (schedule_tables st))" for n
  proof (cases "map_find n (schedule_tables st)")
    case None
    then have "map_find n (schedule_tables st3) = None" unfolding map_find_None keys .
    with None show ?thesis by simp
  next
    case (Some t)
    then have "map_find n (schedule_tables st3) \<noteq> None" by (metis keys map_find_None option.distinct(1))
    then obtain t' where t': "map_find n (schedule_tables st3) = Some t'" by blast
    from eq [OF t' Some] show ?thesis unfolding t' Some option.map by (rule arg_cong)
  qed
  moreover have "workload_tasks st3 = workload_tasks st" "schedule_changed st3 = schedule_changed st"
    by (subst c(2), simp)+
  ultimately show ?thesis using c(1) st' by simp
next
  case refused
  from assms(1) [unfolded refused(2)] have "st' = st" by simp
  with assms(2) show ?thesis by blast
next
  case (admitted m st2)
  from assms(1) [unfolded admitted(4)] show ?thesis by simp
qed

definition bad_request :: SchedInfo where
  "bad_request = demo_request\<lparr>si_tasks := [(hd (si_tasks demo_request))\<lparr>ti_runtime := 10\<rparr>], si_temporal_class := 1\<rparr>"

lemma bad_request_rejected:
  "fst (AddSchedInfo (\<lambda>_. 5) (\<lambda>_. 6) bad_request (SchedInfoServiceImpl_init None)) = -1"
  by code_simp

theorem AddSchedInfo_rejects_new_witness:
  "\<exists>st'. AddSchedInfo (\<lambda>_. 5) (\<lambda>_. 6) bad_request (SchedInfoServiceImpl_init None) = (-1, st')
    \<and> workload_tasks st' = [] \<and> consistent st'"
proof -
  obtain st' where r: "AddSchedInfo (\<lambda>_. 5) (\<lambda>_. 6) bad_request (SchedInfoServiceImpl_init None) = (-1, st')"
    using bad_request_rejected by (metis prod.collapse)
  have "consistent (SchedInfoServiceImpl_init None)"
    "map_find (si_workload_id bad_request) (workload_tasks (SchedInfoServiceImpl_init None)) = None"
    by (simp_all add: SchedInfoServiceImpl_init_def consistent_def)
  from AddSchedInfo_rejects_new [OF r this] r show ?thesis by (simp add: SchedInfoServiceImpl_init_def)
qed

text \<open>
  A failed update of an admitted workload drops it: the roll-back erases the workload instead of
  restoring the version that was admitted, and the flag that makes the sender push the new tables
  is not set.
\<close>

theorem failed_update_drops_workload:
  assumes "AddSchedInfo clk clk' request st = (-1, st')" "map_ok (workload_tasks st)"
    and "classify (si_temporal_class request) \<noteq> None" "si_tasks request \<noteq> []"
  shows "map_find (si_workload_id request) (workload_tasks st') = None \<and> schedule_changed st' = schedule_changed st"
proof (cases rule: AddSchedInfo_cases [of request clk clk' st])
  case refused
  with assms(3,4) show ?thesis by simp
next
  case (admitted m st2)
  from assms(1) [unfolded admitted(4)] show ?thesis by simp
next
  case (rolled_back m st2)
  have "map_find (si_workload_id request) (workload_tasks st2) = None" "schedule_changed st2 = schedule_changed st"
    by (simp_all add: rolled_back(4) map_find_erase)
  moreover have "workload_tasks st' = workload_tasks st2 \<and> schedule_changed st' = schedule_changed st2"
  proof (cases "RegenerateAllSchedules clk' st2")
    case (Inl e)
    with assms(1) [unfolded rolled_back(5)] show ?thesis by simp
  next
    case (Inr st3)
    have "map_ok (workload_tasks st2)" using assms(2) by (simp add: rolled_back(4) map_ok_erase map_ok_put)
    from RegenerateAllSchedules_consistent(2) [OF Inr this] have "workload_tasks st3 = workload_tasks st2"
      "schedule_changed st3 = schedule_changed st2" by (metis SchedInfoServiceImpl.select_convs(1,3)
        SchedInfoServiceImpl.surjective SchedInfoServiceImpl.update_convs(2))+
    with Inr assms(1) [unfolded rolled_back(5)] show ?thesis by simp
  qed
  ultimately show ?thesis by simp
qed

text \<open>C7: What the service publishes is correct in all its runs. Let requests be admitted, rejected or
  rolled back, workloads be updated and removed and tables be read in any order, and let the last attempt
  to make the tables have succeeded. Then every node that an admitted workload targets has a table. Every
  table of a node with admitted tasks is correct for all of them: on every isolated CPU each release of
  each time-triggered task in the CPU's hyperperiod has its own slot within its deadline, slots do not
  overlap, every server has its budget, and CPUs with servers are loaded to at most 0.78 (up to 2 to the
  -30). A node without admitted tasks that still has a table has an empty one.\<close>

theorem published_tables_correct:
  assumes "service_run True st"
  shows "(\<forall>w e n. map_find w (workload_tasks st) = Some e \<and> n \<in> set (we_target_nodes e)
        \<longrightarrow> map_find n (schedule_tables st) \<noteq> None)
    \<and> (\<forall>n table. map_find n (schedule_tables st) = Some table \<and> node_tasks st n \<noteq> []
          \<and> (\<forall>t\<in>set (node_tasks st n). unat (ct_period_us t) < 2 ^ 31) \<and> length (node_tasks st n) < 2 ^ 20
        \<longrightarrow> (\<exists>tt cbs scheds. assigned (set (isolated_cpus (node_config_manager st) n)) (node_tasks st n) tt cbs
              \<and> fst ` set scheds = set (isolated_cpus (node_config_manager st) n)
              \<and> (\<forall>(cpu, s)\<in>set scheds. cpu_schedule_ok cpu (on_cpu cpu tt) (on_cpu cpu cbs) s)
              \<and> partitions table = map (\<lambda>(cpu, s). mk_partition cpu s)
                  (filter (\<lambda>(cpu, s). \<not> (pcs_tt_slots s = [] \<and> pcs_cbs_allocations s = [])) scheds)))
    \<and> (\<forall>n table. map_find n (schedule_tables st) = Some table \<and> node_tasks st n = [] \<longrightarrow> partitions table = [])"
proof -
  have c: "consistent st" using service_run_inv [OF assms] by simp
  have target: "map_find n (schedule_tables st) \<noteq> None"
    if "map_find w (workload_tasks st) = Some e" "n \<in> set (we_target_nodes e)" for w e n
  proof -
    have "(w, e) \<in> set (workload_tasks st)" using that(1) by (rule map_find_mem)
    with c that(2) have "n \<in> fst ` set (schedule_tables st)" by (fastforce simp: consistent_def)
    then show ?thesis by (metis map_find_None)
  qed
  have gen: "\<exists>now. generate_schedule (node_config_manager st) now n (node_tasks st n) = Inr table"
    if "map_find n (schedule_tables st) = Some table" for n table
    using c that unfolding consistent_def by blast
  have table: "\<exists>tt cbs scheds. assigned (set (isolated_cpus (node_config_manager st) n)) (node_tasks st n) tt cbs
      \<and> fst ` set scheds = set (isolated_cpus (node_config_manager st) n)
      \<and> (\<forall>(cpu, s)\<in>set scheds. cpu_schedule_ok cpu (on_cpu cpu tt) (on_cpu cpu cbs) s)
      \<and> partitions table = map (\<lambda>(cpu, s). mk_partition cpu s)
          (filter (\<lambda>(cpu, s). \<not> (pcs_tt_slots s = [] \<and> pcs_cbs_allocations s = [])) scheds)"
    if t: "map_find n (schedule_tables st) = Some table" "node_tasks st n \<noteq> []"
      "\<forall>t\<in>set (node_tasks st n). unat (ct_period_us t) < 2 ^ 31" "length (node_tasks st n) < 2 ^ 20" for n table
  proof -
    from gen [OF t(1)] obtain now where "generate_schedule (node_config_manager st) now n (node_tasks st n) = Inr table" ..
    from generate_schedule_Inr [OF this t(2-4)] show ?thesis
      by (elim exE conjE) (intro exI conjI, assumption, assumption, assumption, simp add: build_table_def)
  qed
  have "partitions table = []" if "map_find n (schedule_tables st) = Some table" "node_tasks st n = []" for n table
    using gen [OF that(1)] that(2) by (auto simp: generate_schedule_def build_table_def)
  with target table show ?thesis by blast
qed

definition demo_service :: SchedInfoServiceImpl where
  "demo_service = snd (AddSchedInfo (\<lambda>_. 5) (\<lambda>_. 6) demo_request (SchedInfoServiceImpl_init None))"

lemma demo_service_table: "map_find ''n1'' (schedule_tables demo_service) \<noteq> None"
  by code_simp

lemma demo_service_tasks: "map ct_period_us (node_tasks demo_service ''n1'') = [10]"
  by code_simp

lemma demo_service_run: "service_run True demo_service"
proof (rule service_run.added [OF service_run.start])
  show "AddSchedInfo (\<lambda>_. 5) (\<lambda>_. 6) demo_request (SchedInfoServiceImpl_init None) = (0, demo_service)"
    using demo_request_admitted unfolding demo_service_def by (metis prod.collapse)
qed

lemma demo_service_consistent: "consistent demo_service"
  using service_run_inv [OF demo_service_run] by simp

theorem published_tables_correct_witness:
  "\<exists>table tt cbs scheds. map_find ''n1'' (schedule_tables demo_service) = Some table
    \<and> assigned (set (isolated_cpus (node_config_manager demo_service) ''n1'')) (node_tasks demo_service ''n1'') tt cbs
    \<and> (\<forall>(cpu, s)\<in>set scheds. cpu_schedule_ok cpu (on_cpu cpu tt) (on_cpu cpu cbs) s)
    \<and> partitions table = map (\<lambda>(cpu, s). mk_partition cpu s)
        (filter (\<lambda>(cpu, s). \<not> (pcs_tt_slots s = [] \<and> pcs_cbs_allocations s = [])) scheds)"
proof -
  from demo_service_table obtain table where t: "map_find ''n1'' (schedule_tables demo_service) = Some table" by blast
  obtain u where u: "node_tasks demo_service ''n1'' = [u]" "ct_period_us u = 10"
    using demo_service_tasks by (auto simp: map_eq_Cons_conv)
  then have "node_tasks demo_service ''n1'' \<noteq> []" "length (node_tasks demo_service ''n1'') < 2 ^ 20"
    "\<forall>t\<in>set (node_tasks demo_service ''n1''). unat (ct_period_us t) < 2 ^ 31" by simp_all
  with published_tables_correct [OF demo_service_run, THEN conjunct2, THEN conjunct1, rule_format, of "''n1''" table] t
  show ?thesis by blast
qed

text \<open>C15: When \<open>RemoveWorkload\<close> answers true, the resolved workload is gone, every other one is
  kept, and the tables are those of the remaining workloads; otherwise nothing is pushed.\<close>

theorem RemoveWorkload_removes:
  assumes "RemoveWorkload clk workload_id trigger_push st = (Inr (ok, resolved), st')" "map_ok (workload_tasks st)"
  shows "(ok \<longrightarrow> consistent st' \<and> (\<exists>w. resolved = Some w \<and> workload_tasks st' = map_erase w (workload_tasks st))
        \<and> schedule_changed st' = (trigger_push \<or> schedule_changed st))
    \<and> (\<not> ok \<longrightarrow> schedule_tables st' = schedule_tables st \<and> schedule_changed st' = schedule_changed st)"
  using assms by (rule RemoveWorkload_result)

lemma demo_removed: "fst (RemoveWorkload (\<lambda>_. 8) ''w'' True demo_service) = Inr (True, Some ''w'')"
  by code_simp

theorem RemoveWorkload_removes_witness:
  "\<exists>st'. RemoveWorkload (\<lambda>_. 8) ''w'' True demo_service = (Inr (True, Some ''w''), st') \<and> consistent st'
    \<and> map_find ''w'' (workload_tasks st') = None"
proof -
  obtain st' where r: "RemoveWorkload (\<lambda>_. 8) ''w'' True demo_service = (Inr (True, Some ''w''), st')"
    using demo_removed by (metis prod.collapse)
  have "map_ok (workload_tasks demo_service)" using demo_service_consistent by (simp add: consistent_def)
  from RemoveWorkload_removes [OF r this] r show ?thesis by (auto simp: map_find_erase)
qed

lemma decimal_not_hex: "\<not> starts_with ''0x'' (nat_to_string n)"
proof
  assume "starts_with ''0x'' (nat_to_string n)"
  then have "CHR ''x'' \<in> set (nat_to_string n)" by (metis in_set_takeD list.set_intros starts_with_def)
  then have "is_digit (CHR ''x'')" using nat_to_string_digits by (simp add: list_all_iff)
  then show False by (simp add: is_digit_def chr_code_def)
qed

text \<open>A workload can be named by the decimal hash of its name: the lookup returns a workload with
  that hash whenever one is admitted, and never throws.\<close>

theorem resolve_hashed_decimal:
  assumes "w \<in> set names"
  shows "\<exists>w'\<in>set names. fnv1a_hash w' = fnv1a_hash w
    \<and> resolve_hashed (nat_to_string (unat (fnv1a_hash w))) names = Inr (Some w')"
  using assms by (induction names) (auto simp: Let_def nat_to_string_inj word_unat_eq_iff [symmetric] decimal_not_hex)

theorem resolve_hashed_decimal_witness:
  "\<exists>w'\<in>set [''a'', ''b'']. fnv1a_hash w' = fnv1a_hash ''b''
    \<and> resolve_hashed (nat_to_string (unat (fnv1a_hash ''b''))) [''a'', ''b''] = Inr (Some w')"
  by (rule resolve_hashed_decimal) simp

text \<open>A hexadecimal name that \<open>std::stoull\<close> rejects makes the removal throw out of the service.\<close>

theorem RemoveWorkload_throws:
  assumes "workload_tasks st \<noteq> []" "map_find workload_id (workload_tasks st) = None"
    and "starts_with ''0x'' workload_id" "stoull16 workload_id = Inl e"
  shows "RemoveWorkload clk workload_id trigger_push st = (Inl e, st)"
proof -
  obtain w ws where ws: "map fst (workload_tasks st) = w # ws" using assms(1) by (cases "workload_tasks st") auto
  have "nat_to_string (unat (fnv1a_hash w)) \<noteq> workload_id" using assms(3) decimal_not_hex by metis
  with assms(2-4) ws show ?thesis by (simp add: RemoveWorkload_def Let_def)
qed

lemma stoull16_too_long: "stoull16 ''0x11111111111111111'' = Inl Out_of_range"
  by (simp add: stoull16_def take_sign_def is_space_def chr_code_def xdigit_val_def)

end
