(* ===== verification/Fault_Client.thy ===== *)
theory Fault_Client
  imports Messages "HOL-Library.Sublist" "HOL-Library.Multiset"
begin

text \<open>
  The orchestrator's client for reporting faults, \<open>timpani-o/src/fault_client.cpp\<close>. The remote call is a
  parameter: \<open>rpc k\<close> is the answer to the \<open>k\<close>-th call of the client, \<open>None\<close> if the call fails and
  otherwise the status of the reply. The state also holds the requests the peer has accepted, in order.
\<close>

section \<open>State\<close>

record FaultReport =
  fr_workload_id :: string
  fr_node_id :: string
  fr_task_name :: string
  fr_type :: i32
  fr_cumulative_dmiss :: u32

record FaultServiceClient =
  initialized :: bool
  retry_queue :: "FaultReport list"
  fc_calls :: nat
  fc_accepted :: "FaultReport list"

definition FaultServiceClient_init :: FaultServiceClient where
  "FaultServiceClient_init = \<lparr>initialized = False, retry_queue = [], fc_calls = 0, fc_accepted = []\<rparr>"

definition kMaxRetryQueue :: nat where "kMaxRetryQueue = 1024"

section \<open>Operations\<close>

text \<open>\<open>channel\<close> says whether the channel and the stub can be created.\<close>

definition Initialize :: "bool \<Rightarrow> string \<Rightarrow> FaultServiceClient \<Rightarrow> bool \<times> FaultServiceClient" where
  "Initialize channel server_address c =
     (if initialized c then (True, c)
      else if server_address = [] then (False, c)
      else if \<not> channel then (False, c)
      else (True, c\<lparr>initialized := True\<rparr>))"

definition SendFaultRpc :: "(nat \<Rightarrow> i32 option) \<Rightarrow> FaultReport \<Rightarrow> FaultServiceClient \<Rightarrow> bool \<times> FaultServiceClient" where
  "SendFaultRpc rpc request c =
     (let c1 = c\<lparr>fc_calls := Suc (fc_calls c)\<rparr>
      in case rpc (fc_calls c) of
           None \<Rightarrow> (False, c1)
         | Some status \<Rightarrow> if status \<noteq> 0 then (False, c1) else (True, c1\<lparr>fc_accepted := fc_accepted c @ [request]\<rparr>))"

fun flush :: "(nat \<Rightarrow> i32 option) \<Rightarrow> FaultReport list \<Rightarrow> FaultServiceClient \<Rightarrow> bool \<times> FaultServiceClient" where
  "flush rpc [] c = (True, c\<lparr>retry_queue := []\<rparr>)"
| "flush rpc (pending # rest) c =
     (let (ok, c1) = SendFaultRpc rpc pending c
      in if \<not> ok then (False, c1\<lparr>retry_queue := pending # rest\<rparr>) else flush rpc rest c1)"

definition FlushRetryQueueLocked :: "(nat \<Rightarrow> i32 option) \<Rightarrow> FaultServiceClient \<Rightarrow> bool \<times> FaultServiceClient" where
  "FlushRetryQueueLocked rpc c = flush rpc (retry_queue c) c"

definition EnqueueRetryLocked :: "FaultReport \<Rightarrow> FaultServiceClient \<Rightarrow> FaultServiceClient" where
  "EnqueueRetryLocked request c =
     (let q = (if kMaxRetryQueue \<le> length (retry_queue c) then tl (retry_queue c) else retry_queue c)
      in c\<lparr>retry_queue := q @ [request]\<rparr>)"

definition NotifyFault ::
  "(nat \<Rightarrow> i32 option) \<Rightarrow> string \<Rightarrow> string \<Rightarrow> string \<Rightarrow> i32 \<Rightarrow> u32 \<Rightarrow> FaultServiceClient \<Rightarrow> bool \<times> FaultServiceClient" where
  "NotifyFault rpc workload_id node_id task_name fault_type cumulative_dmiss c =
     (if \<not> initialized c then (False, c)
      else let request = \<lparr>fr_workload_id = workload_id, fr_node_id = node_id, fr_task_name = task_name,
                          fr_type = fault_type, fr_cumulative_dmiss = cumulative_dmiss\<rparr>;
               c1 = snd (FlushRetryQueueLocked rpc c);
               (ok, c2) = SendFaultRpc rpc request c1
           in if \<not> ok then (False, EnqueueRetryLocked request c2) else (True, c2))"

definition FaultTypeToStr :: "i32 \<Rightarrow> string" where
  "FaultTypeToStr t = (if t = UNKNOWN then ''UNKNOWN'' else if t = DMISS then ''DMISS'' else ''INVALID'')"

section \<open>Delivery\<close>

definition notify :: "(nat \<Rightarrow> i32 option) \<Rightarrow> FaultServiceClient \<Rightarrow> FaultReport \<Rightarrow> FaultServiceClient" where
  "notify rpc c r = snd (NotifyFault rpc (fr_workload_id r) (fr_node_id r) (fr_task_name r) (fr_type r)
     (fr_cumulative_dmiss r) c)"

lemma SendFaultRpc_effect:
  "retry_queue (snd (SendFaultRpc rpc r c)) = retry_queue c"
  "initialized (snd (SendFaultRpc rpc r c)) = initialized c"
  "fc_calls (snd (SendFaultRpc rpc r c)) = Suc (fc_calls c)"
  "fst (SendFaultRpc rpc r c) = (rpc (fc_calls c) = Some 0)"
  "fc_accepted (snd (SendFaultRpc rpc r c)) = (if fst (SendFaultRpc rpc r c) then fc_accepted c @ [r] else fc_accepted c)"
  by (auto simp: SendFaultRpc_def Let_def split: option.split)

text \<open>Flushing moves a prefix of the queue to the accepted requests.\<close>

lemma flush_effect:
  "\<exists>done rest. q = done @ rest \<and> retry_queue (snd (flush rpc q c)) = rest
    \<and> fc_accepted (snd (flush rpc q c)) = fc_accepted c @ done \<and> initialized (snd (flush rpc q c)) = initialized c
    \<and> (fst (flush rpc q c) \<longleftrightarrow> rest = [])"
proof (induction q arbitrary: c)
  case Nil
  then show ?case by simp
next
  case (Cons p q)
  obtain ok c1 where s: "SendFaultRpc rpc p c = (ok, c1)" by fastforce
  note e = SendFaultRpc_effect [of rpc p c, unfolded s, simplified]
  show ?case
  proof (cases ok)
    case True
    obtain d rest where "q = d @ rest" "retry_queue (snd (flush rpc q c1)) = rest"
      "fc_accepted (snd (flush rpc q c1)) = fc_accepted c1 @ d" "initialized (snd (flush rpc q c1)) = initialized c1"
      "fst (flush rpc q c1) \<longleftrightarrow> rest = []"
      using Cons.IH [of c1] by blast
    then show ?thesis
      using True s e by (intro exI [of _ "p # d"] exI [of _ rest]) simp
  next
    case False
    then show ?thesis using s e by (intro exI [of _ "[]"] exI [of _ "p # q"]) simp
  qed
qed

lemma report_eta: "\<lparr>fr_workload_id = fr_workload_id r, fr_node_id = fr_node_id r, fr_task_name = fr_task_name r,
    fr_type = fr_type r, fr_cumulative_dmiss = fr_cumulative_dmiss r\<rparr> = r"
  by simp

lemma notify_effect:
  assumes "initialized c"
  shows "\<exists>done rest. retry_queue c = done @ rest \<and> initialized (notify rpc c r) \<and>
    (fc_accepted (notify rpc c r) = fc_accepted c @ done @ [r] \<and> retry_queue (notify rpc c r) = rest
     \<or> fc_accepted (notify rpc c r) = fc_accepted c @ done
       \<and> retry_queue (notify rpc c r) = (if kMaxRetryQueue \<le> length rest then tl rest else rest) @ [r])"
proof -
  obtain d rest where f: "retry_queue c = d @ rest" "retry_queue (snd (flush rpc (retry_queue c) c)) = rest"
    "fc_accepted (snd (flush rpc (retry_queue c) c)) = fc_accepted c @ d"
    "initialized (snd (flush rpc (retry_queue c) c)) = initialized c"
    using flush_effect [of "retry_queue c" rpc c] by blast
  let ?c1 = "snd (flush rpc (retry_queue c) c)"
  obtain ok c2 where s: "SendFaultRpc rpc r ?c1 = (ok, c2)" by fastforce
  note e = SendFaultRpc_effect [of rpc r ?c1, unfolded s, simplified]
  have "notify rpc c r = (if ok then c2 else EnqueueRetryLocked r c2)"
    using assms s by (simp add: notify_def NotifyFault_def FlushRetryQueueLocked_def Let_def report_eta del: FaultReport.surjective)
  then show ?thesis
    using f e assms by (intro exI [of _ d] exI [of _ rest]) (simp add: EnqueueRetryLocked_def Let_def)
qed


lemma flush_all:
  assumes "\<And>k. fc_calls c \<le> k \<Longrightarrow> rpc k = Some 0"
  shows "retry_queue (snd (flush rpc q c)) = []" and "fc_calls c \<le> fc_calls (snd (flush rpc q c))"
  using assms
proof (induction q arbitrary: c)
  case (Cons p q)
  case 1
  then show ?case using Cons.IH(1) [of "snd (SendFaultRpc rpc p c)"]
    by (simp add: case_prod_unfold Let_def SendFaultRpc_effect)
next
  case (Cons p q)
  case 2
  then show ?case using Cons.IH(2) [of "snd (SendFaultRpc rpc p c)"]
    by (simp add: case_prod_unfold Let_def SendFaultRpc_effect)
qed simp_all

lemma notify_all:
  assumes "initialized c" and "\<And>k. fc_calls c \<le> k \<Longrightarrow> rpc k = Some 0"
  shows "retry_queue (notify rpc c r) = []"
  using assms flush_all [of c rpc "retry_queue c", OF assms(2)]
  by (simp add: notify_def NotifyFault_def FlushRetryQueueLocked_def Let_def case_prod_unfold SendFaultRpc_effect)

definition kept :: "FaultReport list \<Rightarrow> FaultServiceClient \<Rightarrow> bool" where
  "kept rs c \<longleftrightarrow> initialized c \<and> length (retry_queue c) \<le> kMaxRetryQueue \<and> length (retry_queue c) \<le> length rs
     \<and> (length rs \<le> kMaxRetryQueue \<longrightarrow>
          mset (fc_accepted c) + mset (retry_queue c) = mset rs \<and> subseq (retry_queue c) rs)"

lemma kept_notify:
  assumes k: "kept rs c"
  shows "kept (rs @ [r]) (notify rpc c r)"
proof -
  have "initialized c" using k by (simp add: kept_def)
  then obtain d rest where q: "retry_queue c = d @ rest" and i: "initialized (notify rpc c r)"
    and n: "fc_accepted (notify rpc c r) = fc_accepted c @ d @ [r] \<and> retry_queue (notify rpc c r) = rest
     \<or> fc_accepted (notify rpc c r) = fc_accepted c @ d
       \<and> retry_queue (notify rpc c r) = (if kMaxRetryQueue \<le> length rest then tl rest else rest) @ [r]"
    using notify_effect [of c rpc r] by blast
  have pos: "0 < kMaxRetryQueue" by (simp add: kMaxRetryQueue_def)
  have len: "length rest \<le> kMaxRetryQueue" "length rest \<le> length rs" using k q by (auto simp: kept_def)
  have rest: "subseq rest rs" if "length rs \<le> kMaxRetryQueue"
    using k q that subseq_order.order_trans [of rest "d @ rest" rs] by (simp add: kept_def list_emb_append2)
  have m: "mset (fc_accepted c) + mset d + mset rest = mset rs" if "length rs \<le> kMaxRetryQueue"
    using k q that by (simp add: kept_def add.assoc)
  from n show ?thesis
  proof
    assume "fc_accepted (notify rpc c r) = fc_accepted c @ d @ [r] \<and> retry_queue (notify rpc c r) = rest"
    then show ?thesis using i len rest m by (auto simp: kept_def list_emb_prefix)
  next
    assume "fc_accepted (notify rpc c r) = fc_accepted c @ d
       \<and> retry_queue (notify rpc c r) = (if kMaxRetryQueue \<le> length rest then tl rest else rest) @ [r]"
    then show ?thesis using i len pos rest m by (auto simp: kept_def list_emb_append_mono)
  qed
qed

lemma kept_foldl: "kept [] c \<Longrightarrow> kept rs (foldl (notify rpc) c rs)"
  by (induction rs rule: rev_induct) (simp_all add: kept_notify)

text \<open>C33: The retry queue stays within its bound, and no fault report is lost or duplicated while it does not
  overflow. After any reports, with any pattern of failing calls, at most 1024 reports wait. If there
  were at most 1024 reports in all, the accepted ones together with the waiting ones are exactly the
  reported ones, each as often as it was reported, and the waiting ones are in the order of their report.
  Once the calls succeed again, the next report leaves nothing waiting.\<close>

theorem fault_reports_kept:
  assumes "initialized c" and "retry_queue c = []" and "fc_accepted c = []"
  shows "length (retry_queue (foldl (notify rpc) c rs)) \<le> 1024
    \<and> (length rs \<le> 1024 \<longrightarrow>
         mset (fc_accepted (foldl (notify rpc) c rs)) + mset (retry_queue (foldl (notify rpc) c rs)) = mset rs
         \<and> subseq (retry_queue (foldl (notify rpc) c rs)) rs)
    \<and> ((\<forall>k \<ge> fc_calls (foldl (notify rpc) c rs). rpc k = Some 0) \<longrightarrow>
         retry_queue (notify rpc (foldl (notify rpc) c rs) r) = [])"
proof -
  have "kept [] c" using assms by (simp add: kept_def)
  from kept_foldl [OF this, of rs rpc] show ?thesis
    using notify_all [of "foldl (notify rpc) c rs" rpc r] by (simp add: kept_def kMaxRetryQueue_def)
qed

definition demo_report :: "string \<Rightarrow> FaultReport" where
  "demo_report t = \<lparr>fr_workload_id = ''w'', fr_node_id = ''n'', fr_task_name = t, fr_type = DMISS, fr_cumulative_dmiss = 1\<rparr>"

definition demo_client :: FaultServiceClient where
  "demo_client = snd (Initialize True ''h:1'' FaultServiceClient_init)"

lemma demo_client_simps: "demo_client = \<lparr>initialized = True, retry_queue = [], fc_calls = 0, fc_accepted = []\<rparr>"
  by (simp add: demo_client_def Initialize_def FaultServiceClient_init_def)

theorem fault_reports_kept_witness:
  "let rpc = (\<lambda>k. if k = 0 then None else Some 0);
       c = foldl (notify rpc) demo_client [demo_report ''a'']
   in retry_queue c = [demo_report ''a''] \<and> length (retry_queue c) \<le> 1024
      \<and> mset (fc_accepted c) + mset (retry_queue c) = mset [demo_report ''a'']
      \<and> retry_queue (notify rpc c (demo_report ''b'')) = []"
proof -
  let ?rpc = "\<lambda>k::nat. if k = 0 then None else Some 0 :: i32 option"
  have c: "foldl (notify ?rpc) demo_client [demo_report ''a''] =
      \<lparr>initialized = True, retry_queue = [demo_report ''a''], fc_calls = 1, fc_accepted = []\<rparr>"
    by (simp add: demo_client_simps notify_def NotifyFault_def FlushRetryQueueLocked_def SendFaultRpc_def
        EnqueueRetryLocked_def kMaxRetryQueue_def Let_def demo_report_def)
  show ?thesis
    using fault_reports_kept [of demo_client ?rpc "[demo_report ''a'']" "demo_report ''b''"]
    unfolding c Let_def by (simp add: demo_client_simps)
qed

text \<open>A report is sent even when the waiting ones could not be: with one failing call each for the first report
  and for its repetition, the second report is accepted while the first still waits.\<close>

theorem newer_fault_overtakes:
  "let c = foldl (notify (\<lambda>k. if k < 2 then None else Some 0)) demo_client [demo_report ''a'', demo_report ''b'']
   in fc_accepted c = [demo_report ''b''] \<and> retry_queue c = [demo_report ''a'']"
  by (simp add: demo_client_simps notify_def NotifyFault_def FlushRetryQueueLocked_def SendFaultRpc_def
      EnqueueRetryLocked_def kMaxRetryQueue_def Let_def demo_report_def)

end
