(* ===== verification/Orchestrator.thy ===== *)
theory Orchestrator
  imports SchedInfo_Service Fault_Client
begin

text \<open>
  The orchestrator's side of the node streams, \<open>timpani-o/src/orchestrator_service.cpp\<close>, and the recovery
  service, \<open>timpani-o/src/recovery_service.cpp\<close>. A stream is a number; \<open>stream_node\<close> is the node id its
  handler has learnt, empty before the first event with one. \<open>writes s\<close> says whether a write to stream
  \<open>s\<close> succeeds, and \<open>sent\<close> holds the commands written, in order.
\<close>

section \<open>Node streams\<close>

record OrchestratorServiceImpl =
  connected_nodes :: "(string, nat) std_map"
  stream_node :: "nat \<Rightarrow> string"
  sent :: "(nat \<times> ControlCommand) list"

definition OrchestratorServiceImpl_init :: OrchestratorServiceImpl where
  "OrchestratorServiceImpl_init = \<lparr>connected_nodes = [], stream_node = (\<lambda>_. []), sent = []\<rparr>"

definition fault_request :: "FaultInfo \<Rightarrow> string \<Rightarrow> FaultReport" where
  "fault_request fault node_id =
     \<lparr>fr_workload_id = (if fi_workload_id fault = [] then nat_to_string (unat (fi_workload_id_hash fault))
                        else fi_workload_id fault),
      fr_node_id = node_id,
      fr_task_name = (if fi_task_id fault = [] then nat_to_string (unat (fi_task_id_hash fault))
                      else fi_task_id fault),
      fr_type = (if fi_fault_type fault = DMISS then DMISS else UNKNOWN),
      fr_cumulative_dmiss = fi_dmiss_count fault\<rparr>"

definition handle_fault_info ::
  "(nat \<Rightarrow> i32 option) \<Rightarrow> FaultInfo \<Rightarrow> string \<Rightarrow> FaultServiceClient \<Rightarrow> FaultServiceClient" where
  "handle_fault_info rpc fault node_id client =
     (let r = fault_request fault node_id
      in snd (NotifyFault rpc (fr_workload_id r) (fr_node_id r) (fr_task_name r) (fr_type r)
           (fr_cumulative_dmiss r) client))"

text \<open>One turn of the read loop. The other three kinds of event are only logged.\<close>

definition stream_event ::
  "(nat \<Rightarrow> i32 option) \<Rightarrow> nat \<Rightarrow> NodeEvent \<Rightarrow> OrchestratorServiceImpl \<times> FaultServiceClient
   \<Rightarrow> OrchestratorServiceImpl \<times> FaultServiceClient" where
  "stream_event rpc sid e st =
     (case st of (orch, client) \<Rightarrow>
        let orch1 = (if stream_node orch sid = [] \<and> ev_node_id e \<noteq> []
                     then orch\<lparr>stream_node := (stream_node orch)(sid := ev_node_id e),
                               connected_nodes := map_put (ev_node_id e) sid (connected_nodes orch)\<rparr>
                     else orch)
        in case ev_event e of
             Fault fault \<Rightarrow> (orch1, handle_fault_info rpc fault (stream_node orch1 sid) client)
           | _ \<Rightarrow> (orch1, client))"

definition stream_end :: "nat \<Rightarrow> OrchestratorServiceImpl \<Rightarrow> OrchestratorServiceImpl" where
  "stream_end sid orch =
     (if stream_node orch sid \<noteq> []
      then orch\<lparr>connected_nodes := map_erase (stream_node orch sid) (connected_nodes orch),
                stream_node := (stream_node orch)(sid := [])\<rparr>
      else orch)"

definition NodeStream ::
  "(nat \<Rightarrow> i32 option) \<Rightarrow> nat \<Rightarrow> NodeEvent list \<Rightarrow> OrchestratorServiceImpl \<times> FaultServiceClient
   \<Rightarrow> OrchestratorServiceImpl \<times> FaultServiceClient" where
  "NodeStream rpc sid events st =
     (let (orch, client) = foldl (\<lambda>st e. stream_event rpc sid e st) st events
      in (stream_end sid orch, client))"

section \<open>Commands\<close>

definition write_command ::
  "(nat \<Rightarrow> bool) \<Rightarrow> nat \<Rightarrow> ControlCommand \<Rightarrow> OrchestratorServiceImpl \<Rightarrow> bool \<times> OrchestratorServiceImpl" where
  "write_command writes sid cmd orch =
     (if writes sid then (True, orch\<lparr>sent := sent orch @ [(sid, cmd)]\<rparr>) else (False, orch))"

definition push_full_table :: "(nat \<Rightarrow> bool) \<Rightarrow> string \<Rightarrow> HierarchicalScheduleTable
    \<Rightarrow> OrchestratorServiceImpl \<Rightarrow> bool \<times> OrchestratorServiceImpl" where
  "push_full_table writes node_id table orch =
     (case map_find node_id (connected_nodes orch) of
        None \<Rightarrow> (False, orch)
      | Some sid \<Rightarrow> write_command writes sid (Full_table table) orch)"

definition push_update :: "(nat \<Rightarrow> bool) \<Rightarrow> string \<Rightarrow> string
    \<Rightarrow> OrchestratorServiceImpl \<Rightarrow> bool \<times> OrchestratorServiceImpl" where
  "push_update writes node_id upd orch =
     (case map_find node_id (connected_nodes orch) of
        None \<Rightarrow> (False, orch)
      | Some sid \<Rightarrow> write_command writes sid (Update_table upd) orch)"

definition get_connected_node_ids :: "OrchestratorServiceImpl \<Rightarrow> string list" where
  "get_connected_node_ids orch = map fst (connected_nodes orch)"

fun broadcast_loop ::
  "(nat \<Rightarrow> bool) \<Rightarrow> ControlCommand \<Rightarrow> (string \<times> nat) list \<Rightarrow> bool \<Rightarrow> OrchestratorServiceImpl
   \<Rightarrow> bool \<times> OrchestratorServiceImpl" where
  "broadcast_loop writes cmd [] all_success orch = (all_success, orch)"
| "broadcast_loop writes cmd ((_, sid) # nodes) all_success orch =
     (let (ok, orch') = write_command writes sid cmd orch
      in broadcast_loop writes cmd nodes (if \<not> ok then False else all_success) orch')"

definition broadcast_recovery_signal ::
  "(nat \<Rightarrow> bool) \<Rightarrow> string \<Rightarrow> i32 \<Rightarrow> OrchestratorServiceImpl \<Rightarrow> bool \<times> OrchestratorServiceImpl" where
  "broadcast_recovery_signal writes workload_id action orch =
     broadcast_loop writes (Recovery \<lparr>rs_workload_id = workload_id, rs_action = action\<rparr>)
       (connected_nodes orch) True orch"

section \<open>Recovery\<close>

definition RECOVERY_STOP :: i32 where "RECOVERY_STOP = 1"

text \<open>
  The reply's status, or the exception that leaves the handler. Both services exist once the program has
  started, which is the case modelled.
\<close>

definition EnforceRecoveryPolicy ::
  "(string \<Rightarrow> u64) \<Rightarrow> (nat \<Rightarrow> bool) \<Rightarrow> string \<Rightarrow> i32 \<Rightarrow> SchedInfoServiceImpl \<times> OrchestratorServiceImpl
   \<Rightarrow> (std_exn + int) \<times> SchedInfoServiceImpl \<times> OrchestratorServiceImpl" where
  "EnforceRecoveryPolicy clk writes workload_id policy st =
     (case st of (sinfo, orch) \<Rightarrow>
        if policy = RECOVERY_STOP then
          (case RemoveWorkload clk workload_id False sinfo of
             (Inl e, sinfo') \<Rightarrow> (Inl e, sinfo', orch)
           | (Inr (_, resolved), sinfo') \<Rightarrow>
               let actual_wid = (case resolved of Some w \<Rightarrow> w | None \<Rightarrow> workload_id);
                   (broadcast_ok, orch') = broadcast_recovery_signal writes actual_wid ACTION_STOP orch
               in (Inr (if broadcast_ok then 0 else -1), sinfo', orch'))
        else (Inr 0, sinfo, orch))"

section \<open>The registry of connected nodes\<close>

text \<open>
  Interleavings of the handlers of many streams: a stream delivers an event, or it ends. In these runs
  a node opens a new stream only after its last one has ended.
\<close>

inductive registry_step :: "OrchestratorServiceImpl \<Rightarrow> OrchestratorServiceImpl \<Rightarrow> bool" where
  event: "stream_node orch sid = [] \<Longrightarrow> (\<forall>other. ev_node_id e \<noteq> [] \<longrightarrow> stream_node orch other \<noteq> ev_node_id e)
    \<Longrightarrow> registry_step orch (fst (stream_event rpc sid e (orch, client)))"
| later: "stream_node orch sid \<noteq> [] \<Longrightarrow> registry_step orch (fst (stream_event rpc sid e (orch, client)))"
| closed: "registry_step orch (stream_end sid orch)"
| command: "registry_step orch (orch\<lparr>sent := cmds\<rparr>)"

definition registry_exact :: "OrchestratorServiceImpl \<Rightarrow> bool" where
  "registry_exact orch \<longleftrightarrow> map_ok (connected_nodes orch)
     \<and> (\<forall>n sid. map_find n (connected_nodes orch) = Some sid \<longleftrightarrow> n \<noteq> [] \<and> stream_node orch sid = n)"

lemma stream_event_frame:
  "fst (stream_event rpc sid e (orch, client)) =
     (if stream_node orch sid = [] \<and> ev_node_id e \<noteq> []
      then orch\<lparr>stream_node := (stream_node orch)(sid := ev_node_id e),
                connected_nodes := map_put (ev_node_id e) sid (connected_nodes orch)\<rparr>
      else orch)"
  by (simp add: stream_event_def Let_def split: event.split)

lemma registry_exact_unique:
  assumes "registry_exact orch" and "stream_node orch a = stream_node orch b" and "stream_node orch a \<noteq> []"
  shows "a = b"
proof -
  have "map_find (stream_node orch a) (connected_nodes orch) = Some a"
    "map_find (stream_node orch a) (connected_nodes orch) = Some b"
    using assms by (simp_all add: registry_exact_def)
  then show ?thesis by simp
qed

lemma registry_exact_step:
  assumes "registry_step orch orch'" and "registry_exact orch"
  shows "registry_exact orch'"
  using assms
proof (induction rule: registry_step.induct)
  case (event orch sid e rpc client)
  then show ?case
    unfolding stream_event_frame registry_exact_def by (auto simp: map_find_put map_ok_put)
next
  case (later orch sid rpc e client)
  then show ?case by (simp add: stream_event_frame)
next
  case (closed orch sid)
  have "registry_exact (stream_end sid orch)" if "stream_node orch sid \<noteq> []"
    using closed that registry_exact_unique [OF closed, of _ sid]
    by (auto simp: stream_end_def registry_exact_def map_find_erase map_ok_erase)
  with closed show ?case by (cases "stream_node orch sid = []") (simp_all add: stream_end_def)
next
  case (command orch cmds)
  then show ?case by (simp add: registry_exact_def)
qed

text \<open>C31: The registry is exact. Let the streams of many nodes deliver events and end in any order, as
  long as a node opens a new stream only after its last one has ended. Then the registry holds a node
  exactly when one of the open streams has introduced itself as that node, and it holds that stream. A
  table pushed to a registered node goes to that stream and to no other.\<close>

theorem registry_matches_streams:
  assumes "registry_step\<^sup>*\<^sup>* OrchestratorServiceImpl_init orch"
  shows "(\<forall>n sid. map_find n (connected_nodes orch) = Some sid \<longleftrightarrow> n \<noteq> [] \<and> stream_node orch sid = n)
    \<and> (\<forall>n. n \<in> set (get_connected_node_ids orch) \<longleftrightarrow> n \<noteq> [] \<and> (\<exists>sid. stream_node orch sid = n))
    \<and> (\<forall>n sid. n \<noteq> [] \<and> stream_node orch sid = n \<and> writes sid \<longrightarrow>
         push_full_table writes n table orch = (True, orch\<lparr>sent := sent orch @ [(sid, Full_table table)]\<rparr>))"
proof -
  have e: "registry_exact orch"
    using assms
  proof (induction rule: rtranclp_induct)
    case base
    show ?case by (auto simp: registry_exact_def OrchestratorServiceImpl_init_def)
  next
    case (step y z)
    then show ?case by (blast intro: registry_exact_step)
  qed
  have ids: "n \<in> set (get_connected_node_ids orch) \<longleftrightarrow> (\<exists>sid. map_find n (connected_nodes orch) = Some sid)" for n
    using map_find_None [of n "connected_nodes orch"]
    by (cases "map_find n (connected_nodes orch)") (auto simp: get_connected_node_ids_def)
  have find: "map_find n (connected_nodes orch) = Some sid \<longleftrightarrow> n \<noteq> [] \<and> stream_node orch sid = n" for n sid
    using e by (simp add: registry_exact_def)
  have push: "push_full_table writes n table orch = (True, orch\<lparr>sent := sent orch @ [(sid, Full_table table)]\<rparr>)"
    if "n \<noteq> []" "stream_node orch sid = n" "writes sid" for n sid
    using find [of n sid] that by (simp add: push_full_table_def write_command_def)
  from find push ids show ?thesis by simp
qed

definition demo_hello :: "string \<Rightarrow> NodeEvent" where
  "demo_hello n = \<lparr>ev_node_id = n, ev_event = Status 0\<rparr>"

definition demo_empty :: HierarchicalScheduleTable where
  "demo_empty = \<lparr>table_id = ''t'', table_node_id = ''n1'', hyperperiod_us = 1, epoch_ns = 0, partitions = []\<rparr>"

definition demo_orch :: OrchestratorServiceImpl where
  "demo_orch = fst (stream_event (\<lambda>_. None) 7 (demo_hello ''n1'') (OrchestratorServiceImpl_init, FaultServiceClient_init))"

lemma demo_orch_simps:
  "connected_nodes demo_orch = [(''n1'', 7)]" "stream_node demo_orch = (\<lambda>_. [])(7 := ''n1'')" "sent demo_orch = []"
  by (simp_all add: demo_orch_def stream_event_frame demo_hello_def OrchestratorServiceImpl_init_def)

theorem registry_matches_streams_witness:
  "map_find ''n1'' (connected_nodes demo_orch) = Some 7
    \<and> push_full_table (\<lambda>_. True) ''n1'' demo_empty demo_orch
      = (True, demo_orch\<lparr>sent := [(7, Full_table demo_empty)]\<rparr>)"
proof -
  have run: "registry_step\<^sup>*\<^sup>* OrchestratorServiceImpl_init demo_orch"
    unfolding demo_orch_def
    by (rule r_into_rtranclp, rule registry_step.event)
      (auto simp: OrchestratorServiceImpl_init_def demo_hello_def)
  note spec = registry_matches_streams [OF run, of "\<lambda>_. True" demo_empty]
  have "stream_node demo_orch 7 = ''n1''" by (simp add: demo_orch_simps)
  with spec [THEN conjunct1, rule_format, of "''n1''" 7]
    spec [THEN conjunct2, THEN conjunct2, rule_format, of "''n1''" 7]
  show ?thesis by (simp add: demo_orch_simps(3))
qed

text \<open>
  Without that order the registry loses a node. When a node reconnects before its old stream has ended, the
  end of the old stream removes the node although its new stream is open.
\<close>

theorem old_stream_end_drops_node:
  assumes "stream_node orch old = n" and "n \<noteq> []" and "stream_node orch new = []" and "old \<noteq> new"
    and "map_ok (connected_nodes orch)" and "ev_node_id e = n"
  shows "let orch' = stream_end old (fst (stream_event rpc new e (orch, client)))
    in stream_node orch' new = n \<and> map_find n (connected_nodes orch') = None"
  using assms by (auto simp: Let_def stream_event_frame stream_end_def map_find_erase)

section \<open>Stopping a workload\<close>

lemma broadcast_loop_effect:
  "broadcast_loop writes cmd ns b orch
   = (b \<and> (\<forall>e\<in>set ns. writes (snd e)),
      orch\<lparr>sent := sent orch @ map (\<lambda>e. (snd e, cmd)) (filter (\<lambda>e. writes (snd e)) ns)\<rparr>)"
  by (induction writes cmd ns b orch rule: broadcast_loop.induct) (auto simp: write_command_def)

lemma broadcast_effect:
  "broadcast_recovery_signal writes w a orch =
     ((\<forall>e\<in>set (connected_nodes orch). writes (snd e)),
      orch\<lparr>sent := sent orch @ map (\<lambda>e. (snd e, Recovery \<lparr>rs_workload_id = w, rs_action = a\<rparr>))
        (filter (\<lambda>e. writes (snd e)) (connected_nodes orch))\<rparr>)"
  by (simp add: broadcast_recovery_signal_def broadcast_loop_effect)

lemma RegenerateAllSchedules_frame:
  assumes "RegenerateAllSchedules clk st = Inr st'"
  shows "schedule_changed st' = schedule_changed st" and "workload_tasks st' = workload_tasks st"
  using assms by (auto simp: RegenerateAllSchedules_def bindE_eq_Inr)

lemma RemoveWorkload_effect:
  assumes "RemoveWorkload clk w False st = (Inr (ok, resolved), st')"
  shows "schedule_changed st' = schedule_changed st"
    and "workload_tasks st' = (case resolved of None \<Rightarrow> workload_tasks st | Some a \<Rightarrow> map_erase a (workload_tasks st))"
proof -
  let ?lookup = "if map_find w (workload_tasks st) \<noteq> None then Inr (Some w)
      else resolve_hashed w (map fst (workload_tasks st))"
  have "?lookup \<noteq> Inl e" for e
  proof
    assume "?lookup = Inl e"
    from assms [unfolded RemoveWorkload_def this] show False by simp
  qed
  then obtain found where f: "?lookup = Inr found" by (metis sumE)
  note r = assms [unfolded RemoveWorkload_def f]
  have "schedule_changed st' = schedule_changed st
    \<and> workload_tasks st' = (case resolved of None \<Rightarrow> workload_tasks st | Some a \<Rightarrow> map_erase a (workload_tasks st))"
  proof (cases found)
    case None
    with r show ?thesis by simp
  next
    case (Some a)
    let ?st = "st\<lparr>workload_tasks := map_erase a (workload_tasks st)\<rparr>"
    show ?thesis
    proof (cases "RegenerateAllSchedules clk ?st")
      case (Inl e)
      with r Some show ?thesis by (auto simp: Let_def)
    next
      case (Inr st2)
      with r Some RegenerateAllSchedules_frame [OF Inr] show ?thesis by (auto simp: Let_def)
    qed
  qed
  then show "schedule_changed st' = schedule_changed st"
    and "workload_tasks st' = (case resolved of None \<Rightarrow> workload_tasks st | Some a \<Rightarrow> map_erase a (workload_tasks st))"
    by blast+
qed

end
