(* ===== verification/Replay.thy ===== *)
theory Replay
  imports Orchestrator Node_Config
begin

text \<open>
  The orchestrator's main program, \<open>timpani-o/src/main.cpp\<close>: its options, its start, and the loop that
  sends the schedule tables to the nodes. One turn of the loop is \<open>replay_iteration\<close>. Steady-clock times
  are nanoseconds as integers. A \<open>std::set\<close> or \<open>std::unordered_map\<close> that is only asked for single keys is
  a set or a partial function, and a set that is traversed is the ascending list of its elements.
\<close>

section \<open>Options and start\<close>

record Options =
  sinfo_port :: int
  fault_addr :: string
  fault_port :: int
  node_config_file :: string

definition Options_init :: Options where
  "Options_init = \<lparr>sinfo_port = 50052, fault_addr = ''localhost'', fault_port = 50053, node_config_file = []\<rparr>"

text \<open>
  \<open>opts\<close> is what \<open>getopt_long\<close> returns, option by option with its argument. The result is \<open>None\<close> when the
  usage is shown; a port that is no number throws.
\<close>

fun GetOptions :: "(char \<times> string) list \<Rightarrow> Options \<Rightarrow> std_exn + Options option" where
  "GetOptions [] o1 = Inr (Some o1)"
| "GetOptions ((opt, optarg) # opts) o1 =
     (if opt = CHR ''s'' then bindE (stoi optarg) (\<lambda>p. GetOptions opts (o1\<lparr>sinfo_port := p\<rparr>))
      else if opt = CHR ''f'' then GetOptions opts (o1\<lparr>fault_addr := optarg\<rparr>)
      else if opt = CHR ''p'' then bindE (stoi optarg) (\<lambda>p. GetOptions opts (o1\<lparr>fault_port := p\<rparr>))
      else if opt = CHR ''c'' then GetOptions opts (o1\<lparr>node_config_file := optarg\<rparr>)
      else Inr None)"

definition InitFaultClient :: "(string \<Rightarrow> bool) \<Rightarrow> string \<Rightarrow> int \<Rightarrow> FaultServiceClient \<Rightarrow> bool \<times> FaultServiceClient" where
  "InitFaultClient channel addr port client =
     (let piccolo_addr = addr @ '':'' @ int_to_string port
      in Initialize (channel piccolo_addr) piccolo_addr client)"

section \<open>State of the loop\<close>

record replay =
  replay_pending :: bool
  warned_no_nodes_for_replay :: bool
  known_connected_nodes :: "string list"
  synced_nodes :: "string set"
  replay_failures :: "string \<rightharpoonup> int"
  next_retry_time :: "string \<rightharpoonup> int"
  last_pushed_tables :: "string \<rightharpoonup> HierarchicalScheduleTable"

definition replay_init :: replay where
  "replay_init = \<lparr>replay_pending = False, warned_no_nodes_for_replay = False, known_connected_nodes = [],
     synced_nodes = {}, replay_failures = Map.empty, next_retry_time = Map.empty, last_pushed_tables = Map.empty\<rparr>"

definition kRetryBaseDelay :: int where "kRetryBaseDelay = 500"
definition kRetryMaxDelay :: int where "kRetryMaxDelay = 8000"
definition kRetryBackoffMaxShift :: int where "kRetryBackoffMaxShift = 4"

section \<open>One turn\<close>

definition forget_node :: "string \<Rightarrow> replay \<Rightarrow> replay" where
  "forget_node n r = r\<lparr>synced_nodes := synced_nodes r - {n},
     replay_failures := (replay_failures r)(n := None),
     next_retry_time := (next_retry_time r)(n := None)\<rparr>"

definition forget_table :: "string \<Rightarrow> replay \<Rightarrow> replay" where
  "forget_table n r = r\<lparr>last_pushed_tables := (last_pushed_tables r)(n := None)\<rparr>"

definition drop_disconnected :: "string list \<Rightarrow> replay \<Rightarrow> replay" where
  "drop_disconnected online r =
     foldl (\<lambda>r n. if n \<notin> set online then forget_table n (forget_node n r) else r) r (known_connected_nodes r)"

definition note_connected :: "string list \<Rightarrow> replay \<Rightarrow> replay" where
  "note_connected online r =
     (foldl (\<lambda>r' n. if n \<notin> set (known_connected_nodes r)
                    then forget_table n (forget_node n (r'\<lparr>replay_pending := True\<rparr>)) else r') r online)
       \<lparr>known_connected_nodes := online\<rparr>"

definition empty_table :: "string \<Rightarrow> HierarchicalScheduleTable" where
  "empty_table n = \<lparr>table_id = ''table_v1'', table_node_id = n, hyperperiod_us = 10000, epoch_ns = 0, partitions = []\<rparr>"

definition table_for :: "(string, HierarchicalScheduleTable) std_map \<Rightarrow> string \<Rightarrow> HierarchicalScheduleTable" where
  "table_for tables n = (case map_find n tables of Some t \<Rightarrow> t | None \<Rightarrow> empty_table n)"

text \<open>Two messages of one program have the same serialisation exactly when they are equal.\<close>

definition same_table :: "HierarchicalScheduleTable \<Rightarrow> HierarchicalScheduleTable \<Rightarrow> bool" where
  "same_table a b \<longleftrightarrow> a\<lparr>epoch_ns := 0\<rparr> = b\<lparr>epoch_ns := 0\<rparr>"

definition node_table_changed :: "(string, HierarchicalScheduleTable) std_map \<Rightarrow> replay \<Rightarrow> string \<Rightarrow> bool" where
  "node_table_changed tables r n =
     (case last_pushed_tables r n of Some t \<Rightarrow> \<not> same_table (table_for tables n) t | None \<Rightarrow> True)"

definition mark_changed :: "(string, HierarchicalScheduleTable) std_map \<Rightarrow> string list \<Rightarrow> replay \<Rightarrow> replay" where
  "mark_changed tables online r =
     (if tables = []
      then r\<lparr>replay_pending := True, synced_nodes := {}, replay_failures := Map.empty,
             next_retry_time := Map.empty, last_pushed_tables := Map.empty\<rparr>
      else foldl (\<lambda>r n. if node_table_changed tables r n then (forget_node n r)\<lparr>replay_pending := True\<rparr> else r)
             r online)"

definition retry_delay :: "int \<Rightarrow> int" where
  "retry_delay fail_count =
     (let backoff_shift = min (fail_count - 1) kRetryBackoffMaxShift;
          delay = kRetryBaseDelay * 2 ^ nat backoff_shift
      in if delay > kRetryMaxDelay then kRetryMaxDelay else delay)"

text \<open>\<open>wall n\<close> is the wall clock when an empty table is made for node \<open>n\<close>.\<close>

definition table_to_push ::
  "(string \<Rightarrow> u64) \<Rightarrow> (string, HierarchicalScheduleTable) std_map \<Rightarrow> string \<Rightarrow> HierarchicalScheduleTable" where
  "table_to_push wall tables n =
     (case map_find n tables of Some t \<Rightarrow> t | None \<Rightarrow> (empty_table n)\<lparr>epoch_ns := wall n\<rparr>)"

definition due :: "int \<Rightarrow> replay \<Rightarrow> string \<Rightarrow> bool" where
  "due now_ns r n \<longleftrightarrow> n \<notin> synced_nodes r \<and> (case next_retry_time r n of Some t \<Rightarrow> \<not> now_ns < t | None \<Rightarrow> True)"

definition pushed :: "string \<Rightarrow> HierarchicalScheduleTable \<Rightarrow> replay \<Rightarrow> replay" where
  "pushed n t r = r\<lparr>synced_nodes := insert n (synced_nodes r), replay_failures := (replay_failures r)(n := None),
     next_retry_time := (next_retry_time r)(n := None), last_pushed_tables := (last_pushed_tables r)(n \<mapsto> t)\<rparr>"

definition push_failed :: "int \<Rightarrow> string \<Rightarrow> replay \<Rightarrow> replay" where
  "push_failed now_ns n r =
     (let fail_count = (case replay_failures r n of Some f \<Rightarrow> f | None \<Rightarrow> 0) + 1
      in r\<lparr>synced_nodes := synced_nodes r - {n}, replay_failures := (replay_failures r)(n \<mapsto> fail_count),
           next_retry_time := (next_retry_time r)(n \<mapsto> now_ns + 1000000 * retry_delay fail_count)\<rparr>)"

fun push_nodes ::
  "(nat \<Rightarrow> bool) \<Rightarrow> int \<Rightarrow> (string \<Rightarrow> u64) \<Rightarrow> (string, HierarchicalScheduleTable) std_map \<Rightarrow> string list
   \<Rightarrow> bool \<Rightarrow> replay \<Rightarrow> OrchestratorServiceImpl \<Rightarrow> bool \<times> replay \<times> OrchestratorServiceImpl" where
  "push_nodes writes now_ns wall tables [] all_push_ok r orch = (all_push_ok, r, orch)"
| "push_nodes writes now_ns wall tables (n # ns) all_push_ok r orch =
     (if \<not> due now_ns r n then push_nodes writes now_ns wall tables ns all_push_ok r orch
      else let t = table_to_push wall tables n;
               (ok, orch') = push_full_table writes n t orch
           in if ok then push_nodes writes now_ns wall tables ns all_push_ok (pushed n t r) orch'
              else push_nodes writes now_ns wall tables ns False (push_failed now_ns n r) orch')"

definition replay_tables ::
  "(nat \<Rightarrow> bool) \<Rightarrow> int \<Rightarrow> (string \<Rightarrow> u64) \<Rightarrow> (string, HierarchicalScheduleTable) std_map \<Rightarrow> string list
   \<Rightarrow> replay \<Rightarrow> OrchestratorServiceImpl \<Rightarrow> replay \<times> OrchestratorServiceImpl" where
  "replay_tables writes now_ns wall tables online r orch =
     (if \<not> (replay_pending r \<and> tables \<noteq> []) then (r, orch)
      else if online = [] then (r\<lparr>warned_no_nodes_for_replay := True\<rparr>, orch)
      else let (all_push_ok, r', orch') =
                 push_nodes writes now_ns wall tables online True (r\<lparr>warned_no_nodes_for_replay := False\<rparr>) orch
           in if all_push_ok \<and> list_all (\<lambda>n. n \<in> synced_nodes r') online
              then (r'\<lparr>replay_pending := False\<rparr>, orch') else (r', orch'))"

definition update_marks ::
  "(string, HierarchicalScheduleTable) std_map \<Rightarrow> bool \<Rightarrow> string list \<Rightarrow> replay \<Rightarrow> replay" where
  "update_marks tables changed online r =
     (let r1 = note_connected online (drop_disconnected online r)
      in if changed then mark_changed tables online r1 else r1)"

definition replay_iteration ::
  "(nat \<Rightarrow> bool) \<Rightarrow> int \<Rightarrow> (string \<Rightarrow> u64) \<Rightarrow> SchedInfoServiceImpl \<times> OrchestratorServiceImpl \<times> replay
   \<Rightarrow> SchedInfoServiceImpl \<times> OrchestratorServiceImpl \<times> replay" where
  "replay_iteration writes now_ns wall st =
     (case st of (sinfo, orch, r) \<Rightarrow>
        let (tables, changed, sinfo') = GetScheduleTables True sinfo;
            online = get_connected_node_ids orch;
            r1 = update_marks tables (changed = Some True) online r;
            (r2, orch') = replay_tables writes now_ns wall tables online r1 orch
        in (sinfo', orch', r2))"

section \<open>Effects\<close>

lemma forget_simps [simp]:
  "synced_nodes (forget_node n r) = synced_nodes r - {n}" "synced_nodes (forget_table n r) = synced_nodes r"
  "last_pushed_tables (forget_node n r) = last_pushed_tables r"
  "last_pushed_tables (forget_table n r) = (last_pushed_tables r)(n := None)"
  "known_connected_nodes (forget_node n r) = known_connected_nodes r"
  "known_connected_nodes (forget_table n r) = known_connected_nodes r"
  "replay_pending (forget_node n r) = replay_pending r" "replay_pending (forget_table n r) = replay_pending r"
  "next_retry_time (forget_node n r) = (next_retry_time r)(n := None)"
  "next_retry_time (forget_table n r) = next_retry_time r"
  by (simp_all add: forget_node_def forget_table_def)

lemma pushed_simps [simp]:
  "synced_nodes (pushed n t r) = insert n (synced_nodes r)"
  "last_pushed_tables (pushed n t r) = (last_pushed_tables r)(n \<mapsto> t)"
  "known_connected_nodes (pushed n t r) = known_connected_nodes r"
  "replay_pending (pushed n t r) = replay_pending r"
  "next_retry_time (pushed n t r) = (next_retry_time r)(n := None)"
  by (simp_all add: pushed_def)

lemma push_failed_simps [simp]:
  "synced_nodes (push_failed now_ns n r) = synced_nodes r - {n}"
  "last_pushed_tables (push_failed now_ns n r) = last_pushed_tables r"
  "known_connected_nodes (push_failed now_ns n r) = known_connected_nodes r"
  "replay_pending (push_failed now_ns n r) = replay_pending r"
  by (simp_all add: push_failed_def Let_def)

text \<open>The first two loops forget the nodes that left and those that are new.\<close>

lemma drop_disconnected_effect:
  "synced_nodes (drop_disconnected online r) = synced_nodes r - (set (known_connected_nodes r) - set online)"
  "last_pushed_tables (drop_disconnected online r) n =
     (if n \<in> set (known_connected_nodes r) - set online then None else last_pushed_tables r n)"
  "known_connected_nodes (drop_disconnected online r) = known_connected_nodes r"
  "replay_pending (drop_disconnected online r) = replay_pending r"
  "next_retry_time (drop_disconnected online r) n =
     (if n \<in> set (known_connected_nodes r) - set online then None else next_retry_time r n)"
proof -
  let ?f = "\<lambda>r n. if n \<notin> set online then forget_table n (forget_node n r) else r"
  have "synced_nodes (foldl ?f r ns) = synced_nodes r - (set ns - set online)
    \<and> last_pushed_tables (foldl ?f r ns) n = (if n \<in> set ns - set online then None else last_pushed_tables r n)
    \<and> known_connected_nodes (foldl ?f r ns) = known_connected_nodes r
    \<and> replay_pending (foldl ?f r ns) = replay_pending r
    \<and> next_retry_time (foldl ?f r ns) n = (if n \<in> set ns - set online then None else next_retry_time r n)" for ns
    by (induction ns arbitrary: r) auto
  then show "synced_nodes (drop_disconnected online r) = synced_nodes r - (set (known_connected_nodes r) - set online)"
    "last_pushed_tables (drop_disconnected online r) n =
       (if n \<in> set (known_connected_nodes r) - set online then None else last_pushed_tables r n)"
    "known_connected_nodes (drop_disconnected online r) = known_connected_nodes r"
    "replay_pending (drop_disconnected online r) = replay_pending r"
    "next_retry_time (drop_disconnected online r) n =
       (if n \<in> set (known_connected_nodes r) - set online then None else next_retry_time r n)"
    unfolding drop_disconnected_def by blast+
qed

lemma note_connected_effect:
  "synced_nodes (note_connected online r) = synced_nodes r - (set online - set (known_connected_nodes r))"
  "last_pushed_tables (note_connected online r) n =
     (if n \<in> set online - set (known_connected_nodes r) then None else last_pushed_tables r n)"
  "known_connected_nodes (note_connected online r) = online"
  "replay_pending (note_connected online r) \<longleftrightarrow> replay_pending r \<or> \<not> set online \<subseteq> set (known_connected_nodes r)"
  "next_retry_time (note_connected online r) n =
     (if n \<in> set online - set (known_connected_nodes r) then None else next_retry_time r n)"
proof -
  let ?k = "set (known_connected_nodes r)"
  let ?f = "\<lambda>r' n. if n \<notin> ?k then forget_table n (forget_node n (r'\<lparr>replay_pending := True\<rparr>)) else r'"
  have "synced_nodes (foldl ?f r' ns) = synced_nodes r' - (set ns - ?k)
    \<and> last_pushed_tables (foldl ?f r' ns) n = (if n \<in> set ns - ?k then None else last_pushed_tables r' n)
    \<and> (replay_pending (foldl ?f r' ns) \<longleftrightarrow> replay_pending r' \<or> \<not> set ns \<subseteq> ?k)
    \<and> next_retry_time (foldl ?f r' ns) n = (if n \<in> set ns - ?k then None else next_retry_time r' n)" for ns r'
    by (induction ns arbitrary: r') auto
  from this [of r online]
  show "synced_nodes (note_connected online r) = synced_nodes r - (set online - set (known_connected_nodes r))"
    "last_pushed_tables (note_connected online r) n =
       (if n \<in> set online - set (known_connected_nodes r) then None else last_pushed_tables r n)"
    "known_connected_nodes (note_connected online r) = online"
    "replay_pending (note_connected online r) \<longleftrightarrow> replay_pending r \<or> \<not> set online \<subseteq> set (known_connected_nodes r)"
    "next_retry_time (note_connected online r) n =
       (if n \<in> set online - set (known_connected_nodes r) then None else next_retry_time r n)"
    unfolding note_connected_def by simp_all
qed

lemma mark_changed_effect:
  assumes "tables \<noteq> []"
  shows "synced_nodes (mark_changed tables online r) = synced_nodes r - {n \<in> set online. node_table_changed tables r n}"
    and "last_pushed_tables (mark_changed tables online r) = last_pushed_tables r"
    and "known_connected_nodes (mark_changed tables online r) = known_connected_nodes r"
    and "replay_pending (mark_changed tables online r)
      \<longleftrightarrow> replay_pending r \<or> (\<exists>n\<in>set online. node_table_changed tables r n)"
    and "next_retry_time (mark_changed tables online r) n
      = (if n \<in> set online \<and> node_table_changed tables r n then None else next_retry_time r n)"
proof -
  let ?f = "\<lambda>r n. if node_table_changed tables r n then (forget_node n r)\<lparr>replay_pending := True\<rparr> else r"
  have "synced_nodes (foldl ?f r' ns) = synced_nodes r' - {n \<in> set ns. node_table_changed tables r n}
    \<and> last_pushed_tables (foldl ?f r' ns) = last_pushed_tables r'
    \<and> known_connected_nodes (foldl ?f r' ns) = known_connected_nodes r'
    \<and> (replay_pending (foldl ?f r' ns) \<longleftrightarrow> replay_pending r' \<or> (\<exists>n\<in>set ns. node_table_changed tables r n))
    \<and> next_retry_time (foldl ?f r' ns) n
      = (if n \<in> set ns \<and> node_table_changed tables r n then None else next_retry_time r' n)"
    if "last_pushed_tables r' = last_pushed_tables r" for r' ns
    using that
  proof (induction ns arbitrary: r')
    case (Cons m ns)
    have "node_table_changed tables r' m = node_table_changed tables r m"
      using Cons.prems by (simp add: node_table_changed_def)
    then show ?case
      using Cons.IH [of r'] Cons.IH [of "(forget_node m r')\<lparr>replay_pending := True\<rparr>"] Cons.prems by auto
  qed simp
  from this [of r online] assms
  show "synced_nodes (mark_changed tables online r) = synced_nodes r - {n \<in> set online. node_table_changed tables r n}"
    and "last_pushed_tables (mark_changed tables online r) = last_pushed_tables r"
    and "known_connected_nodes (mark_changed tables online r) = known_connected_nodes r"
    and "replay_pending (mark_changed tables online r)
      \<longleftrightarrow> replay_pending r \<or> (\<exists>n\<in>set online. node_table_changed tables r n)"
    and "next_retry_time (mark_changed tables online r) n
      = (if n \<in> set online \<and> node_table_changed tables r n then None else next_retry_time r n)"
    unfolding mark_changed_def by simp_all
qed

section \<open>What the streams were told\<close>

text \<open>The last full table written to a stream.\<close>

definition last_table :: "nat \<Rightarrow> (nat \<times> ControlCommand) list \<Rightarrow> HierarchicalScheduleTable option" where
  "last_table sid cmds =
     foldl (\<lambda>t (s, cmd). case cmd of Full_table u \<Rightarrow> if s = sid then Some u else t | _ \<Rightarrow> t) None cmds"

lemma last_table_simps [simp]:
  "last_table sid [] = None"
  "last_table sid (cmds @ [(s, Full_table t)]) = (if s = sid then Some t else last_table sid cmds)"
  by (simp_all add: last_table_def)

lemma last_table_other:
  assumes "\<And>c t. c \<in> set cmds' \<Longrightarrow> snd c \<noteq> Full_table t"
  shows "last_table sid (cmds @ cmds') = last_table sid cmds"
  using assms
proof (induction cmds' rule: rev_induct)
  case (snoc c cmds')
  have "last_table sid ((cmds @ cmds') @ [c]) = last_table sid (cmds @ cmds')"
    using snoc.prems [of c] by (cases c; cases "snd c") (auto simp: last_table_def)
  with snoc show ?case by simp
qed simp

text \<open>
  The marks of a loop are truthful if the stream of every marked node was last told the table that is
  recorded for the node.
\<close>

definition told :: "OrchestratorServiceImpl \<Rightarrow> replay \<Rightarrow> bool" where
  "told orch r \<longleftrightarrow> (\<forall>n\<in>synced_nodes r. \<exists>t. last_pushed_tables r n = Some t
     \<and> (\<forall>sid. map_find n (connected_nodes orch) = Some sid \<longrightarrow> last_table sid (sent orch) = Some t))"

definition in_sync :: "(string, HierarchicalScheduleTable) std_map \<Rightarrow> replay \<Rightarrow> bool" where
  "in_sync tables r \<longleftrightarrow> (\<forall>n\<in>synced_nodes r. \<exists>t. last_pushed_tables r n = Some t \<and> same_table (table_for tables n) t)"

definition marks_ok :: "replay \<Rightarrow> bool" where
  "marks_ok r \<longleftrightarrow> synced_nodes r \<subseteq> set (known_connected_nodes r)
     \<and> (\<not> replay_pending r \<longrightarrow> set (known_connected_nodes r) \<subseteq> synced_nodes r)"

lemma same_table_push: "same_table (table_for tables n) (table_to_push wall tables n)"
  by (simp add: same_table_def table_for_def table_to_push_def split: option.split)

lemma same_table_trans: "same_table a b \<Longrightarrow> same_table b c \<Longrightarrow> same_table a c"
  by (simp add: same_table_def)

lemma registry_exact_inj:
  "registry_exact orch \<Longrightarrow> map_find n (connected_nodes orch) = Some sid \<Longrightarrow> map_find m (connected_nodes orch) = Some sid
    \<Longrightarrow> n = m"
  by (simp add: registry_exact_def)

lemma registry_exact_sent [simp]: "registry_exact (orch\<lparr>sent := cmds\<rparr>) = registry_exact orch"
  by (simp add: registry_exact_def)

lemma push_full_table_sent:
  assumes "push_full_table writes n t orch = (ok, orch')"
  shows "(ok \<and> (\<exists>sid. map_find n (connected_nodes orch) = Some sid \<and> orch' = orch\<lparr>sent := sent orch @ [(sid, Full_table t)]\<rparr>))
    \<or> (\<not> ok \<and> orch' = orch)"
  using assms by (auto simp: push_full_table_def write_command_def split: option.splits if_splits)

lemma told_pushed:
  assumes "told orch r" and "registry_exact orch" and "map_find n (connected_nodes orch) = Some sid"
  shows "told (orch\<lparr>sent := sent orch @ [(sid, Full_table t)]\<rparr>) (pushed n t r)"
  unfolding told_def
proof
  fix m
  assume m: "m \<in> synced_nodes (pushed n t r)"
  show "\<exists>u. last_pushed_tables (pushed n t r) m = Some u
    \<and> (\<forall>s. map_find m (connected_nodes (orch\<lparr>sent := sent orch @ [(sid, Full_table t)]\<rparr>)) = Some s
      \<longrightarrow> last_table s (sent (orch\<lparr>sent := sent orch @ [(sid, Full_table t)]\<rparr>)) = Some u)"
  proof (cases "m = n")
    case True
    then show ?thesis
      using assms(3) by simp
  next
    case False
    with m obtain u where u: "last_pushed_tables r m = Some u"
      "\<And>s. map_find m (connected_nodes orch) = Some s \<Longrightarrow> last_table s (sent orch) = Some u"
      using assms(1) unfolding told_def by auto
    have "map_find m (connected_nodes orch) \<noteq> Some sid"
      using registry_exact_inj [OF assms(2,3), of m] False by auto
    with u False show ?thesis by simp
  qed
qed

lemma push_nodes_effect:
  assumes "push_nodes writes now_ns wall tables ns ok r orch = (ok', r', orch')" and "told orch r" and "registry_exact orch"
  shows "told orch' r' \<and> (in_sync tables r \<longrightarrow> in_sync tables r') \<and> known_connected_nodes r' = known_connected_nodes r
    \<and> replay_pending r' = replay_pending r \<and> synced_nodes r \<subseteq> synced_nodes r'
    \<and> synced_nodes r' \<subseteq> synced_nodes r \<union> set ns \<and> (\<exists>cmds. orch' = orch\<lparr>sent := cmds\<rparr>)"
  using assms
proof (induction ns arbitrary: ok r orch)
  case Nil
  then show ?case by (auto intro: exI [of _ "sent orch'"])
next
  case (Cons n ns)
  show ?case
  proof (cases "due now_ns r n")
    case False
    with Cons.prems Cons.IH [of ok r orch] show ?thesis by auto
  next
    case True
    let ?t = "table_to_push wall tables n"
    obtain sent_ok orch1 where p: "push_full_table writes n ?t orch = (sent_ok, orch1)" by fastforce
    from True have fresh: "n \<notin> synced_nodes r" by (simp add: due_def)
    show ?thesis
    proof (cases sent_ok)
      case success: True
      then obtain sid where sid: "map_find n (connected_nodes orch) = Some sid"
        and orch1: "orch1 = orch\<lparr>sent := sent orch @ [(sid, Full_table ?t)]\<rparr>"
        using push_full_table_sent [OF p] by auto
      have t1: "told orch1 (pushed n ?t r)" unfolding orch1 using Cons.prems(2,3) sid by (rule told_pushed)
      have i1: "in_sync tables r \<longrightarrow> in_sync tables (pushed n ?t r)"
        using same_table_push by (auto simp: in_sync_def)
      have "push_nodes writes now_ns wall tables ns ok (pushed n ?t r) orch1 = (ok', r', orch')"
        using Cons.prems(1) True p success by (simp add: Let_def)
      from Cons.IH [OF this t1] Cons.prems(3) i1 show ?thesis by (auto simp: orch1)
    next
      case failed: False
      then have orch1: "orch1 = orch" using push_full_table_sent [OF p] by simp
      have "told orch (push_failed now_ns n r)" "in_sync tables r \<longrightarrow> in_sync tables (push_failed now_ns n r)"
        using Cons.prems(2) by (auto simp: told_def in_sync_def)
      with Cons.prems(1,3) True p failed Cons.IH [of False "push_failed now_ns n r" orch] fresh show ?thesis
        by (auto simp: Let_def orch1)
    qed
  qed
qed

text \<open>The nodes the marks of a turn keep: those that have what was recorded, compared with the tables if
  these are announced as changed.\<close>

definition up_to_date :: "SchedInfoServiceImpl \<Rightarrow> replay \<Rightarrow> string \<Rightarrow> bool" where
  "up_to_date sinfo r n \<longleftrightarrow> n \<in> synced_nodes r \<and> (schedule_changed sinfo \<longrightarrow>
     (case last_pushed_tables r n of Some t \<Rightarrow> same_table (table_for (schedule_tables sinfo) n) t | None \<Rightarrow> False))"

lemma update_marks_effect:
  fixes sinfo :: SchedInfoServiceImpl and online :: "string list"
  assumes "marks_ok r"
  defines "r1 \<equiv> update_marks (schedule_tables sinfo) (schedule_changed sinfo) online r"
  shows "marks_ok r1" and "known_connected_nodes r1 = online"
    and "n \<in> synced_nodes r1 \<Longrightarrow> last_pushed_tables r1 n = last_pushed_tables r n"
    and "synced_nodes r1 \<subseteq> {n \<in> set online. up_to_date sinfo r n}"
    and "schedule_tables sinfo \<noteq> [] \<Longrightarrow> synced_nodes r1 = {n \<in> set online. up_to_date sinfo r n}"
proof -
  let ?tables = "schedule_tables sinfo" and ?r = "note_connected online (drop_disconnected online r)"
  note eff = drop_disconnected_effect note_connected_effect
  have s: "synced_nodes ?r = synced_nodes r \<inter> set online" using assms(1) by (auto simp: eff marks_ok_def)
  have l: "last_pushed_tables ?r n = last_pushed_tables r n" if "n \<in> synced_nodes r \<inter> set online" for n
    using that assms(1) by (auto simp: eff marks_ok_def)
  have m: "marks_ok ?r" using assms(1) s by (auto simp: marks_ok_def eff)
  have all: "marks_ok r1 \<and> known_connected_nodes r1 = online
    \<and> (\<forall>n\<in>synced_nodes r1. last_pushed_tables r1 n = last_pushed_tables r n)
    \<and> synced_nodes r1 \<subseteq> {n \<in> set online. up_to_date sinfo r n}
    \<and> (?tables \<noteq> [] \<longrightarrow> synced_nodes r1 = {n \<in> set online. up_to_date sinfo r n})"
  proof (cases "schedule_changed sinfo")
    case False
    with m s l show ?thesis by (auto simp: r1_def update_marks_def up_to_date_def note_connected_effect)
  next
    case changed: True
    show ?thesis
    proof (cases "?tables = []")
      case True
      with changed show ?thesis
        by (simp add: r1_def update_marks_def Let_def marks_ok_def mark_changed_def note_connected_effect)
    next
      case False
      note mark = mark_changed_effect [OF False]
      have "node_table_changed ?tables ?r n \<longleftrightarrow> \<not> up_to_date sinfo r n" if "n \<in> synced_nodes r \<inter> set online" for n
        using that l [OF that] changed by (simp add: node_table_changed_def up_to_date_def split: option.split)
      then have syn: "synced_nodes r1 = {n \<in> set online. up_to_date sinfo r n}"
        using changed s by (auto simp: r1_def update_marks_def Let_def mark up_to_date_def)
      moreover have "marks_ok r1" using m changed by (auto simp: r1_def update_marks_def marks_ok_def mark note_connected_effect)
      ultimately show ?thesis
        using changed l by (auto simp: r1_def update_marks_def Let_def mark note_connected_effect up_to_date_def)
    qed
  qed
  show "marks_ok r1" and "known_connected_nodes r1 = online"
    and "n \<in> synced_nodes r1 \<Longrightarrow> last_pushed_tables r1 n = last_pushed_tables r n"
    and "synced_nodes r1 \<subseteq> {n \<in> set online. up_to_date sinfo r n}"
    and "?tables \<noteq> [] \<Longrightarrow> synced_nodes r1 = {n \<in> set online. up_to_date sinfo r n}"
    using all by blast+
qed

lemma update_marks_sync:
  fixes sinfo :: SchedInfoServiceImpl and online :: "string list"
  assumes "marks_ok r" and "told orch r"
  defines "r1 \<equiv> update_marks (schedule_tables sinfo) (schedule_changed sinfo) online r"
  shows "told orch r1" and "schedule_changed sinfo \<or> in_sync (schedule_tables sinfo) r \<Longrightarrow> in_sync (schedule_tables sinfo) r1"
proof -
  note eff = update_marks_effect [OF assms(1), where sinfo = sinfo and online = online, folded r1_def]
  have n: "n \<in> synced_nodes r \<and> up_to_date sinfo r n \<and> last_pushed_tables r1 n = last_pushed_tables r n"
    if "n \<in> synced_nodes r1" for n
    using eff(3) [OF that] eff(4) that by (auto simp: up_to_date_def)
  then show "told orch r1" using assms(2) unfolding told_def by metis
  show "in_sync (schedule_tables sinfo) r1" if "schedule_changed sinfo \<or> in_sync (schedule_tables sinfo) r"
    using n that unfolding in_sync_def up_to_date_def by (metis option.case_eq_if option.collapse)
qed

lemma replay_tables_sync:
  assumes "told orch r" and "registry_exact orch" and "marks_ok r" and "known_connected_nodes r = online"
    and "replay_tables writes now_ns wall tables online r orch = (r', orch')"
  shows "told orch' r' \<and> (in_sync tables r \<longrightarrow> in_sync tables r') \<and> marks_ok r' \<and> known_connected_nodes r' = online
    \<and> (\<exists>cmds. orch' = orch\<lparr>sent := cmds\<rparr>)"
proof (cases "replay_pending r \<and> tables \<noteq> [] \<and> online \<noteq> []")
  case False
  then have "orch' = orch" "r' = r \<or> r' = r\<lparr>warned_no_nodes_for_replay := True\<rparr>"
    using assms(5) by (auto simp: replay_tables_def split: if_splits)
  with assms show ?thesis by (auto simp: told_def in_sync_def marks_ok_def intro: exI [of _ "sent orch"])
next
  case True
  let ?r = "r\<lparr>warned_no_nodes_for_replay := False\<rparr>"
  obtain ok r1 orch1 where p: "push_nodes writes now_ns wall tables online True ?r orch = (ok, r1, orch1)"
    by (metis prod_cases3)
  have "told orch ?r" using assms(1) by (simp add: told_def)
  note e = push_nodes_effect [OF p this assms(2)]
  have "orch' = orch1" "r' = r1 \<or> r' = r1\<lparr>replay_pending := False\<rparr> \<and> list_all (\<lambda>n. n \<in> synced_nodes r1) online"
    using assms(5) True p by (auto simp: replay_tables_def Let_def split: if_splits)
  moreover have "synced_nodes r1 \<subseteq> set online" using e assms(3,4) by (auto simp: marks_ok_def)
  moreover have "in_sync tables (r1\<lparr>replay_pending := False\<rparr>) = in_sync tables r1"
    "told orch1 (r1\<lparr>replay_pending := False\<rparr>) = told orch1 r1" "in_sync tables ?r = in_sync tables r"
    by (simp_all add: in_sync_def told_def)
  ultimately show ?thesis
    using e assms(4) True by (auto simp: marks_ok_def list_all_iff)
qed

section \<open>Runs of the main program\<close>

text \<open>
  All runs: requests to add a workload and to enforce a recovery policy with any result, the streams of
  the nodes, and turns of the loop. A node opens a new stream only after its last one has ended and after
  a turn has seen it gone. The first argument tells whether the loop can know about the present tables:
  a stop and a failed update of an admitted workload change them without announcing it.
\<close>

definition announced :: "bool \<Rightarrow> SchedInfoServiceImpl \<Rightarrow> SchedInfoServiceImpl \<Rightarrow> bool" where
  "announced a sinfo sinfo' \<longleftrightarrow> schedule_changed sinfo' \<or>
     a \<and> (\<forall>n. same_table (table_for (schedule_tables sinfo') n) (table_for (schedule_tables sinfo) n))"

inductive orch_run :: "bool \<Rightarrow> SchedInfoServiceImpl \<times> OrchestratorServiceImpl \<times> replay \<Rightarrow> bool" where
  start: "orch_run True (SchedInfoServiceImpl_init mgr, OrchestratorServiceImpl_init, replay_init)"
| add: "orch_run a (sinfo, orch, r) \<Longrightarrow> AddSchedInfo clk clk' request sinfo = (res, sinfo')
    \<Longrightarrow> orch_run (announced a sinfo sinfo') (sinfo', orch, r)"
| recover: "orch_run a (sinfo, orch, r)
    \<Longrightarrow> EnforceRecoveryPolicy clk writes w policy (sinfo, orch) = (reply, sinfo', orch')
    \<Longrightarrow> orch_run (announced a sinfo sinfo') (sinfo', orch', r)"
| event: "orch_run a (sinfo, orch, r) \<Longrightarrow> stream_node orch sid = []
    \<Longrightarrow> ev_node_id e \<notin> set (known_connected_nodes r)
    \<Longrightarrow> (\<forall>other. ev_node_id e \<noteq> [] \<longrightarrow> stream_node orch other \<noteq> ev_node_id e)
    \<Longrightarrow> orch_run a (sinfo, fst (stream_event rpc sid e (orch, client)), r)"
| later: "orch_run a (sinfo, orch, r) \<Longrightarrow> stream_node orch sid \<noteq> []
    \<Longrightarrow> orch_run a (sinfo, fst (stream_event rpc sid e (orch, client)), r)"
| closed: "orch_run a (sinfo, orch, r) \<Longrightarrow> orch_run a (sinfo, stream_end sid orch, r)"
| turn: "orch_run a (sinfo, orch, r) \<Longrightarrow> orch_run a (replay_iteration writes now_ns wall (sinfo, orch, r))"

lemma replay_iteration_split:
  "replay_iteration writes now_ns wall (sinfo, orch, r) =
     (sinfo\<lparr>schedule_changed := False\<rparr>,
      snd (replay_tables writes now_ns wall (schedule_tables sinfo) (get_connected_node_ids orch)
        (update_marks (schedule_tables sinfo) (schedule_changed sinfo) (get_connected_node_ids orch) r) orch),
      fst (replay_tables writes now_ns wall (schedule_tables sinfo) (get_connected_node_ids orch)
        (update_marks (schedule_tables sinfo) (schedule_changed sinfo) (get_connected_node_ids orch) r) orch))"
  by (simp add: replay_iteration_def GetScheduleTables_def Let_def case_prod_unfold)

lemma AddSchedInfo_flag: "AddSchedInfo clk clk' request st = (res, st') \<Longrightarrow> schedule_changed st \<Longrightarrow> schedule_changed st'"
  by (auto simp: AddSchedInfo_def Let_def RegenerateAllSchedules_def bindE_eq_Inr
      split: option.splits sum.splits if_splits)

lemma AddSchedInfo_announces: "AddSchedInfo clk clk' request st = (0, st') \<Longrightarrow> schedule_changed st'"
  by (auto simp: AddSchedInfo_def Let_def split: option.splits sum.splits if_splits)

lemma RemoveWorkload_flag: "RemoveWorkload clk w trigger_push st = (res, st') \<Longrightarrow> schedule_changed st \<Longrightarrow> schedule_changed st'"
  by (auto simp: RemoveWorkload_def Let_def RegenerateAllSchedules_def bindE_eq_Inr
      split: option.splits sum.splits if_splits)

text \<open>A recovery request never withdraws an announcement and writes no tables.\<close>

lemma EnforceRecoveryPolicy_frame:
  assumes "EnforceRecoveryPolicy clk writes w policy (sinfo, orch) = (reply, sinfo', orch')"
  shows "schedule_changed sinfo \<Longrightarrow> schedule_changed sinfo'"
    and "connected_nodes orch' = connected_nodes orch" and "stream_node orch' = stream_node orch"
    and "last_table sid (sent orch') = last_table sid (sent orch)"
proof -
  have "(schedule_changed sinfo \<longrightarrow> schedule_changed sinfo') \<and> connected_nodes orch' = connected_nodes orch
    \<and> stream_node orch' = stream_node orch \<and> last_table sid (sent orch') = last_table sid (sent orch)"
  proof (cases "policy = RECOVERY_STOP")
    case False
    with assms show ?thesis by (auto simp: EnforceRecoveryPolicy_def)
  next
    case True
    obtain res sinfo1 where rm: "RemoveWorkload clk w False sinfo = (res, sinfo1)" by fastforce
    note flag = RemoveWorkload_flag [OF rm]
    show ?thesis
    proof (cases res)
      case (Inl e)
      with assms True rm flag show ?thesis by (auto simp: EnforceRecoveryPolicy_def)
    next
      case (Inr x)
      with assms True rm flag show ?thesis
        by (cases x) (auto simp: EnforceRecoveryPolicy_def broadcast_effect intro!: last_table_other)
    qed
  qed
  then show "schedule_changed sinfo \<Longrightarrow> schedule_changed sinfo'" "connected_nodes orch' = connected_nodes orch"
    "stream_node orch' = stream_node orch" "last_table sid (sent orch') = last_table sid (sent orch)" by blast+
qed

definition orch_inv :: "bool \<Rightarrow> SchedInfoServiceImpl \<times> OrchestratorServiceImpl \<times> replay \<Rightarrow> bool" where
  "orch_inv a st = (case st of (sinfo, orch, r) \<Rightarrow>
     registry_exact orch \<and> marks_ok r \<and> told orch r \<and> (schedule_changed sinfo \<longrightarrow> a)
     \<and> (a \<and> \<not> schedule_changed sinfo \<longrightarrow> in_sync (schedule_tables sinfo) r))"

lemma orch_inv_service:
  assumes "orch_inv a (sinfo, orch, r)" and "schedule_changed sinfo \<Longrightarrow> schedule_changed sinfo'"
    and "registry_exact orch'" and "told orch' r"
  shows "orch_inv (announced a sinfo sinfo') (sinfo', orch', r)"
proof -
  have "in_sync (schedule_tables sinfo') r" if "announced a sinfo sinfo'" "\<not> schedule_changed sinfo'"
  proof -
    have "in_sync (schedule_tables sinfo) r" using assms(1,2) that by (auto simp: orch_inv_def announced_def)
    with that show ?thesis unfolding in_sync_def announced_def by (metis same_table_trans)
  qed
  with assms show ?thesis by (auto simp: orch_inv_def announced_def)
qed

lemma orch_inv_nodes:
  assumes "orch_inv a (sinfo, orch, r)" and "registry_step orch orch'" and "sent orch' = sent orch"
    and "\<And>n sid. n \<in> synced_nodes r \<Longrightarrow> map_find n (connected_nodes orch') = Some sid
      \<Longrightarrow> map_find n (connected_nodes orch) = Some sid"
  shows "orch_inv a (sinfo, orch', r)"
  using assms(1) registry_exact_step [OF assms(2)] assms(3,4) unfolding orch_inv_def told_def by auto

lemma orch_inv_turn:
  assumes "orch_inv a (sinfo, orch, r)" and "replay_iteration writes now_ns wall (sinfo, orch, r) = (sinfo', orch', r')"
  shows "orch_inv a (sinfo', orch', r') \<and> (a \<longrightarrow> in_sync (schedule_tables sinfo) r')
    \<and> connected_nodes orch' = connected_nodes orch"
proof -
  let ?online = "get_connected_node_ids orch" and ?tables = "schedule_tables sinfo"
  let ?r1 = "update_marks ?tables (schedule_changed sinfo) ?online r"
  have inv: "registry_exact orch" "marks_ok r" "told orch r" "schedule_changed sinfo \<longrightarrow> a"
    "a \<and> \<not> schedule_changed sinfo \<longrightarrow> in_sync ?tables r"
    using assms(1) by (auto simp: orch_inv_def)
  note u = update_marks_effect [OF inv(2), where sinfo = sinfo and online = ?online]
    and v = update_marks_sync [OF inv(2,3), where sinfo = sinfo and online = ?online]
  obtain r2 orch2 where t: "replay_tables writes now_ns wall ?tables ?online ?r1 orch = (r2, orch2)" by fastforce
  note w = replay_tables_sync [OF v(1) inv(1) u(1,2) t]
  have "sinfo' = sinfo\<lparr>schedule_changed := False\<rparr>" "orch' = orch2" "r' = r2"
    using assms(2) t by (auto simp: replay_iteration_split)
  with w v(2) inv show ?thesis by (auto simp: orch_inv_def)
qed

lemma orch_run_inv: "orch_run a st \<Longrightarrow> orch_inv a st"
proof (induction rule: orch_run.induct)
  case (start mgr)
  show ?case
    by (simp add: orch_inv_def registry_exact_def OrchestratorServiceImpl_init_def marks_ok_def told_def in_sync_def
        replay_init_def) blast
next
  case (add a sinfo orch r clk clk' request res sinfo')
  then show ?case using AddSchedInfo_flag [OF add(2)] by (intro orch_inv_service) (auto simp: orch_inv_def)
next
  case (recover a sinfo orch r clk writes w policy reply sinfo' orch')
  note frame = EnforceRecoveryPolicy_frame [OF recover(2)]
  have "told orch' r = told orch r" "registry_exact orch' = registry_exact orch"
    using frame(2-4) by (simp_all add: told_def registry_exact_def)
  with recover frame(1) show ?case by (intro orch_inv_service) (auto simp: orch_inv_def)
next
  case (event a sinfo orch r sid e rpc client)
  have "synced_nodes r \<subseteq> set (known_connected_nodes r)" "map_ok (connected_nodes orch)"
    using event.IH by (auto simp: orch_inv_def marks_ok_def registry_exact_def)
  with event show ?case
    by (intro orch_inv_nodes [OF event.IH registry_step.event]) (auto simp: stream_event_frame map_find_put split: if_splits)
next
  case (later a sinfo orch r sid rpc e client)
  then show ?case by (simp add: stream_event_frame)
next
  case (closed a sinfo orch r sid)
  show ?case
    by (rule orch_inv_nodes [OF closed.IH registry_step.closed])
      (auto simp: stream_end_def map_find_erase split: if_splits)
next
  case (turn a sinfo orch r writes now_ns wall)
  then show ?case using orch_inv_turn [OF turn.IH] by (metis prod_cases3)
qed


section \<open>A turn without failures\<close>

lemma push_nodes_all:
  assumes "\<forall>n\<in>set ns. \<exists>sid. map_find n (connected_nodes orch) = Some sid \<and> writes sid"
    and "\<forall>n\<in>set ns. n \<in> synced_nodes r \<or> due now_ns r n" and "distinct ns"
  shows "\<exists>r' orch'. push_nodes writes now_ns wall tables ns ok r orch = (ok, r', orch')
    \<and> synced_nodes r' = synced_nodes r \<union> set ns
    \<and> sent orch' = sent orch @ map (\<lambda>n. (the (map_find n (connected_nodes orch)), Full_table (table_to_push wall tables n)))
        (filter (\<lambda>n. n \<notin> synced_nodes r) ns)"
  using assms
proof (induction ns arbitrary: r orch)
  case (Cons n ns)
  show ?case
  proof (cases "n \<in> synced_nodes r")
    case True
    then have "\<not> due now_ns r n" by (simp add: due_def)
    with Cons.IH [of orch r] Cons.prems True show ?thesis by (auto simp: insert_absorb)
  next
    case False
    let ?t = "table_to_push wall tables n"
    obtain sid where sid: "map_find n (connected_nodes orch) = Some sid" "writes sid" using Cons.prems(1) by auto
    let ?orch = "orch\<lparr>sent := sent orch @ [(sid, Full_table ?t)]\<rparr>"
    have push: "push_full_table writes n ?t orch = (True, ?orch)"
      using sid by (simp add: push_full_table_def write_command_def)
    have "\<forall>m\<in>set ns. m \<in> synced_nodes (pushed n ?t r) \<or> due now_ns (pushed n ?t r) m"
      using Cons.prems(2,3) by (auto simp: due_def)
    moreover have "filter (\<lambda>m. m \<noteq> n \<and> m \<notin> synced_nodes r) ns = filter (\<lambda>m. m \<notin> synced_nodes r) ns"
      using Cons.prems(3) by (intro filter_cong) auto
    ultimately show ?thesis
      using Cons.IH [of ?orch "pushed n ?t r"] Cons.prems False push sid by (simp add: Let_def)
  qed
qed simp

lemma update_marks_retry:
  assumes "next_retry_time (update_marks tables changed online r) n = Some t"
  shows "next_retry_time r n = Some t"
proof -
  have "next_retry_time (note_connected online (drop_disconnected online r)) n = Some t"
  proof (cases "tables = []")
    case True
    with assms show ?thesis by (simp add: update_marks_def Let_def mark_changed_def split: if_splits)
  next
    case False
    with assms show ?thesis by (auto simp: update_marks_def Let_def mark_changed_effect split: if_splits)
  qed
  then show ?thesis by (auto simp: drop_disconnected_effect note_connected_effect split: if_splits)
qed

lemma registry_names:
  assumes "map_ok m"
  shows "map (\<lambda>n. (the (map_find n m), g n)) (filter P (map fst m)) = map (\<lambda>e. (snd e, g (fst e))) (filter (\<lambda>e. P (fst e)) m)"
proof -
  have "the (map_find (fst e) m) = snd e" if "e \<in> set m" for e
    using that map_find_iff [OF assms, of "fst e" "snd e"] by simp
  then show ?thesis by (simp add: filter_map comp_def)
qed

lemma replay_tables_all:
  assumes "replay_pending r \<longrightarrow> online \<noteq> []" and "tables \<noteq> []" and "marks_ok r" and "known_connected_nodes r = online"
    and "\<forall>n\<in>set online. \<exists>sid. map_find n (connected_nodes orch) = Some sid \<and> writes sid"
    and "\<forall>n t. next_retry_time r n = Some t \<longrightarrow> t \<le> now_ns" and "distinct online"
    and "replay_tables writes now_ns wall tables online r orch = (r', orch')"
  shows "synced_nodes r' = set online \<and> \<not> replay_pending r'
    \<and> sent orch' = sent orch @ map (\<lambda>n. (the (map_find n (connected_nodes orch)), Full_table (table_to_push wall tables n)))
        (filter (\<lambda>n. n \<notin> synced_nodes r) online)"
proof (cases "replay_pending r")
  case False
  with assms(3,4) have "synced_nodes r = set online" by (auto simp: marks_ok_def)
  with False assms(8) show ?thesis by (simp add: replay_tables_def)
next
  case True
  let ?r = "r\<lparr>warned_no_nodes_for_replay := False\<rparr>"
  have "\<forall>n\<in>set online. n \<in> synced_nodes ?r \<or> due now_ns ?r n"
    using assms(6) by (auto simp: due_def not_less split: option.split)
  from push_nodes_all [OF assms(5) this assms(7), of wall tables True] obtain r1 orch1 where
    p: "push_nodes writes now_ns wall tables online True ?r orch = (True, r1, orch1)"
    "synced_nodes r1 = synced_nodes r \<union> set online"
    "sent orch1 = sent orch @ map (\<lambda>n. (the (map_find n (connected_nodes orch)), Full_table (table_to_push wall tables n)))
        (filter (\<lambda>n. n \<notin> synced_nodes r) online)" by auto
  moreover have "synced_nodes r \<subseteq> set online" using assms(3,4) by (simp add: marks_ok_def)
  ultimately show ?thesis
    using True assms(1,2,8) by (auto simp: replay_tables_def list_all_iff)
qed

lemma replay_turn_effect:
  assumes run: "orch_run a (sinfo, orch, r)"
    and nodes: "connected_nodes orch \<noteq> []" and tables: "schedule_tables sinfo \<noteq> []"
    and writable: "\<forall>e\<in>set (connected_nodes orch). writes (snd e)"
    and retry: "\<forall>n t. next_retry_time r n = Some t \<longrightarrow> t \<le> now_ns"
    and turn: "replay_iteration writes now_ns wall (sinfo, orch, r) = (sinfo', orch', r')"
  shows "synced_nodes r' = set (get_connected_node_ids orch) \<and> \<not> replay_pending r' \<and> \<not> schedule_changed sinfo'
    \<and> sent orch' = sent orch @ map (\<lambda>e. (snd e, Full_table (table_to_push wall (schedule_tables sinfo) (fst e))))
        (filter (\<lambda>e. \<not> up_to_date sinfo r (fst e)) (connected_nodes orch))
    \<and> (\<forall>n sid. map_find n (connected_nodes orch) = Some sid \<longrightarrow> (\<exists>t. last_table sid (sent orch') = Some t
        \<and> (a \<longrightarrow> same_table (table_for (schedule_tables sinfo) n) t)))"
proof -
  let ?online = "get_connected_node_ids orch" and ?tables = "schedule_tables sinfo"
  let ?r1 = "update_marks ?tables (schedule_changed sinfo) ?online r"
  have inv: "orch_inv a (sinfo, orch, r)" by (rule orch_run_inv [OF run])
  then have ok: "map_ok (connected_nodes orch)" and mk: "marks_ok r" by (auto simp: orch_inv_def registry_exact_def)
  note u = update_marks_effect [OF mk, where sinfo = sinfo and online = ?online]
  obtain r2 orch2 where t: "replay_tables writes now_ns wall ?tables ?online ?r1 orch = (r2, orch2)" by fastforce
  have streams: "\<forall>n\<in>set ?online. \<exists>sid. map_find n (connected_nodes orch) = Some sid \<and> writes sid"
    using writable ok by (fastforce simp: get_connected_node_ids_def map_find_iff)
  have "distinct ?online"
    using ok by (auto simp: map_ok_def get_connected_node_ids_def strict_sorted_iff)
  moreover have "\<forall>n t. next_retry_time ?r1 n = Some t \<longrightarrow> t \<le> now_ns" using retry update_marks_retry by blast
  moreover have "?online \<noteq> []" using nodes by (simp add: get_connected_node_ids_def)
  ultimately have e: "synced_nodes r2 = set ?online \<and> \<not> replay_pending r2
    \<and> sent orch2 = sent orch @ map (\<lambda>n. (the (map_find n (connected_nodes orch)), Full_table (table_to_push wall ?tables n)))
        (filter (\<lambda>n. n \<notin> synced_nodes ?r1) ?online)"
    using replay_tables_all [OF _ tables u(1,2) streams _ _ t] by blast
  have "filter (\<lambda>n. n \<notin> synced_nodes ?r1) ?online = filter (\<lambda>n. \<not> up_to_date sinfo r n) ?online"
    unfolding u(5) [OF tables] by (rule filter_cong) auto
  with e turn t registry_names [OF ok] have main: "synced_nodes r' = set ?online" "\<not> replay_pending r'"
    "\<not> schedule_changed sinfo'"
    "sent orch' = sent orch @ map (\<lambda>e. (snd e, Full_table (table_to_push wall ?tables (fst e))))
        (filter (\<lambda>e. \<not> up_to_date sinfo r (fst e)) (connected_nodes orch))"
    by (auto simp: replay_iteration_split get_connected_node_ids_def)
  note after = orch_inv_turn [OF inv turn]
  have "\<exists>t. last_table sid (sent orch') = Some t \<and> (a \<longrightarrow> same_table (table_for ?tables n) t)"
    if n: "map_find n (connected_nodes orch) = Some sid" for n sid
  proof -
    have "n \<in> synced_nodes r'"
      using map_find_mem [OF n] by (force simp: main(1) get_connected_node_ids_def)
    then obtain t where t: "last_pushed_tables r' n = Some t" "last_table sid (sent orch') = Some t"
      using after n unfolding orch_inv_def told_def by auto
    with after \<open>n \<in> synced_nodes r'\<close> show ?thesis unfolding in_sync_def by fastforce
  qed
  with main show ?thesis by blast
qed


section \<open>Waiting times\<close>

lemma retry_delay_min: "1 \<le> f \<Longrightarrow> retry_delay f = min (500 * 2 ^ nat (f - 1)) 8000"
proof (cases "f \<le> 5")
  case True
  assume "1 \<le> f"
  with True have "f = 1 \<or> f = 2 \<or> f = 3 \<or> f = 4 \<or> f = 5" by presburger
  then show ?thesis
    by (auto simp: retry_delay_def kRetryBaseDelay_def kRetryMaxDelay_def kRetryBackoffMaxShift_def)
next
  case False
  then have "(2::int) ^ 4 \<le> 2 ^ nat (f - 1)" by (intro power_increasing) auto
  with False show ?thesis
    by (simp add: retry_delay_def kRetryBaseDelay_def kRetryMaxDelay_def kRetryBackoffMaxShift_def)
qed

definition backed_off :: "int \<Rightarrow> replay \<Rightarrow> replay \<Rightarrow> string \<Rightarrow> bool" where
  "backed_off now_ns r r' n \<longleftrightarrow>
     (next_retry_time r' n = next_retry_time r n \<and> replay_failures r' n = replay_failures r n)
     \<or> (next_retry_time r' n = None \<and> replay_failures r' n = None)
     \<or> (let f = (case replay_failures r n of Some f \<Rightarrow> f | None \<Rightarrow> 0) + 1
        in replay_failures r' n = Some f \<and> next_retry_time r' n = Some (now_ns + 1000000 * retry_delay f))"

lemma push_nodes_other:
  "\<lbrakk>push_nodes writes now_ns wall tables ns ok r orch = (ok', r', orch'); n \<notin> set ns\<rbrakk>
    \<Longrightarrow> next_retry_time r' n = next_retry_time r n \<and> replay_failures r' n = replay_failures r n"
proof (induction ns arbitrary: ok r orch)
  case (Cons m ns)
  then show ?case
    by (auto simp: Let_def pushed_def push_failed_def split: if_splits prod.splits)
qed simp

lemma push_nodes_backed_off:
  "\<lbrakk>push_nodes writes now_ns wall tables ns ok r orch = (ok', r', orch'); distinct ns\<rbrakk> \<Longrightarrow> backed_off now_ns r r' n"
proof (induction ns arbitrary: ok r orch)
  case (Cons m ns)
  show ?case
  proof (cases "due now_ns r m")
    case False
    with Cons show ?thesis by simp
  next
    case True
    let ?t = "table_to_push wall tables m"
    obtain sent_ok orch1 where p: "push_full_table writes m ?t orch = (sent_ok, orch1)" by fastforce
    define r1 where "r1 = (if sent_ok then pushed m ?t r else push_failed now_ns m r)"
    have step: "\<exists>ok1. push_nodes writes now_ns wall tables ns ok1 r1 orch1 = (ok', r', orch')"
      using Cons.prems(1) True p by (cases sent_ok) (auto simp: Let_def r1_def)
    show ?thesis
    proof (cases "n = m")
      case True
      with step Cons.prems(2) push_nodes_other [of writes now_ns wall tables ns _ r1 orch1 ok' r' orch' n]
      have "next_retry_time r' n = next_retry_time r1 n" "replay_failures r' n = replay_failures r1 n" by auto
      moreover have "backed_off now_ns r r1 n"
        using True by (simp add: backed_off_def r1_def pushed_def push_failed_def Let_def)
      ultimately show ?thesis by (simp add: backed_off_def)
    next
      case False
      then have "next_retry_time r1 n = next_retry_time r n" "replay_failures r1 n = replay_failures r n"
        by (simp_all add: r1_def pushed_def push_failed_def Let_def)
      moreover have "backed_off now_ns r1 r' n" using step Cons.IH Cons.prems(2) by auto
      ultimately show ?thesis by (simp add: backed_off_def)
    qed
  qed
qed (simp add: backed_off_def)

definition kept_or_cleared :: "replay \<Rightarrow> string \<Rightarrow> replay \<Rightarrow> bool" where
  "kept_or_cleared r n r' \<longleftrightarrow>
     (next_retry_time r' n = next_retry_time r n \<and> replay_failures r' n = replay_failures r n)
     \<or> (next_retry_time r' n = None \<and> replay_failures r' n = None)"

lemma kept_or_cleared_intros:
  "kept_or_cleared r n r"
  "kept_or_cleared r n r' \<Longrightarrow> kept_or_cleared r n (forget_node m r')"
  "kept_or_cleared r n r' \<Longrightarrow> kept_or_cleared r n (forget_table m r')"
  "kept_or_cleared r n r' \<Longrightarrow> kept_or_cleared r n (r'\<lparr>replay_pending := b\<rparr>)"
  "kept_or_cleared r n r' \<Longrightarrow> kept_or_cleared r n (r'\<lparr>known_connected_nodes := ns\<rparr>)"
  by (auto simp: kept_or_cleared_def forget_node_def forget_table_def)

lemma foldl_preserves: "P a \<Longrightarrow> (\<And>b x. P b \<Longrightarrow> P (f b x)) \<Longrightarrow> P (foldl f a xs)"
  by (induction xs arbitrary: a) simp_all

lemma marks_failures: "kept_or_cleared r n (update_marks tables changed online r)"
proof -
  note intros = kept_or_cleared_intros
  let ?r0 = "drop_disconnected online r"
  have "kept_or_cleared r n ?r0"
    unfolding drop_disconnected_def by (rule foldl_preserves) (simp_all add: intros)
  then have r1: "kept_or_cleared r n (note_connected online ?r0)"
    unfolding note_connected_def
    by (intro intros(5) foldl_preserves [where P = "kept_or_cleared r n"]) (simp_all add: intros)
  have "kept_or_cleared r n (mark_changed tables online (note_connected online ?r0))"
  proof (cases "tables = []")
    case True
    then show ?thesis by (simp add: mark_changed_def kept_or_cleared_def)
  next
    case False
    then have m: "mark_changed tables online r' = foldl (\<lambda>r n. if node_table_changed tables r n
        then (forget_node n r)\<lparr>replay_pending := True\<rparr> else r) r' online" for r' by (simp add: mark_changed_def)
    show ?thesis
      unfolding m using r1 by (intro foldl_preserves [where P = "kept_or_cleared r n"]) (simp_all add: intros)
  qed
  with r1 show ?thesis by (simp add: update_marks_def Let_def)
qed

text \<open>Failed writes are retried with bounded pauses. In one turn of the loop, what is recorded for a node
  either stays, or is cleared, or counts a failure: one more than before, or the first one of a new table
  or connection. Then the next attempt is due after a pause of half a second that doubles with every
  failure in a row up to eight seconds.\<close>

theorem retry_backoff:
  assumes "map_ok (connected_nodes orch)" and "replay_iteration writes now_ns wall (sinfo, orch, r) = (sinfo', orch', r')"
    and "\<forall>f. replay_failures r n = Some f \<longrightarrow> 1 \<le> f"
  shows "next_retry_time r' n = next_retry_time r n \<and> replay_failures r' n = replay_failures r n
    \<or> next_retry_time r' n = None \<and> replay_failures r' n = None
    \<or> (\<exists>f. (f = 1 \<or> f = (case replay_failures r n of Some f \<Rightarrow> f | None \<Rightarrow> 0) + 1) \<and> replay_failures r' n = Some f
        \<and> next_retry_time r' n = Some (now_ns + 1000000 * min (500 * 2 ^ nat (f - 1)) 8000))"
proof -
  let ?online = "get_connected_node_ids orch" and ?tables = "schedule_tables sinfo"
  define r1 where "r1 = update_marks ?tables (schedule_changed sinfo) ?online r"
  have k: "kept_or_cleared r n r1" unfolding r1_def by (rule marks_failures)
  have d: "distinct ?online" using assms(1) by (auto simp: map_ok_def get_connected_node_ids_def strict_sorted_iff)
  obtain r2 orch2 where t: "replay_tables writes now_ns wall ?tables ?online r1 orch = (r2, orch2)" by fastforce
  have r': "r' = r2" using assms(2) t by (simp add: replay_iteration_split r1_def)
  have "backed_off now_ns r1 r2 n"
  proof (cases "replay_pending r1 \<and> ?tables \<noteq> [] \<and> ?online \<noteq> []")
    case False
    with t show ?thesis by (auto simp: replay_tables_def backed_off_def split: if_splits)
  next
    case True
    let ?r = "r1\<lparr>warned_no_nodes_for_replay := False\<rparr>"
    obtain ok r3 orch3 where p: "push_nodes writes now_ns wall ?tables ?online True ?r orch = (ok, r3, orch3)"
      by (metis prod_cases3)
    have "r2 = r3 \<or> r2 = r3\<lparr>replay_pending := False\<rparr>"
      using True t p by (auto simp: replay_tables_def split: if_splits)
    with push_nodes_backed_off [OF p d, of n] show ?thesis by (auto simp: backed_off_def)
  qed
  moreover have f1: "1 \<le> f1 \<and> (f1 = 1 \<or> f1 = (case replay_failures r n of Some f \<Rightarrow> f | None \<Rightarrow> 0) + 1)"
    if "f1 = (case replay_failures r1 n of Some f \<Rightarrow> f | None \<Rightarrow> 0) + 1" for f1
  proof (cases "replay_failures r n")
    case None
    then have "replay_failures r1 n = None" using k by (auto simp: kept_or_cleared_def)
    with that None show ?thesis by simp
  next
    case (Some f)
    then have "replay_failures r1 n = None \<or> replay_failures r1 n = Some f" using k by (auto simp: kept_or_cleared_def)
    with that Some assms(3) show ?thesis by auto
  qed
  ultimately consider "next_retry_time r2 n = next_retry_time r1 n \<and> replay_failures r2 n = replay_failures r1 n"
    | "next_retry_time r2 n = None \<and> replay_failures r2 n = None"
    | f where "f = (case replay_failures r1 n of Some f \<Rightarrow> f | None \<Rightarrow> 0) + 1"
      "replay_failures r2 n = Some f" "next_retry_time r2 n = Some (now_ns + 1000000 * retry_delay f)"
    unfolding backed_off_def Let_def by blast
  then show ?thesis
  proof cases
    case 1
    with k show ?thesis unfolding kept_or_cleared_def r' by (elim disjE) simp_all
  next
    case 2
    then show ?thesis unfolding r' by blast
  next
    case (3 f)
    with f1 [OF 3(1)] retry_delay_min [of f] show ?thesis unfolding r' by auto
  qed
qed

section \<open>Witnesses\<close>

definition demo_turn :: "(nat \<Rightarrow> bool) \<Rightarrow> SchedInfoServiceImpl \<times> OrchestratorServiceImpl \<times> replay" where
  "demo_turn writes = replay_iteration writes 0 (\<lambda>_. 9) (demo_service, demo_orch, replay_init)"

lemma demo_before_run: "orch_run True (demo_service, demo_orch, replay_init)"
proof -
  have add: "AddSchedInfo (\<lambda>_. 5) (\<lambda>_. 6) demo_request (SchedInfoServiceImpl_init None) = (0, demo_service)"
    using demo_request_admitted unfolding demo_service_def by (metis prod.collapse)
  have "announced True (SchedInfoServiceImpl_init None) demo_service"
    using AddSchedInfo_announces [OF add] by (simp add: announced_def)
  with orch_run.add [OF orch_run.start add] have "orch_run True (demo_service, OrchestratorServiceImpl_init, replay_init)"
    by simp
  then show ?thesis
    unfolding demo_orch_def
    by (rule orch_run.event) (auto simp: OrchestratorServiceImpl_init_def replay_init_def demo_hello_def)
qed

lemma demo_turn_eval:
  "snd (snd (demo_turn writes)) =
     (let t = table_to_push (\<lambda>_. 9) (schedule_tables demo_service) ''n1'';
          r = replay_init\<lparr>replay_pending := True, known_connected_nodes := [''n1'']\<rparr>
      in if writes 7 then (pushed ''n1'' t r)\<lparr>replay_pending := False\<rparr> else push_failed 0 ''n1'' r)"
proof -
  have tables: "schedule_tables demo_service \<noteq> []" using demo_service_table by auto
  have "drop_disconnected [''n1''] replay_init = replay_init"
    by (simp add: drop_disconnected_def replay_init_def)
  moreover have "note_connected [''n1''] replay_init = replay_init\<lparr>replay_pending := True, known_connected_nodes := [''n1'']\<rparr>"
    by (simp add: note_connected_def replay_init_def forget_node_def forget_table_def)
  ultimately have "update_marks (schedule_tables demo_service) ch [''n1''] replay_init =
      replay_init\<lparr>replay_pending := True, known_connected_nodes := [''n1'']\<rparr>" for ch
    using tables by (simp add: update_marks_def Let_def mark_changed_def replay_init_def forget_node_def)
  then show ?thesis
    using tables
    by (simp add: demo_turn_def replay_iteration_split demo_orch_simps get_connected_node_ids_def replay_tables_def
        due_def push_full_table_def map_find_def write_command_def Let_def)
      (simp add: replay_init_def pushed_def push_failed_def Let_def)
qed

lemma demo_turn_synced: "synced_nodes (snd (snd (demo_turn (\<lambda>_. True)))) = {''n1''}"
  by (simp add: demo_turn_eval Let_def replay_init_def)

lemma demo_turn_failed: "next_retry_time (snd (snd (demo_turn (\<lambda>_. False)))) ''n1'' = Some 500000000"
  by (simp add: demo_turn_eval push_failed_def replay_init_def retry_delay_def kRetryBaseDelay_def kRetryMaxDelay_def
      kRetryBackoffMaxShift_def Let_def)



theorem retry_backoff_witness:
  "replay_failures (snd (snd (demo_turn (\<lambda>_. False)))) ''n1'' = Some 1
    \<and> next_retry_time (snd (snd (demo_turn (\<lambda>_. False)))) ''n1'' = Some 500000000"
proof -
  have "replay_iteration (\<lambda>_. False) 0 (\<lambda>_. 9) (demo_service, demo_orch, replay_init) =
      (fst (demo_turn (\<lambda>_. False)), fst (snd (demo_turn (\<lambda>_. False))), snd (snd (demo_turn (\<lambda>_. False))))"
    by (simp add: demo_turn_def)
  from retry_backoff [OF _ this, of "''n1''"] demo_turn_failed show ?thesis
    by (auto simp: demo_orch_simps map_ok_def replay_init_def)
qed

text \<open>
  A node that comes back on a new stream between two turns is not served. As long as the names of the
  connected nodes and the tables stay the same and nothing is pending, a turn writes nothing, whatever
  streams the names now stand for.
\<close>

theorem reconnect_between_turns_unserved:
  assumes "get_connected_node_ids orch = known_connected_nodes r" and "\<not> replay_pending r" and "\<not> schedule_changed sinfo"
  shows "sent (fst (snd (replay_iteration writes now_ns wall (sinfo, orch, r)))) = sent orch"
proof -
  have "\<not> replay_pending (update_marks (schedule_tables sinfo) (schedule_changed sinfo) (get_connected_node_ids orch) r)"
    using assms by (simp add: update_marks_def Let_def note_connected_effect drop_disconnected_effect)
  then show ?thesis by (simp add: replay_iteration_split replay_tables_def)
qed

end
