(* ===== verification/Node_Client.thy ===== *)
theory Node_Client
  imports Messages Std_Containers Std_String
begin

text \<open>
  The node's end of the stream to the orchestrator, \<open>timpani-n/src/grpc/node_client.cpp\<close>. The events
  written to the stream are kept in order. A session is the list of commands read before the stream
  breaks; what the commands do is the parameter \<open>handle\<close>, which the daemon supplies.
\<close>

section \<open>State and events\<close>

record NodeClient =
  ncl_server_address :: string
  ncl_node_id :: string
  ncl_running :: bool
  ncl_connected :: bool
  ncl_written :: "NodeEvent list"

text \<open>\<open>hostname\<close> is the name \<open>gethostname\<close> gives, or \<open>None\<close> when it fails.\<close>

definition NodeClient_init :: "string \<Rightarrow> string \<Rightarrow> string option \<Rightarrow> NodeClient" where
  "NodeClient_init server_address node_id_override hostname =
     \<lparr>ncl_server_address = server_address,
      ncl_node_id = (if node_id_override \<noteq> [] then node_id_override
                    else case hostname of Some h \<Rightarrow> if h \<noteq> [] then h else ''unknown-node'' | None \<Rightarrow> ''unknown-node''),
      ncl_running = False, ncl_connected = False, ncl_written = []\<rparr>"

definition client_connect :: "NodeClient \<Rightarrow> NodeClient" where
  "client_connect c = c\<lparr>ncl_running := True\<rparr>"

definition client_disconnect :: "NodeClient \<Rightarrow> NodeClient" where
  "client_disconnect c = c\<lparr>ncl_running := False\<rparr>"

definition write_event :: "event \<Rightarrow> NodeClient \<Rightarrow> NodeClient" where
  "write_event e c =
     (if \<not> ncl_connected c then c
      else c\<lparr>ncl_written := ncl_written c @ [\<lparr>ev_node_id = ncl_node_id c, ev_event = e\<rparr>]\<rparr>)"

text \<open>\<open>cpus\<close> and \<open>release\<close> are what the system reports.\<close>

definition send_ready :: "u32 \<Rightarrow> string \<Rightarrow> NodeClient \<Rightarrow> NodeClient" where
  "send_ready cpu_count release =
     write_event (Ready \<lparr>rd_cpu_count = cpu_count, rd_memory_mb = 4096, rd_kernel_version = release,
                         rd_preempt_rt = False, rd_sched_ext = False\<rparr>)"

definition send_status :: "NodeClient \<Rightarrow> NodeClient" where
  "send_status = write_event (Status 1)"

definition send_fault :: "FaultInfo \<Rightarrow> NodeClient \<Rightarrow> NodeClient" where
  "send_fault f = write_event (Fault f)"

definition send_table_applied :: "string \<Rightarrow> bool \<Rightarrow> string \<Rightarrow> NodeClient \<Rightarrow> NodeClient" where
  "send_table_applied tid success error =
     write_event (Applied \<lparr>ta_table_id = tid, ta_success = success, ta_error = error\<rparr>)"

section \<open>Reconnecting\<close>

text \<open>
  The loop over the sessions of a run. \<open>enter\<close> opens the stream and sends the ready event, \<open>leave\<close> marks
  the connection as lost. After the last session the client is no longer running. The second result
  holds the pauses in seconds.
\<close>

fun reconnect_loop ::
  "(ControlCommand \<Rightarrow> 's \<Rightarrow> 's) \<Rightarrow> ('s \<Rightarrow> 's) \<Rightarrow> ('s \<Rightarrow> 's) \<Rightarrow> ControlCommand list list \<Rightarrow> int \<Rightarrow> 's \<Rightarrow> 's \<times> int list" where
  "reconnect_loop handle enter leave [] backoff s = (s, [])"
| "reconnect_loop handle enter leave (commands # sessions) backoff s =
     (let s' = leave (foldl (\<lambda>s c. handle c s) (enter s) commands);
          backoff' = (if commands = [] then backoff else 1)
      in if sessions = [] then (s', [])
         else let (s'', pauses) = reconnect_loop handle enter leave sessions (min (backoff' * 2) 30) s'
              in (s'', backoff' # pauses))"

section \<open>Pauses\<close>

lemma pauses_bounded:
  assumes "1 \<le> backoff" and "backoff \<le> 30"
  shows "\<forall>p\<in>set (snd (reconnect_loop handle enter leave sessions backoff s)). 1 \<le> p \<and> p \<le> 30"
  using assms
proof (induction sessions arbitrary: backoff s)
  case Nil
  then show ?case by simp
next
  case (Cons commands sessions)
  show ?case
    using Cons.IH [of "min (backoff * 2) 30"] Cons.IH [of 2] Cons.prems
    by (auto simp: Let_def split_beta)
qed

lemma pause_after_commands:
  "\<lbrakk>i < length sessions - 1; sessions ! i \<noteq> []\<rbrakk>
    \<Longrightarrow> snd (reconnect_loop handle enter leave sessions backoff s) ! i = 1"
proof (induction sessions arbitrary: backoff s i)
  case Nil
  then show ?case by simp
next
  case (Cons commands sessions)
  then show ?case by (cases i) (auto simp: Let_def split_beta)
qed

text \<open>The client reconnects with bounded pauses. Every pause is between 1 and 30 seconds; after a
  session in which a command arrived the next pause is one second, and each session without a command
  doubles the pause up to the bound. The client handles every command of every session.\<close>

theorem reconnect_pauses:
  "(\<forall>p\<in>set (snd (reconnect_loop handle enter leave sessions 1 s)). 1 \<le> p \<and> p \<le> 30)
    \<and> length (snd (reconnect_loop handle enter leave sessions 1 s)) = length sessions - 1
    \<and> (\<forall>i < length sessions - 1. sessions ! i \<noteq> [] \<longrightarrow> snd (reconnect_loop handle enter leave sessions 1 s) ! i = 1)
    \<and> snd (reconnect_loop handle enter leave (replicate (Suc n) []) 1 s) = map (\<lambda>i. min (2 ^ i) 30) [0..<n]
    \<and> fst (reconnect_loop handle enter leave sessions 1 s)
        = foldl (\<lambda>s commands. leave (foldl (\<lambda>s c. handle c s) (enter s) commands)) s sessions"
proof -
  have len: "length (snd (reconnect_loop handle enter leave sessions b s)) = length sessions - 1" for b s
    by (induction sessions arbitrary: b s) (auto simp: Let_def split_beta Suc_diff_le)
  have st: "fst (reconnect_loop handle enter leave sessions b s)
      = foldl (\<lambda>s commands. leave (foldl (\<lambda>s c. handle c s) (enter s) commands)) s sessions" for b s
    by (induction sessions arbitrary: b s) (auto simp: Let_def split_beta)
  have "snd (reconnect_loop handle enter leave (replicate (Suc n) []) (min (2 ^ k) 30) s)
      = map (\<lambda>i. min (2 ^ (k + i)) 30) [0..<n]" for k s
  proof (induction n arbitrary: k s)
    case 0
    then show ?case by simp
  next
    case (Suc n)
    have step: "min (min (2 ^ k) 30 * 2) 30 = (min (2 ^ Suc k) 30 :: int)" by (simp add: min_def)
    have unfold: "snd (reconnect_loop handle enter leave (replicate (Suc (Suc n)) []) b s)
        = b # snd (reconnect_loop handle enter leave (replicate (Suc n) []) (min (b * 2) 30) (leave (enter s)))" for b s
      by (simp add: Let_def split_beta)
    have shift: "map (\<lambda>i. min (2 ^ (k + i)) 30 :: int) [0..<Suc n]
        = min (2 ^ k) 30 # map (\<lambda>i. min (2 ^ (Suc k + i)) 30) [0..<n]"
      by (simp add: upt_conv_Cons map_Suc_upt [symmetric] del: upt_Suc)
    show ?case by (simp only: unfold step Suc.IH shift)
  qed
  from this [of 0] have "snd (reconnect_loop handle enter leave (replicate (Suc n) []) 1 s)
      = map (\<lambda>i. min (2 ^ i) 30) [0..<n]" by simp
  with len st pauses_bounded [of 1 handle enter leave sessions s] show ?thesis
    by (auto intro: pause_after_commands)
qed

theorem reconnect_pauses_witness:
  "let r = reconnect_loop (\<lambda>c n. Suc n) id id [[], [], [No_command], []] 1 (0 :: nat)
   in length (snd r) = 3 \<and> snd r ! 2 = 1 \<and> fst r = 1 \<and> snd r ! 1 \<le> 30"
  using reconnect_pauses [of "\<lambda>c n. Suc n" id id "[[], [], [No_command], []]" "0 :: nat" 0]
  by (simp add: Let_def)

end
