(* ===== verification/Fault_Monitor.thy ===== *)
theory Fault_Monitor
  imports Bpf_Loader Std_Containers
begin

text \<open>
  Two helpers of the node daemon: the fault monitor of \<open>timpani-n/src/fault_monitor.cpp\<close>, which filters
  the kernel's fault events, and the task registry of \<open>timpani-n/src/task_registry.cpp\<close>. The ring buffer
  delivers the events one by one to the callback; a run of the monitor's thread is the list of its rounds,
  with the events each poll delivers. The callback is the list of its calls.
\<close>

section \<open>State\<close>

type_synonym task_key = "u64 \<times> u64"

record FaultMonitor =
  fm_running :: bool
  fm_ringbuf_fd :: int
  fm_callback :: bool
  task_dmiss_counts :: "(task_key, u32) std_map"
  task_current_limits :: "(task_key, u32) std_map"
  workload_reported :: "(u64, bool) std_map"

definition FaultMonitor_init :: FaultMonitor where
  "FaultMonitor_init = \<lparr>fm_running = False, fm_ringbuf_fd = -1, fm_callback = False, task_dmiss_counts = [],
     task_current_limits = [], workload_reported = []\<rparr>"

definition set_ringbuf_fd :: "int \<Rightarrow> FaultMonitor \<Rightarrow> FaultMonitor" where
  "set_ringbuf_fd fd fm = fm\<lparr>fm_ringbuf_fd := fd\<rparr>"

definition set_callback :: "FaultMonitor \<Rightarrow> FaultMonitor" where
  "set_callback fm = fm\<lparr>fm_callback := True\<rparr>"

definition fault_start :: "FaultMonitor \<Rightarrow> FaultMonitor" where
  "fault_start fm = fm\<lparr>fm_running := True\<rparr>"

definition fault_stop :: "FaultMonitor \<Rightarrow> FaultMonitor" where
  "fault_stop fm = fm\<lparr>fm_running := False\<rparr>"

definition update_current_limits :: "(task_key, u32) std_map \<Rightarrow> FaultMonitor \<Rightarrow> FaultMonitor" where
  "update_current_limits limits fm = fm\<lparr>task_current_limits := limits\<rparr>"

definition clear_state :: "FaultMonitor \<Rightarrow> FaultMonitor" where
  "clear_state fm = fm\<lparr>task_dmiss_counts := [], task_current_limits := [], workload_reported := []\<rparr>"

section \<open>Events\<close>

definition dmiss_key :: "FaultEvent \<Rightarrow> task_key" where
  "dmiss_key event = (fe_workload_id_hash event, fe_task_id_hash event)"

text \<open>The state after the event, and the call of the callback if there is one.\<close>

definition ring_buf_callback :: "FaultEvent \<Rightarrow> FaultMonitor \<Rightarrow> FaultMonitor \<times> (FaultEvent \<times> u32) option" where
  "ring_buf_callback event fm =
     (let report = (\<lambda>fm n. (fm, if fm_callback fm then Some (event, n) else None)) in
      if fe_fault_type event = FAULT_DMISS
      then let key = dmiss_key event;
               counts = map_modify 0 (\<lambda>n. n + 1) key (task_dmiss_counts fm);
               current_dmiss = map_at 0 key counts;
               fm1 = fm\<lparr>task_dmiss_counts := counts\<rparr>
           in case map_find key (task_current_limits fm1) of
                None \<Rightarrow> (fm1, None)
              | Some current_limit \<Rightarrow>
                  if 0 < current_limit \<and> current_limit < current_dmiss
                     \<and> \<not> map_at False (fe_workload_id_hash event) (workload_reported fm1)
                  then report (fm1\<lparr>workload_reported :=
                                 map_put (fe_workload_id_hash event) True (workload_reported fm1)\<rparr>) current_dmiss
                  else (fm1, None)
      else report fm 0)"

text \<open>One call of \<open>ring_buffer__poll\<close>, which hands the events that have arrived to the callback.\<close>

fun ring_buffer_poll :: "FaultEvent list \<Rightarrow> FaultMonitor \<Rightarrow> FaultMonitor \<times> (FaultEvent \<times> u32) list" where
  "ring_buffer_poll [] fm = (fm, [])"
| "ring_buffer_poll (event # events) fm =
     (let (fm1, call) = ring_buf_callback event fm;
          (fm2, calls) = ring_buffer_poll events fm1
      in (fm2, (case call of None \<Rightarrow> [] | Some c \<Rightarrow> [c]) @ calls))"

text \<open>
  The rounds of the loop. A round says whether \<open>stop\<close> has been called before the flag is tested, and
  which events its poll delivers.
\<close>

fun poll_rounds :: "(bool \<times> FaultEvent list) list \<Rightarrow> FaultMonitor \<Rightarrow> FaultMonitor \<times> (FaultEvent \<times> u32) list" where
  "poll_rounds [] fm = (fm, [])"
| "poll_rounds ((stopped, events) # rounds) fm =
     (let fm0 = (if stopped then fault_stop fm else fm)
      in if fm_running fm0
         then let (fm1, calls1) = ring_buffer_poll events fm0;
                  (fm2, calls2) = poll_rounds rounds fm1
              in (fm2, calls1 @ calls2)
         else (fm0, []))"

text \<open>The whole thread. \<open>rb\<close> tells whether \<open>ring_buffer__new\<close> gives a buffer for the descriptor.\<close>

definition poll_loop ::
  "(int \<Rightarrow> bool) \<Rightarrow> (bool \<times> FaultEvent list) list \<Rightarrow> FaultMonitor \<Rightarrow> FaultMonitor \<times> (FaultEvent \<times> u32) list" where
  "poll_loop rb rounds fm =
     (if fm_ringbuf_fd fm < 0 then (fm, [])
      else if \<not> rb (fm_ringbuf_fd fm) then (fm, [])
      else poll_rounds rounds fm)"

section \<open>The registry\<close>

text \<open>
  A cgroup directory as the scan sees it: its inode if \<open>stat\<close> succeeds and the processes if
  \<open>cgroup.procs\<close> opens. \<open>threads\<close> is the directory \<open>/proc/<pid>/task\<close>: the names of its entries with the
  first word of their \<open>comm\<close>.
\<close>

record cgroup_dir =
  cg_inode :: "u64 option"
  cg_procs :: "int list option"

definition register_task :: "string \<Rightarrow> u64 \<Rightarrow> (string, u64) std_map \<Rightarrow> (string, u64) std_map" where
  "register_task comm task_id expected = map_put comm task_id expected"

fun register_threads ::
  "(string, u64) std_map \<Rightarrow> u64 \<Rightarrow> (u32 \<Rightarrow> bool) \<Rightarrow> (string \<times> string option) list \<Rightarrow> BpfLoader \<Rightarrow> std_exn + BpfLoader" where
  "register_threads expected cgroup_id room [] ld = Inr ld"
| "register_threads expected cgroup_id room ((name, comm) # ts) ld =
     (case Option.bind comm (\<lambda>c. map_find c expected) of
        None \<Rightarrow> register_threads expected cgroup_id room ts ld
      | Some hash \<Rightarrow>
          bindE (stoi name) (\<lambda>tid.
            let meta = \<lparr>tm_workload_id_hash = 0, tm_task_id_hash = hash, tm_assigned_cpu = 0,
                        tm_slot_duration_us = 0, tm_scheduling_type = 0, tm_layer = 0, tm_tt_runnable = 0,
                        tm_activation_ns = 0, tm_cgroup_id = cgroup_id\<rparr>
            in register_threads expected cgroup_id room ts
                 (snd (update_task_meta (room (word_of_int tid)) (word_of_int tid) meta ld))))"

fun register_procs ::
  "(string, u64) std_map \<Rightarrow> u64 \<Rightarrow> (u32 \<Rightarrow> bool) \<Rightarrow> (int \<Rightarrow> (string \<times> string option) list option) \<Rightarrow> int list \<Rightarrow>
     BpfLoader \<Rightarrow> std_exn + BpfLoader" where
  "register_procs expected cgroup_id room threads [] ld = Inr ld"
| "register_procs expected cgroup_id room threads (pid # pids) ld =
     (case threads pid of
        None \<Rightarrow> register_procs expected cgroup_id room threads pids ld
      | Some ts \<Rightarrow> bindE (register_threads expected cgroup_id room ts ld)
                    (register_procs expected cgroup_id room threads pids))"

fun scan_cgroups ::
  "(string, u64) std_map \<Rightarrow> (u32 \<Rightarrow> bool) \<Rightarrow> (int \<Rightarrow> (string \<times> string option) list option) \<Rightarrow> cgroup_dir list \<Rightarrow>
     BpfLoader \<Rightarrow> std_exn + BpfLoader" where
  "scan_cgroups expected room threads [] ld = Inr ld"
| "scan_cgroups expected room threads (dir # dirs) ld =
     (case (cg_inode dir, cg_procs dir) of
        (Some cgroup_id, Some pids) \<Rightarrow>
          bindE (register_procs expected cgroup_id room threads pids ld) (scan_cgroups expected room threads dirs)
      | _ \<Rightarrow> scan_cgroups expected room threads dirs ld)"

section \<open>The threshold\<close>

definition misses :: "task_key \<Rightarrow> FaultEvent list \<Rightarrow> nat" where
  "misses key events = length (filter (\<lambda>e. fe_fault_type e = FAULT_DMISS \<and> dmiss_key e = key) events)"

definition over_limit :: "(task_key, u32) std_map \<Rightarrow> u64 \<Rightarrow> FaultEvent list \<Rightarrow> bool" where
  "over_limit limits w events \<longleftrightarrow>
     (\<exists>t l. map_find (w, t) limits = Some l \<and> 0 < l \<and> unat l < misses (w, t) events)"

lemma ring_buffer_poll_snoc:
  "ring_buffer_poll (events @ [e]) fm =
     (let (fm1, calls) = ring_buffer_poll events fm; (fm2, call) = ring_buf_callback e fm1
      in (fm2, calls @ (case call of None \<Rightarrow> [] | Some c \<Rightarrow> [c])))"
  by (induction events arbitrary: fm) (auto simp: Let_def split_beta)

definition monitor_inv :: "(task_key, u32) std_map \<Rightarrow> FaultEvent list \<Rightarrow> FaultMonitor \<Rightarrow> bool" where
  "monitor_inv limits events fm \<longleftrightarrow> fm_callback fm \<and> task_current_limits fm = limits
     \<and> map_ok (task_dmiss_counts fm) \<and> map_ok (workload_reported fm)
     \<and> (\<forall>key. unat (map_at 0 key (task_dmiss_counts fm)) = misses key events)
     \<and> (\<forall>w. map_at False w (workload_reported fm) \<longleftrightarrow> over_limit limits w events)"

lemma misses_snoc:
  "misses key (events @ [e]) =
     (if fe_fault_type e = FAULT_DMISS \<and> dmiss_key e = key then Suc (misses key events) else misses key events)"
  by (simp add: misses_def)

lemma over_limit_snoc:
  assumes "fe_fault_type e = FAULT_DMISS"
  shows "over_limit limits w (events @ [e]) \<longleftrightarrow> over_limit limits w events \<or>
    w = fe_workload_id_hash e \<and> (\<exists>l. map_find (dmiss_key e) limits = Some l \<and> 0 < l
      \<and> unat l < Suc (misses (dmiss_key e) events))"
proof
  assume "over_limit limits w (events @ [e])"
  then obtain t l where l: "map_find (w, t) limits = Some l" "0 < l" "unat l < misses (w, t) (events @ [e])"
    by (auto simp: over_limit_def)
  show "over_limit limits w events \<or> w = fe_workload_id_hash e \<and>
      (\<exists>l. map_find (dmiss_key e) limits = Some l \<and> 0 < l \<and> unat l < Suc (misses (dmiss_key e) events))"
  proof (cases "dmiss_key e = (w, t)")
    case True
    then have "w = fe_workload_id_hash e" by (simp add: dmiss_key_def)
    with True l assms show ?thesis by (auto simp: misses_snoc)
  next
    case False
    with l show ?thesis by (auto simp: over_limit_def misses_snoc)
  qed
next
  assume "over_limit limits w events \<or> w = fe_workload_id_hash e \<and>
      (\<exists>l. map_find (dmiss_key e) limits = Some l \<and> 0 < l \<and> unat l < Suc (misses (dmiss_key e) events))"
  then show "over_limit limits w (events @ [e])"
  proof
    assume "over_limit limits w events"
    then obtain t l where "map_find (w, t) limits = Some l" "0 < l" "unat l < misses (w, t) events"
      by (auto simp: over_limit_def)
    moreover have "misses (w, t) events \<le> misses (w, t) (events @ [e])" by (simp add: misses_snoc)
    ultimately show ?thesis unfolding over_limit_def by (meson less_le_trans)
  next
    assume a: "w = fe_workload_id_hash e \<and>
      (\<exists>l. map_find (dmiss_key e) limits = Some l \<and> 0 < l \<and> unat l < Suc (misses (dmiss_key e) events))"
    then have "dmiss_key e = (w, fe_task_id_hash e)" by (simp add: dmiss_key_def)
    with a assms show ?thesis
      unfolding over_limit_def by (intro exI [of _ "fe_task_id_hash e"]) (auto simp: misses_snoc)
  qed
qed

lemma over_limit_other:
  "fe_fault_type e \<noteq> FAULT_DMISS \<Longrightarrow> over_limit limits w (events @ [e]) \<longleftrightarrow> over_limit limits w events"
  by (simp add: over_limit_def misses_snoc)

text \<open>What one event does: the counts, the reported workloads and the call.\<close>

lemma ring_buf_callback_step:
  assumes inv: "monitor_inv limits events fm" and short: "Suc (length events) < 2 ^ 32"
  shows "monitor_inv limits (events @ [e]) (fst (ring_buf_callback e fm))"
    and "snd (ring_buf_callback e fm) \<noteq> None \<longleftrightarrow> fe_fault_type e \<noteq> FAULT_DMISS \<or>
      over_limit limits (fe_workload_id_hash e) (events @ [e]) \<and> \<not> over_limit limits (fe_workload_id_hash e) events"
    and "snd (ring_buf_callback e fm) = Some c \<Longrightarrow> fst c = e"
proof -
  let ?k = "dmiss_key e" and ?w = "fe_workload_id_hash e"
  let ?counts = "map_modify 0 (\<lambda>n. n + 1) ?k (task_dmiss_counts fm)"
  let ?l = "\<lambda>l. map_find ?k limits = Some l \<and> 0 < l \<and> unat l < Suc (misses ?k events)"
  have ok: "map_ok (task_dmiss_counts fm)" "map_ok (workload_reported fm)" "task_current_limits fm = limits"
    "fm_callback fm" "\<And>w. map_at False w (workload_reported fm) = over_limit limits w events"
    and cnt: "\<And>key. unat (map_at 0 key (task_dmiss_counts fm)) = misses key events"
    using inv by (auto simp: monitor_inv_def)
  have "misses ?k events \<le> length events" by (simp add: misses_def)
  then have plus: "unat (map_at 0 ?k (task_dmiss_counts fm) + 1) = Suc (misses ?k events)"
    using short cnt by (subst unat_add_small) simp_all
  have find: "map_at 0 key ?counts = (if key = ?k then map_at 0 ?k (task_dmiss_counts fm) + 1
      else map_at 0 key (task_dmiss_counts fm))" for key
    using ok(1) by (simp add: map_at_def map_find_modify)
  have put: "map_at False w (map_put ?w True (workload_reported fm)) \<longleftrightarrow> w = ?w \<or> over_limit limits w events" for w
    using ok(2,5) by (simp add: map_at_def map_find_put)
  have fires: "(\<exists>l. ?l l) \<longleftrightarrow> (\<exists>l. map_find ?k limits = Some l \<and> 0 < l \<and> l < map_at 0 ?k ?counts)"
    using plus by (simp add: find word_less_nat_alt)
  have counts: "fe_fault_type e = FAULT_DMISS \<Longrightarrow> unat (map_at 0 key ?counts) = misses key (events @ [e])" for key
    using plus cnt by (auto simp: find misses_snoc)
  show "snd (ring_buf_callback e fm) = Some c \<Longrightarrow> fst c = e"
    by (auto simp: ring_buf_callback_def Let_def split: if_splits option.splits)
  show "snd (ring_buf_callback e fm) \<noteq> None \<longleftrightarrow> fe_fault_type e \<noteq> FAULT_DMISS \<or>
      over_limit limits ?w (events @ [e]) \<and> \<not> over_limit limits ?w events"
  proof (cases "fe_fault_type e = FAULT_DMISS")
    case True
    then show ?thesis
      using ok fires by (auto simp: ring_buf_callback_def Let_def over_limit_snoc split: option.split)
  next
    case False
    then show ?thesis using ok by (simp add: ring_buf_callback_def)
  qed
  show "monitor_inv limits (events @ [e]) (fst (ring_buf_callback e fm))"
  proof (cases "fe_fault_type e = FAULT_DMISS")
    case False
    then show ?thesis using inv by (simp add: ring_buf_callback_def monitor_inv_def misses_snoc over_limit_other)
  next
    case True
    show ?thesis
    proof (cases "(\<exists>l. ?l l) \<and> \<not> over_limit limits ?w events")
      case fire: True
      then have "fst (ring_buf_callback e fm) = fm\<lparr>task_dmiss_counts := ?counts,
          workload_reported := map_put ?w True (workload_reported fm)\<rparr>"
        using True ok fires by (auto simp: ring_buf_callback_def Let_def)
      then show ?thesis
        using ok put counts [OF True] fire True
        by (simp add: monitor_inv_def map_ok_modify map_ok_put over_limit_snoc) blast
    next
      case quiet: False
      then have "fst (ring_buf_callback e fm) = fm\<lparr>task_dmiss_counts := ?counts\<rparr>"
        using True ok fires by (auto simp: ring_buf_callback_def Let_def split: option.split)
      then show ?thesis
        using ok counts [OF True] quiet True
        by (simp add: monitor_inv_def map_ok_modify over_limit_snoc) blast
    qed
  qed
qed

lemma ring_buffer_poll_reports:
  assumes "length events < 2 ^ 32" and "fm' = update_current_limits limits (clear_state (set_callback fm))"
  shows "length (filter (\<lambda>c. fe_fault_type (fst c) = FAULT_DMISS \<and> fe_workload_id_hash (fst c) = w)
           (snd (ring_buffer_poll events fm'))) = (if over_limit limits w events then 1 else 0)
    \<and> filter (\<lambda>e. fe_fault_type e \<noteq> FAULT_DMISS) (map fst (snd (ring_buffer_poll events fm')))
      = filter (\<lambda>e. fe_fault_type e \<noteq> FAULT_DMISS) events"
proof -
  let ?fm = "update_current_limits limits (clear_state (set_callback fm))"
  let ?D = "\<lambda>c :: FaultEvent \<times> u32. fe_fault_type (fst c) = FAULT_DMISS \<and> fe_workload_id_hash (fst c) = w"
  have "monitor_inv limits events (fst (ring_buffer_poll events ?fm))
    \<and> length (filter ?D (snd (ring_buffer_poll events ?fm))) = (if over_limit limits w events then 1 else 0)
    \<and> filter (\<lambda>e. fe_fault_type e \<noteq> FAULT_DMISS) (map fst (snd (ring_buffer_poll events ?fm)))
      = filter (\<lambda>e. fe_fault_type e \<noteq> FAULT_DMISS) events"
    using assms(1)
  proof (induction events rule: rev_induct)
    case Nil
    then show ?case
      by (simp add: monitor_inv_def update_current_limits_def clear_state_def set_callback_def misses_def
          over_limit_def map_at_def)
  next
    case (snoc e events)
    obtain fm1 calls where p: "ring_buffer_poll events ?fm = (fm1, calls)" by fastforce
    have inv: "monitor_inv limits events fm1" and IH:
      "length (filter ?D calls) = (if over_limit limits w events then 1 else 0)"
      "filter (\<lambda>e. fe_fault_type e \<noteq> FAULT_DMISS) (map fst calls) = filter (\<lambda>e. fe_fault_type e \<noteq> FAULT_DMISS) events"
      using snoc p by auto
    have "Suc (length events) < 2 ^ 32" using snoc.prems by simp
    note step = ring_buf_callback_step [OF inv this, of e]
    have p2: "ring_buffer_poll (events @ [e]) ?fm = (fst (ring_buf_callback e fm1),
        calls @ (case snd (ring_buf_callback e fm1) of None \<Rightarrow> [] | Some c \<Rightarrow> [c]))"
      by (simp add: ring_buffer_poll_snoc p Let_def split_beta)
    show ?case
    proof (cases "snd (ring_buf_callback e fm1)")
      case None
      with step(2) have d: "fe_fault_type e = FAULT_DMISS"
        "over_limit limits (fe_workload_id_hash e) (events @ [e]) \<longrightarrow> over_limit limits (fe_workload_id_hash e) events"
        by auto
      then have "over_limit limits w (events @ [e]) \<longleftrightarrow> over_limit limits w events"
        using over_limit_snoc [OF d(1), of limits] by blast
      with d(1) show ?thesis using step(1) IH by (simp add: p2 None)
    next
      case (Some c)
      have c: "fst c = e" using step(3) Some by simp
      show ?thesis
      proof (cases "fe_fault_type e = FAULT_DMISS")
        case True
        then have "over_limit limits (fe_workload_id_hash e) (events @ [e])"
          "\<not> over_limit limits (fe_workload_id_hash e) events"
          using step(2) Some by auto
        moreover have "over_limit limits w (events @ [e]) \<longleftrightarrow> over_limit limits w events" if "w \<noteq> fe_workload_id_hash e"
          using over_limit_snoc [OF True, of limits w events] that by simp
        ultimately show ?thesis using step(1) IH True c by (auto simp: p2 Some)
      next
        case False
        then show ?thesis using step(1) IH c by (simp add: p2 Some over_limit_other)
      qed
    qed
  qed
  then show ?thesis unfolding assms(2) by blast
qed

lemma ring_buffer_poll_running [simp]: "fm_running (fst (ring_buffer_poll events fm)) = fm_running fm"
proof (induction events arbitrary: fm)
  case (Cons e events)
  have "fm_running (fst (ring_buf_callback e fm)) = fm_running fm"
    by (simp add: ring_buf_callback_def Let_def split: option.split)
  with Cons show ?case by (simp add: Let_def split_beta)
qed simp

lemma ring_buffer_poll_append:
  "snd (ring_buffer_poll (xs @ ys) fm)
    = snd (ring_buffer_poll xs fm) @ snd (ring_buffer_poll ys (fst (ring_buffer_poll xs fm)))"
  by (induction xs arbitrary: fm) (simp_all add: Let_def split_beta)

lemma poll_rounds_until_stop:
  assumes "fm_running fm" and "rest = [] \<or> fst (hd rest)"
  shows "snd (poll_rounds (map (Pair False) polls @ rest) fm) = snd (ring_buffer_poll (concat polls) fm)"
  using assms(1)
proof (induction polls arbitrary: fm)
  case Nil
  then show ?case using assms(2) by (cases rest) (auto simp: fault_stop_def)
next
  case (Cons events polls)
  then show ?case by (simp add: Let_def split_beta ring_buffer_poll_append)
qed

text \<open>C32: The fault monitor reports what its policy says. Take a started monitor with a descriptor from
  which a ring buffer can be made, and a table that has set the limits. Let the polls of its loop deliver
  any events, fewer than \<open>2^32\<close>, until it is stopped. For each workload there is exactly one report of
  deadline misses if some task of it missed more deadlines than its positive limit allows, and none
  otherwise. Every other fault is passed on, in order. After the stop nothing is reported.\<close>

theorem monitor_reports_exactly:
  assumes "length (concat polls) < 2 ^ 32"
    and "0 \<le> fm_ringbuf_fd fm" and "rb (fm_ringbuf_fd fm)" and "fm_running fm"
    and "rest = [] \<or> fst (hd rest)"
    and "calls = snd (poll_loop rb (map (Pair False) polls @ rest)
    (update_current_limits limits (clear_state (set_callback fm))))"
  shows "length (filter (\<lambda>c. fe_fault_type (fst c) = FAULT_DMISS \<and> fe_workload_id_hash (fst c) = w) calls)
      = (if over_limit limits w (concat polls) then 1 else 0)
    \<and> filter (\<lambda>e. fe_fault_type e \<noteq> FAULT_DMISS) (map fst calls)
      = filter (\<lambda>e. fe_fault_type e \<noteq> FAULT_DMISS) (concat polls)"
proof -
  let ?fm = "update_current_limits limits (clear_state (set_callback fm))"
  have frame: "fm_ringbuf_fd ?fm = fm_ringbuf_fd fm" "fm_running ?fm = fm_running fm"
    by (simp_all add: update_current_limits_def clear_state_def set_callback_def)
  have "calls = snd (ring_buffer_poll (concat polls) ?fm)"
    unfolding assms(6) poll_loop_def using assms(2-4) poll_rounds_until_stop [OF _ assms(5)] by (simp add: frame)
  then show ?thesis using ring_buffer_poll_reports [OF assms(1) refl, of w limits fm] by simp
qed

definition demo_miss :: FaultEvent where
  "demo_miss = \<lparr>fe_workload_id_hash = 5, fe_task_id_hash = 7, fe_cpu = 2, fe_expected_deadline_ns = 10,
     fe_actual_completion_ns = 12, fe_fault_type = FAULT_DMISS\<rparr>"

theorem monitor_reports_exactly_witness:
  "length (filter (\<lambda>c. fe_fault_type (fst c) = FAULT_DMISS \<and> fe_workload_id_hash (fst c) = 5)
     (snd (poll_loop (\<lambda>_. True) [(False, [demo_miss]), (False, [demo_miss, demo_miss]), (True, [])]
        (update_current_limits [((5, 7), 1)]
          (clear_state (set_callback (fault_start (set_ringbuf_fd 9 FaultMonitor_init)))))))) = 1"
proof -
  have "over_limit [((5, 7), 1)] 5 [demo_miss, demo_miss, demo_miss]"
    unfolding over_limit_def
    by (intro exI [of _ 7] exI [of _ 1]) (simp add: map_find_def misses_def demo_miss_def dmiss_key_def)
  then show ?thesis
    using monitor_reports_exactly [of "[[demo_miss], [demo_miss, demo_miss]]" "fault_start (set_ringbuf_fd 9 FaultMonitor_init)"
        "\<lambda>_. True" "[(True, [])]" _ "[((5, 7), 1)]" 5]
    by (simp add: fault_start_def set_ringbuf_fd_def)
qed

end
