(* ===== verification/Node_Daemon.thy ===== *)
theory Node_Daemon
  imports Node_Client Timer_Slots Fault_Monitor
begin

text \<open>
  The node daemon, \<open>timpani-n/src/main.cpp\<close>, in its default build without schedule tracing: the options,
  and the callbacks that connect the stream, the kernel maps, the timer and the fault monitor. Its state
  has the components and the maps that track what each workload owns. The system is a parameter:
  \<open>node_env\<close> holds the process table and says which map entries the kernel has room for and what the
  monotonic clock reads. Calls of \<open>sched_setattr\<close> and \<open>sched_setaffinity\<close> are kept as lists of pids.
\<close>

section \<open>Options\<close>

record RuntimeOptions =
  orchestrator_host :: string
  orchestrator_port :: int
  node_id_override :: string
  enable_plot :: bool
  show_help :: bool
  show_version :: bool

definition RuntimeOptions_init :: RuntimeOptions where
  "RuntimeOptions_init = \<lparr>orchestrator_host = ''127.0.0.1'', orchestrator_port = 50060, node_id_override = [],
     enable_plot = False, show_help = False, show_version = False\<rparr>"

definition parse_port :: "string option \<Rightarrow> int option" where
  "parse_port text =
     (case text of
        None \<Rightarrow> None
      | Some t \<Rightarrow>
          if c_str t = [] then None
          else case strtol10 (c_str t) of
                 None \<Rightarrow> None
               | Some (parsed, rest) \<Rightarrow>
                   if rest \<noteq> [] then None
                   else if parsed < 1 \<or> 65535 < parsed then None
                   else Some parsed)"

text \<open>
  \<open>opts\<close> is what \<open>getopt\<close> returns, option by option with its argument, and \<open>rest\<close> the other words of the
  command line. \<open>None\<close> stands for the result \<open>false\<close>.
\<close>

fun parse_opts :: "(char \<times> string option) list \<Rightarrow> RuntimeOptions \<Rightarrow> (bool \<times> RuntimeOptions) option" where
  "parse_opts [] o1 = Some (False, o1)"
| "parse_opts ((opt, arg) # opts) o1 =
     (if opt = CHR ''h'' then Some (True, o1\<lparr>show_help := True\<rparr>)
      else if opt = CHR ''V'' then Some (True, o1\<lparr>show_version := True\<rparr>)
      else if opt = CHR ''n'' then
        parse_opts opts (o1\<lparr>node_id_override := (case arg of Some a \<Rightarrow> c_str a | None \<Rightarrow> [])\<rparr>)
      else if opt = CHR ''p'' then
        (case parse_port arg of
           None \<Rightarrow> None
         | Some port \<Rightarrow> parse_opts opts (o1\<lparr>orchestrator_port := port\<rparr>))
      else if opt = CHR ''l'' \<or> opt = CHR ''P'' then parse_opts opts o1
      else if opt = CHR ''g'' then parse_opts opts (o1\<lparr>enable_plot := True\<rparr>)
      else if opt = CHR ''s'' then parse_opts opts o1
      else None)"

definition parse_runtime_options ::
  "(char \<times> string option) list \<Rightarrow> string list \<Rightarrow> RuntimeOptions \<Rightarrow> RuntimeOptions option" where
  "parse_runtime_options opts rest o1 =
     (case parse_opts opts o1 of
        None \<Rightarrow> None
      | Some (True, o2) \<Rightarrow> Some o2
      | Some (False, o2) \<Rightarrow>
          (case rest of
             [] \<Rightarrow> Some o2
           | [host] \<Rightarrow> Some (o2\<lparr>orchestrator_host := host\<rparr>)
           | _ \<Rightarrow> None))"

definition resolve_node_id :: "RuntimeOptions \<Rightarrow> string option \<Rightarrow> string" where
  "resolve_node_id o1 hostname =
     (if node_id_override o1 \<noteq> [] then node_id_override o1
      else case hostname of Some h \<Rightarrow> if h \<noteq> [] then h else ''node'' | None \<Rightarrow> ''node'')"

section \<open>Processes\<close>

text \<open>
  The directories of \<open>/proc\<close> in the order \<open>readdir\<close> gives them, each with the contents of its \<open>comm\<close> file
  if that opens. The name of a numeric directory there is a pid in decimal, so \<open>std::stoi\<close> gives its value.
\<close>

type_synonym proc_table = "(string \<times> string option) list"

definition comm_matches :: "string \<Rightarrow> string option \<Rightarrow> bool" where
  "comm_matches comm content =
     (case content of
        None \<Rightarrow> False
      | Some text \<Rightarrow>
          let proc_comm = (case getlines (CHR 0x0A) text of [] \<Rightarrow> [] | l # _ \<Rightarrow> l)
          in proc_comm = take 15 comm \<or> proc_comm = comm)"

fun find_pid_by_comm :: "proc_table \<Rightarrow> string \<Rightarrow> int" where
  "find_pid_by_comm [] comm = -1"
| "find_pid_by_comm ((name, content) # entries) comm =
     (if \<not> list_all is_digit name then find_pid_by_comm entries comm
      else if comm_matches comm content then int (digits_val name)
      else find_pid_by_comm entries comm)"

record node_env =
  env_proc :: proc_table
  room_meta :: "u32 \<Rightarrow> bool"
  room_slot :: "TtSlotKey \<Rightarrow> bool"
  room_cbs :: "u64 \<Rightarrow> bool"
  monotonic_now_ns :: "u64 \<Rightarrow> u64"

section \<open>State\<close>

record Node =
  n_loader :: BpfLoader
  n_timer :: TimerMaster
  n_faults :: FaultMonitor
  n_client :: NodeClient
  workload_to_pids :: "(string, int list) std_map"
  workload_to_slots :: "(string, TtSlotKey list) std_map"
  workload_to_hash :: "(string, u64) std_map"
  workload_to_cbs_keys :: "(string, u64 list) std_map"
  workload_hash_to_id :: "(u64, string) std_map"
  n_sched_ext :: "int list"
  n_unpinned :: "int list"

definition Node_init :: "BpfLoader \<Rightarrow> TimerMaster \<Rightarrow> NodeClient \<Rightarrow> Node" where
  "Node_init ld tm c =
     \<lparr>n_loader = ld, n_timer = tm, n_faults = set_callback FaultMonitor_init, n_client = c,
      workload_to_pids = [], workload_to_slots = [], workload_to_hash = [], workload_to_cbs_keys = [],
      workload_hash_to_id = [], n_sched_ext = [], n_unpinned = []\<rparr>"

definition evict_pid :: "Node \<Rightarrow> int \<Rightarrow> Node" where
  "evict_pid n pid = n\<lparr>n_unpinned := n_unpinned n @ [pid],
     n_loader := snd (delete_task_meta (word_of_int pid) (n_loader n))\<rparr>"

definition drop_slot :: "Node \<Rightarrow> TtSlotKey \<Rightarrow> Node" where
  "drop_slot n key = n\<lparr>n_loader := snd (delete_tt_slot key (n_loader n))\<rparr>"

definition drop_cbs :: "Node \<Rightarrow> u64 \<Rightarrow> Node" where
  "drop_cbs n key = n\<lparr>n_loader := snd (delete_cbs_state key (n_loader n))\<rparr>"

section \<open>Recovery\<close>

fun resolve_wid :: "string \<Rightarrow> (u64 \<times> string) list \<Rightarrow> std_exn + string" where
  "resolve_wid wid [] = Inr wid"
| "resolve_wid wid ((hash_val, name_str) # rest) =
     (if nat_to_string (unat hash_val) = wid then Inr name_str
      else if starts_with ''0x'' wid
      then bindE (stoull16 wid) (\<lambda>v. if v = hash_val then Inr name_str else resolve_wid wid rest)
      else resolve_wid wid rest)"

definition evict_pids :: "string \<Rightarrow> Node \<Rightarrow> Node" where
  "evict_pids wid n =
     (case map_find wid (workload_to_pids n) of
        None \<Rightarrow> n
      | Some pids \<Rightarrow> (foldl evict_pid n pids)\<lparr>workload_to_pids := map_erase wid (workload_to_pids n)\<rparr>)"

definition evict_slots :: "string \<Rightarrow> Node \<Rightarrow> Node" where
  "evict_slots wid n =
     (case map_find wid (workload_to_slots n) of
        None \<Rightarrow> n
      | Some keys \<Rightarrow> (foldl drop_slot n keys)\<lparr>workload_to_slots := map_erase wid (workload_to_slots n)\<rparr>)"

definition evict_timer :: "string \<Rightarrow> Node \<Rightarrow> Node" where
  "evict_timer wid n =
     (case map_find wid (workload_to_hash n) of
        None \<Rightarrow> n
      | Some h \<Rightarrow> n\<lparr>n_timer := remove_workload h (n_timer n), workload_to_hash := map_erase wid (workload_to_hash n)\<rparr>)"

definition evict_cbs :: "string \<Rightarrow> Node \<Rightarrow> Node" where
  "evict_cbs wid n =
     (case map_find wid (workload_to_cbs_keys n) of
        None \<Rightarrow> n
      | Some keys \<Rightarrow> (foldl drop_cbs n keys)\<lparr>workload_to_cbs_keys := map_erase wid (workload_to_cbs_keys n)\<rparr>)"

definition evict_workload :: "string \<Rightarrow> Node \<Rightarrow> Node" where
  "evict_workload wid n = evict_cbs wid (evict_timer wid (evict_slots wid (evict_pids wid n)))"

definition recovery_callback :: "RecoverySignal \<Rightarrow> Node \<Rightarrow> std_exn + Node" where
  "recovery_callback sig n =
     (if rs_action sig = ACTION_STOP
      then bindE (if map_find (rs_workload_id sig) (workload_to_pids n) = None
                  then resolve_wid (rs_workload_id sig) (workload_hash_to_id n)
                  else Inr (rs_workload_id sig))
             (\<lambda>wid. Inr (evict_workload wid n))
      else Inr n)"

section \<open>Faults\<close>

definition to_proto_fault_type :: "u8 \<Rightarrow> i32" where
  "to_proto_fault_type t =
     (if t = FAULT_DMISS then DMISS else if t = FAULT_BUDGET_EXCEED then BUDGET_EXCEED else UNKNOWN)"

definition fault_callback :: "FaultEvent \<Rightarrow> u32 \<Rightarrow> Node \<Rightarrow> Node" where
  "fault_callback event current_dmiss n =
     n\<lparr>n_client := send_fault (FaultInfo_init\<lparr>
           fi_workload_id := (case map_find (fe_workload_id_hash event) (workload_hash_to_id n) of
                                Some w \<Rightarrow> w | None \<Rightarrow> []),
           fi_workload_id_hash := fe_workload_id_hash event, fi_task_id_hash := fe_task_id_hash event,
           fi_fault_type := to_proto_fault_type (fe_fault_type event), fi_dmiss_count := current_dmiss,
           fi_current_limit := 0\<rparr>) (n_client n)\<rparr>"

definition on_fault_event :: "FaultEvent \<Rightarrow> Node \<Rightarrow> Node" where
  "on_fault_event event n =
     (let (fm, call) = ring_buf_callback event (n_faults n);
          n1 = n\<lparr>n_faults := fm\<rparr>
      in case call of None \<Rightarrow> n1 | Some (e, current_dmiss) \<Rightarrow> fault_callback e current_dmiss n1)"

section \<open>A new table\<close>

definition layers_of :: "HierarchicalScheduleTable \<Rightarrow> LayerConfig list" where
  "layers_of table = concat (map layers (partitions table))"

definition table_workloads :: "HierarchicalScheduleTable \<Rightarrow> string set" where
  "table_workloads table = set (concat (map
     (\<lambda>l. filter (\<lambda>w. w \<noteq> []) (map tt_workload_id (tt_slots l))
        @ filter (\<lambda>w. w \<noteq> []) (map cbs_workload_id (cbs_entries l))) (layers_of table)))"

definition evict_missing :: "string set \<Rightarrow> Node \<Rightarrow> string \<times> int list \<Rightarrow> Node" where
  "evict_missing new_workloads n wp =
     (if fst wp \<in> new_workloads then n
      else let n1 = foldl evict_pid n (snd wp)
           in case map_find (fst wp) (workload_to_hash n1) of
                None \<Rightarrow> n1
              | Some h \<Rightarrow> n1\<lparr>n_timer := remove_workload h (n_timer n1)\<rparr>)"

definition drop_old_table :: "HierarchicalScheduleTable \<Rightarrow> Node \<Rightarrow> Node" where
  "drop_old_table table n0 =
     (let n1 = foldl (evict_missing (table_workloads table)) n0 (workload_to_pids n0);
          n2 = foldl (\<lambda>n wk. foldl drop_slot n (snd wk)) n1 (workload_to_slots n1);
          n3 = foldl (\<lambda>n wk. foldl drop_cbs n (snd wk)) n2 (workload_to_cbs_keys n2)
      in n3\<lparr>workload_to_pids := [], workload_to_slots := [], workload_to_hash := [],
            workload_to_cbs_keys := [], workload_hash_to_id := [], n_faults := clear_state (n_faults n3)\<rparr>)"

definition table_limits :: "HierarchicalScheduleTable \<Rightarrow> (task_key, u32) std_map" where
  "table_limits table = foldl (\<lambda>m kl. map_put (fst kl) (snd kl) m) [] (concat (map
     (\<lambda>l. map (\<lambda>s. ((tt_workload_id_hash s, tt_task_id_hash s), tt_current_limit s))
            (filter (\<lambda>s. 0 < tt_current_limit s) (tt_slots l))
        @ map (\<lambda>c. ((cbs_workload_id_hash c, cbs_task_id_hash c), cbs_current_limit c))
            (filter (\<lambda>c. 0 < cbs_current_limit c) (cbs_entries l))) (layers_of table)))"

record apply_state =
  ap_node :: Node
  ap_slots :: "SlotEntry list"
  ap_slot_idx :: u32
  ap_success :: bool
  ap_error :: string

definition record_apply_error :: "string \<Rightarrow> apply_state \<Rightarrow> apply_state" where
  "record_apply_error error st = st\<lparr>ap_success := False,
     ap_error := (if ap_error st \<noteq> [] then ap_error st @ ''; '' else ap_error st) @ error\<rparr>"

definition tt_meta :: "int \<Rightarrow> TtSlot \<Rightarrow> TaskMeta" where
  "tt_meta layer_idx s = \<lparr>tm_workload_id_hash = tt_workload_id_hash s, tm_task_id_hash = tt_task_id_hash s,
     tm_assigned_cpu = tt_cpu s, tm_slot_duration_us = tt_duration_us s, tm_scheduling_type = SCHED_TYPE_TT,
     tm_layer = word_of_int layer_idx, tm_tt_runnable = 0, tm_activation_ns = 0, tm_cgroup_id = 0\<rparr>"

definition slot_entry :: "u32 \<Rightarrow> TtSlot \<Rightarrow> SlotEntry" where
  "slot_entry idx s = \<lparr>se_cpu = tt_cpu s, se_slot_idx = idx, se_offset_ns = ucast (tt_offset_us s) * 1000,
     se_duration_ns = ucast (tt_duration_us s) * 1000, se_task_id_hash = tt_task_id_hash s,
     se_workload_id_hash = tt_workload_id_hash s, se_task_name = tt_task_id s\<rparr>"

definition slot_key :: "u32 \<Rightarrow> TtSlot \<Rightarrow> TtSlotKey" where
  "slot_key idx s = \<lparr>key_cpu = tt_cpu s, key_slot_idx = idx\<rparr>"

definition slot_bpf :: "TtSlot \<Rightarrow> TtSlotBpf" where
  "slot_bpf s = \<lparr>ts_workload_id_hash = tt_workload_id_hash s, ts_task_id_hash = tt_task_id_hash s,
     ts_offset_us = tt_offset_us s, ts_duration_us = tt_duration_us s, ts_deadline_us = tt_deadline_us s,
     ts_cpu = tt_cpu s\<rparr>"

text \<open>\<open>update_task_meta\<close> and, when it succeeds, \<open>apply_sched_ext\<close>.\<close>

definition install_meta :: "node_env \<Rightarrow> int \<Rightarrow> TaskMeta \<Rightarrow> Node \<Rightarrow> bool \<times> Node" where
  "install_meta env pid meta n =
     (let (ok, ld) = update_task_meta (room_meta env (word_of_int pid)) (word_of_int pid) meta (n_loader n)
      in (ok, n\<lparr>n_loader := ld, n_sched_ext := (if ok then n_sched_ext n @ [pid] else n_sched_ext n)\<rparr>))"

definition apply_tt_slot :: "node_env \<Rightarrow> int \<Rightarrow> apply_state \<Rightarrow> TtSlot \<Rightarrow> apply_state" where
  "apply_tt_slot env layer_idx st s =
     (let pid = find_pid_by_comm (env_proc env) (tt_task_id s);
          st1 = (if pid < 0 then record_apply_error (''TT task not found: '' @ tt_task_id s) st
                 else let (ok, n1) = install_meta env pid (tt_meta layer_idx s) (ap_node st);
                          st' = st\<lparr>ap_node := n1\<rparr>
                      in if ok then st' else record_apply_error (''TT task_meta update failed: '' @ tt_task_id s) st');
          st2 = st1\<lparr>ap_slots := ap_slots st1 @ [slot_entry (ap_slot_idx st1) s]\<rparr>;
          key = slot_key (ap_slot_idx st2) s;
          (ok2, ld) = update_tt_slot (room_slot env key) key (slot_bpf s) (n_loader (ap_node st2));
          st3 = st2\<lparr>ap_node := (ap_node st2)\<lparr>n_loader := ld\<rparr>\<rparr>;
          st4 = (if ok2 then st3 else record_apply_error (''TT slot update failed: '' @ tt_task_id s) st3);
          n = ap_node st4;
          n' = (if 0 \<le> pid
                then n\<lparr>workload_to_pids := map_modify [] (\<lambda>ps. ps @ [pid]) (tt_workload_id s) (workload_to_pids n),
                       workload_to_slots := map_modify [] (\<lambda>ks. ks @ [key]) (tt_workload_id s) (workload_to_slots n),
                       workload_to_hash := map_put (tt_workload_id s) (tt_workload_id_hash s) (workload_to_hash n),
                       workload_hash_to_id := map_put (tt_workload_id_hash s) (tt_workload_id s) (workload_hash_to_id n)\<rparr>
                else n)
      in st4\<lparr>ap_node := n', ap_slot_idx := ap_slot_idx st4 + 1\<rparr>)"

definition cbs_meta :: "int \<Rightarrow> u32 \<Rightarrow> CbsConfig \<Rightarrow> TaskMeta" where
  "cbs_meta layer_idx partition_cpu c = \<lparr>tm_workload_id_hash = cbs_workload_id_hash c,
     tm_task_id_hash = cbs_task_id_hash c, tm_assigned_cpu = partition_cpu, tm_slot_duration_us = 0,
     tm_scheduling_type = SCHED_TYPE_CBS, tm_layer = word_of_int layer_idx, tm_tt_runnable = 0,
     tm_activation_ns = 0, tm_cgroup_id = 0\<rparr>"

definition cbs_key :: "CbsConfig \<Rightarrow> u64" where
  "cbs_key c = cbs_workload_id_hash c XOR cbs_task_id_hash c"

definition cbs_state :: "u64 \<Rightarrow> CbsConfig \<Rightarrow> CbsState" where
  "cbs_state t c = \<lparr>cs_task_id_hash = cbs_task_id_hash c, cs_budget_us = cbs_budget_us c,
     cs_period_us = cbs_period_us c, cs_remaining_us = cbs_budget_us c, cs_exec_start_ns = 0,
     cs_replenish_at_ns = (if 0 < cbs_period_us c then t + ucast (cbs_period_us c) * 1000 else 0),
     cs_deadline_us = cbs_deadline_us c\<rparr>"

definition apply_cbs_entry :: "node_env \<Rightarrow> int \<Rightarrow> u32 \<Rightarrow> apply_state \<Rightarrow> CbsConfig \<Rightarrow> apply_state" where
  "apply_cbs_entry env layer_idx partition_cpu st c =
     (let pid = find_pid_by_comm (env_proc env) (cbs_task_id c) in
      if pid < 0 then record_apply_error (''CBS task not found: '' @ cbs_task_id c) st
      else let (ok, n1) = install_meta env pid (cbs_meta layer_idx partition_cpu c) (ap_node st);
               st1 = st\<lparr>ap_node := n1\<rparr>
           in if \<not> ok then record_apply_error (''CBS task_meta update failed: '' @ cbs_task_id c) st1
              else let key = cbs_key c;
                       (ok2, ld) = update_cbs_state (room_cbs env key) key
                                     (cbs_state (monotonic_now_ns env key) c) (n_loader n1);
                       n2 = n1\<lparr>n_loader := ld\<rparr>
                   in if \<not> ok2 then record_apply_error (''CBS state update failed: '' @ cbs_task_id c) (st1\<lparr>ap_node := n2\<rparr>)
                      else st1\<lparr>ap_node := n2\<lparr>
                        workload_to_pids := map_modify [] (\<lambda>ps. ps @ [pid]) (cbs_workload_id c) (workload_to_pids n2),
                        workload_to_cbs_keys := map_modify [] (\<lambda>ks. ks @ [key]) (cbs_workload_id c) (workload_to_cbs_keys n2),
                        workload_to_hash := map_put (cbs_workload_id c) (cbs_workload_id_hash c) (workload_to_hash n2),
                        workload_hash_to_id := map_put (cbs_workload_id_hash c) (cbs_workload_id c) (workload_hash_to_id n2)\<rparr>\<rparr>)"

definition apply_layer :: "node_env \<Rightarrow> PartitionConfig \<Rightarrow> apply_state \<Rightarrow> LayerConfig \<Rightarrow> apply_state" where
  "apply_layer env part st layer =
     (let partition_cpu = (case cpus (cpuset part) of [] \<Rightarrow> 0 | c # _ \<Rightarrow> c);
          st1 = foldl (apply_tt_slot env (layer_index layer)) st (tt_slots layer);
          st2 = (if cpus (cpuset part) = [] \<and> cbs_entries layer \<noteq> []
                 then record_apply_error (''CBS partition has empty cpuset: '' @ partition_id part) st1 else st1)
      in foldl (apply_cbs_entry env (layer_index layer) partition_cpu) st2 (cbs_entries layer))"

definition apply_partition :: "node_env \<Rightarrow> apply_state \<Rightarrow> PartitionConfig \<Rightarrow> apply_state" where
  "apply_partition env st part = foldl (apply_layer env part) st (layers part)"

definition apply_table :: "node_env \<Rightarrow> HierarchicalScheduleTable \<Rightarrow> Node \<Rightarrow> apply_state" where
  "apply_table env table n =
     foldl (apply_partition env)
       \<lparr>ap_node = n\<lparr>n_faults := update_current_limits (table_limits table) (n_faults n)\<rparr>,
        ap_slots = [], ap_slot_idx = 0, ap_success = True, ap_error = []\<rparr>
       (partitions table)"

definition table_callback :: "node_env \<Rightarrow> HierarchicalScheduleTable \<Rightarrow> Node \<Rightarrow> Node" where
  "table_callback env table n0 =
     (let st = apply_table env table (drop_old_table table n0);
          n = ap_node st
      in n\<lparr>n_timer := set_schedule_table (ap_slots st) (ucast (hyperperiod_us table)) (epoch_ns table) (n_timer n),
           n_client := send_table_applied (table_id table) (ap_success st) (ap_error st) (n_client n)\<rparr>)"

text \<open>
  What the daemon does with a command. No callback is set for an update, and the one for a shutdown only
  prints. An exception in the recovery callback ends the process, here the value \<open>Inl\<close>.
\<close>

definition handle_command :: "node_env \<Rightarrow> ControlCommand \<Rightarrow> std_exn + Node \<Rightarrow> std_exn + Node" where
  "handle_command env cmd r = bindE r (\<lambda>n.
     case cmd of
       Full_table t \<Rightarrow> Inr (table_callback env t n)
     | Recovery sig \<Rightarrow> recovery_callback sig n
     | Update_table _ \<Rightarrow> Inr n
     | Shutdown _ \<Rightarrow> Inr n
     | No_command \<Rightarrow> Inr n)"

end
