(* ===== verification/Node_Apply.thy ===== *)
theory Node_Apply
  imports Node_Daemon
begin

text \<open>
  What the daemon's callbacks do to the kernel maps, the timer and the stream: a table is installed
  completely or reported as failed, servers of older tables do not stay behind, and an eviction removes
  everything the daemon tracks for the workload.
\<close>

section \<open>Effects on the kernel maps\<close>

abbreviation n_bpf :: "Node \<Rightarrow> bpf_state option" where
  "n_bpf n \<equiv> skel (n_loader n)"

lemma del_absent:
  "task_meta_map s pid = None \<Longrightarrow> del_meta pid s = s"
  "tt_table_map s key = None \<Longrightarrow> del_tt key s = s"
  "cbs_map s k = None \<Longrightarrow> del_cbs k s = s"
  by (cases s; simp add: del_meta_def del_tt_def del_cbs_def fun_upd_idem)+

lemma skel_delete:
  "skel (snd (delete_task_meta pid ld)) = map_option (del_meta pid) (skel ld)"
  "skel (snd (delete_tt_slot key ld)) = map_option (del_tt key) (skel ld)"
  "skel (snd (delete_cbs_state k ld)) = map_option (del_cbs k) (skel ld)"
  by (auto simp: delete_task_meta_def delete_tt_slot_def delete_cbs_state_def with_skel_def del_absent
      split: option.split)

lemma drop_frame [simp]:
  "n_timer (drop_slot n key) = n_timer n" "n_client (drop_slot n key) = n_client n" "n_faults (drop_slot n key) = n_faults n"
  "workload_to_pids (drop_slot n key) = workload_to_pids n" "workload_to_slots (drop_slot n key) = workload_to_slots n"
  "workload_to_hash (drop_slot n key) = workload_to_hash n" "workload_to_cbs_keys (drop_slot n key) = workload_to_cbs_keys n"
  "n_timer (drop_cbs n k) = n_timer n" "n_client (drop_cbs n k) = n_client n" "n_faults (drop_cbs n k) = n_faults n"
  "workload_to_pids (drop_cbs n k) = workload_to_pids n" "workload_to_slots (drop_cbs n k) = workload_to_slots n"
  "workload_to_hash (drop_cbs n k) = workload_to_hash n" "workload_to_cbs_keys (drop_cbs n k) = workload_to_cbs_keys n"
  "n_timer (evict_pid n pid) = n_timer n" "n_client (evict_pid n pid) = n_client n" "n_faults (evict_pid n pid) = n_faults n"
  "workload_to_pids (evict_pid n pid) = workload_to_pids n" "workload_to_slots (evict_pid n pid) = workload_to_slots n"
  "workload_to_hash (evict_pid n pid) = workload_to_hash n" "workload_to_cbs_keys (evict_pid n pid) = workload_to_cbs_keys n"
  by (simp_all add: drop_slot_def drop_cbs_def evict_pid_def)

lemma foldl_frame:
  assumes "\<And>n x. f (g n x) = f n"
  shows "f (foldl g n xs) = f n"
  using assms by (induction xs arbitrary: n) simp_all

lemmas drop_all_frame =
  foldl_frame [where g = drop_slot and f = n_timer, OF drop_frame(1)]
  foldl_frame [where g = drop_slot and f = n_client, OF drop_frame(2)]
  foldl_frame [where g = drop_slot and f = n_faults, OF drop_frame(3)]
  foldl_frame [where g = drop_slot and f = workload_to_pids, OF drop_frame(4)]
  foldl_frame [where g = drop_slot and f = workload_to_hash, OF drop_frame(6)]
  foldl_frame [where g = drop_slot and f = workload_to_cbs_keys, OF drop_frame(7)]
  foldl_frame [where g = drop_cbs and f = n_timer, OF drop_frame(8)]
  foldl_frame [where g = drop_cbs and f = n_client, OF drop_frame(9)]
  foldl_frame [where g = drop_cbs and f = n_faults, OF drop_frame(10)]
  foldl_frame [where g = drop_cbs and f = workload_to_pids, OF drop_frame(11)]
  foldl_frame [where g = drop_cbs and f = workload_to_slots, OF drop_frame(12)]
  foldl_frame [where g = drop_cbs and f = workload_to_hash, OF drop_frame(13)]
  foldl_frame [where g = evict_pid and f = n_timer, OF drop_frame(15)]
  foldl_frame [where g = evict_pid and f = n_client, OF drop_frame(16)]
  foldl_frame [where g = evict_pid and f = n_faults, OF drop_frame(17)]
  foldl_frame [where g = evict_pid and f = workload_to_slots, OF drop_frame(19)]
  foldl_frame [where g = evict_pid and f = workload_to_hash, OF drop_frame(20)]
  foldl_frame [where g = evict_pid and f = workload_to_cbs_keys, OF drop_frame(21)]

text \<open>The three deletions as updates of one map by a set of keys.\<close>

definition without_metas :: "u32 set \<Rightarrow> bpf_state \<Rightarrow> bpf_state" where
  "without_metas ps s = s\<lparr>task_meta_map := task_meta_map s |` (- ps)\<rparr>"

definition without_slots :: "TtSlotKey set \<Rightarrow> bpf_state \<Rightarrow> bpf_state" where
  "without_slots ks s = s\<lparr>tt_table_map := tt_table_map s |` (- ks)\<rparr>"

definition without_cbs :: "u64 set \<Rightarrow> bpf_state \<Rightarrow> bpf_state" where
  "without_cbs ks s = s\<lparr>cbs_map := cbs_map s |` (- ks)\<rparr>"

lemma restrict_del: "(m(k := None)) |` (- ks) = m |` (- insert k ks)"
  by (rule ext) (auto simp: restrict_map_def)

lemma without_step:
  "without_metas ps (del_meta p s) = without_metas (insert p ps) s"
  "without_slots ks (del_tt k s) = without_slots (insert k ks) s"
  "without_cbs cs (del_cbs c s) = without_cbs (insert c cs) s"
  by (cases s; simp only: without_metas_def without_slots_def without_cbs_def del_meta_def del_tt_def del_cbs_def
      restrict_del bpf_state.simps)+

lemma restrict_all: "m |` UNIV = m"
  by (rule ext) (simp add: restrict_map_def)

lemma without_empty: "without_metas {} s = s" "without_slots {} s = s" "without_cbs {} s = s"
  by (cases s; simp only: without_metas_def without_slots_def without_cbs_def bpf_state.simps Compl_empty_eq
      restrict_all)+

lemma without_none:
  "map_option (without_metas {}) x = x" "map_option (without_slots {}) x = x" "map_option (without_cbs {}) x = x"
  by (simp_all add: without_empty option.map_ident cong: option.map_cong)

lemma n_bpf_drop:
  "n_bpf (evict_pid n pid) = map_option (del_meta (word_of_int pid)) (n_bpf n)"
  "n_bpf (drop_slot n key) = map_option (del_tt key) (n_bpf n)"
  "n_bpf (drop_cbs n k) = map_option (del_cbs k) (n_bpf n)"
  by (simp_all add: evict_pid_def drop_slot_def drop_cbs_def skel_delete)

lemma n_bpf_evict_pids:
  "n_bpf (foldl evict_pid n pids) = map_option (without_metas (word_of_int ` set pids)) (n_bpf n)"
proof (induction pids arbitrary: n)
  case (Cons p pids)
  then show ?case by (cases "n_bpf n") (simp_all add: n_bpf_drop without_step)
qed (simp add: without_none)

lemma n_bpf_drop_slots: "n_bpf (foldl drop_slot n keys) = map_option (without_slots (set keys)) (n_bpf n)"
proof (induction keys arbitrary: n)
  case (Cons k keys)
  then show ?case by (cases "n_bpf n") (simp_all add: n_bpf_drop without_step)
qed (simp add: without_none)

lemma n_bpf_drop_cbs: "n_bpf (foldl drop_cbs n keys) = map_option (without_cbs (set keys)) (n_bpf n)"
proof (induction keys arbitrary: n)
  case (Cons k keys)
  then show ?case by (cases "n_bpf n") (simp_all add: n_bpf_drop without_step)
qed (simp add: without_none)

section \<open>Eviction\<close>

lemma remove_workload_table: "slot_table (remove_workload h tm) = filter (\<lambda>e. se_workload_id_hash e \<noteq> h) (slot_table tm)"
proof (cases "length (filter (\<lambda>e. se_workload_id_hash e \<noteq> h) (slot_table tm)) = length (slot_table tm)")
  case True
  then have "filter (\<lambda>e. se_workload_id_hash e \<noteq> h) (slot_table tm) = slot_table tm"
    by (metis filter_id_conv length_filter_less less_irrefl)
  then show ?thesis by (simp add: remove_workload_def)
next
  case False
  then show ?thesis by (simp add: remove_workload_def Let_def)
qed

definition tracked_at :: "string \<Rightarrow> (string, 'a list) std_map \<Rightarrow> 'a set" where
  "tracked_at wid m = (case map_find wid m of None \<Rightarrow> {} | Some xs \<Rightarrow> set xs)"

lemma map_erase_absent: "map_find k m = None \<Longrightarrow> map_erase k m = m"
  by (auto simp: map_find_None map_erase_def filter_id_conv)

lemma evict_pids_effect:
  "n_bpf (evict_pids wid n) = map_option (without_metas (word_of_int ` tracked_at wid (workload_to_pids n))) (n_bpf n)"
  "workload_to_pids (evict_pids wid n) = map_erase wid (workload_to_pids n)"
  "workload_to_slots (evict_pids wid n) = workload_to_slots n"
  "workload_to_hash (evict_pids wid n) = workload_to_hash n"
  "workload_to_cbs_keys (evict_pids wid n) = workload_to_cbs_keys n"
  "n_timer (evict_pids wid n) = n_timer n"
  by (cases "map_find wid (workload_to_pids n)";
      simp add: evict_pids_def tracked_at_def n_bpf_evict_pids drop_all_frame without_none map_erase_absent)+

lemma evict_slots_effect:
  "n_bpf (evict_slots wid n) = map_option (without_slots (tracked_at wid (workload_to_slots n))) (n_bpf n)"
  "workload_to_pids (evict_slots wid n) = workload_to_pids n"
  "workload_to_slots (evict_slots wid n) = map_erase wid (workload_to_slots n)"
  "workload_to_hash (evict_slots wid n) = workload_to_hash n"
  "workload_to_cbs_keys (evict_slots wid n) = workload_to_cbs_keys n"
  "n_timer (evict_slots wid n) = n_timer n"
  by (cases "map_find wid (workload_to_slots n)";
      simp add: evict_slots_def tracked_at_def n_bpf_drop_slots drop_all_frame without_none map_erase_absent)+

lemma evict_timer_effect:
  "n_bpf (evict_timer wid n) = n_bpf n"
  "workload_to_pids (evict_timer wid n) = workload_to_pids n"
  "workload_to_slots (evict_timer wid n) = workload_to_slots n"
  "workload_to_hash (evict_timer wid n) = map_erase wid (workload_to_hash n)"
  "workload_to_cbs_keys (evict_timer wid n) = workload_to_cbs_keys n"
  "map_find wid (workload_to_hash n) = Some h \<Longrightarrow> slot_table (n_timer (evict_timer wid n))
     = filter (\<lambda>e. se_workload_id_hash e \<noteq> h) (slot_table (n_timer n))"
  by (cases "map_find wid (workload_to_hash n)";
      simp add: evict_timer_def remove_workload_table map_erase_absent)+

lemma evict_cbs_effect:
  "n_bpf (evict_cbs wid n) = map_option (without_cbs (tracked_at wid (workload_to_cbs_keys n))) (n_bpf n)"
  "workload_to_pids (evict_cbs wid n) = workload_to_pids n"
  "workload_to_slots (evict_cbs wid n) = workload_to_slots n"
  "workload_to_hash (evict_cbs wid n) = workload_to_hash n"
  "workload_to_cbs_keys (evict_cbs wid n) = map_erase wid (workload_to_cbs_keys n)"
  "n_timer (evict_cbs wid n) = n_timer n"
  by (cases "map_find wid (workload_to_cbs_keys n)";
      simp add: evict_cbs_def tracked_at_def n_bpf_drop_cbs drop_all_frame without_none map_erase_absent)+

lemmas evict_effects = evict_pids_effect evict_slots_effect evict_timer_effect evict_cbs_effect

text \<open>Stopping a workload removes everything the daemon tracks for it and nothing else: its processes
  lose their kernel entries, its time-triggered slots and its servers are deleted from the kernel maps, its
  slots leave the timer's table, and the tracking maps forget it.\<close>

theorem evict_workload_complete:
  assumes "n_bpf n = Some s" and "map_find wid (workload_to_hash n) = Some h"
  shows "n_bpf (evict_workload wid n) = Some (without_cbs (tracked_at wid (workload_to_cbs_keys n))
      (without_slots (tracked_at wid (workload_to_slots n))
        (without_metas (word_of_int ` tracked_at wid (workload_to_pids n)) s)))
    \<and> slot_table (n_timer (evict_workload wid n))
        = filter (\<lambda>e. se_workload_id_hash e \<noteq> h) (slot_table (n_timer n))
    \<and> map_find w (workload_to_pids (evict_workload wid n)) = (if w = wid then None else map_find w (workload_to_pids n))
    \<and> map_find w (workload_to_slots (evict_workload wid n)) = (if w = wid then None else map_find w (workload_to_slots n))
    \<and> map_find w (workload_to_hash (evict_workload wid n)) = (if w = wid then None else map_find w (workload_to_hash n))
    \<and> map_find w (workload_to_cbs_keys (evict_workload wid n))
        = (if w = wid then None else map_find w (workload_to_cbs_keys n))"
  using assms by (simp add: evict_workload_def evict_effects map_find_erase)

section \<open>Installing entries\<close>

definition tt_installs :: "node_env \<Rightarrow> u32 \<Rightarrow> TtSlot \<Rightarrow> bool" where
  "tt_installs env idx x \<longleftrightarrow> 0 \<le> find_pid_by_comm (env_proc env) (tt_task_id x)
     \<and> room_meta env (word_of_int (find_pid_by_comm (env_proc env) (tt_task_id x))) \<and> room_slot env (slot_key idx x)"

definition cbs_installs :: "node_env \<Rightarrow> CbsConfig \<Rightarrow> bool" where
  "cbs_installs env c \<longleftrightarrow> 0 \<le> find_pid_by_comm (env_proc env) (cbs_task_id c)
     \<and> room_meta env (word_of_int (find_pid_by_comm (env_proc env) (cbs_task_id c))) \<and> room_cbs env (cbs_key c)"

lemma update_with_skel:
  assumes "skel ld = Some s"
  shows "update_task_meta room pid meta ld = (room, if room then ld\<lparr>skel := Some (put_meta pid meta s)\<rparr> else ld)"
    and "update_tt_slot room key slot ld = (room, if room then ld\<lparr>skel := Some (put_tt key slot s)\<rparr> else ld)"
    and "update_cbs_state room k c ld = (room, if room then ld\<lparr>skel := Some (put_cbs k c s)\<rparr> else ld)"
  using assms by (simp_all add: update_task_meta_def update_tt_slot_def update_cbs_state_def with_skel_def)

lemma install_meta_effect:
  assumes "n_bpf n = Some s"
  shows "fst (install_meta env pid meta n) = room_meta env (word_of_int pid)"
    and "n_bpf (snd (install_meta env pid meta n))
      = Some (if room_meta env (word_of_int pid) then put_meta (word_of_int pid) meta s else s)"
    and "workload_to_cbs_keys (snd (install_meta env pid meta n)) = workload_to_cbs_keys n"
    and "n_client (snd (install_meta env pid meta n)) = n_client n"
    and "n_timer (snd (install_meta env pid meta n)) = n_timer n"
  using assms by (simp_all add: install_meta_def update_with_skel Let_def)

lemma record_apply_error_frame [simp]:
  "ap_node (record_apply_error e st) = ap_node st" "ap_slots (record_apply_error e st) = ap_slots st"
  "ap_slot_idx (record_apply_error e st) = ap_slot_idx st" "\<not> ap_success (record_apply_error e st)"
  by (simp_all add: record_apply_error_def)

lemma put_tt_simps [simp]:
  "cbs_map (put_tt key slot s) = cbs_map s" "task_meta_map (put_tt key slot s) = task_meta_map s"
  "tt_table_map (put_tt key slot s) = (tt_table_map s)(key \<mapsto> slot)"
  "tt_table_map (put_meta pid m s) = tt_table_map s" "tt_table_map (put_cbs k c s) = tt_table_map s"
  by (simp_all add: put_tt_def put_meta_def put_cbs_def)

definition keeps :: "apply_state \<Rightarrow> apply_state \<Rightarrow> bool" where
  "keeps st st' \<longleftrightarrow> n_client (ap_node st') = n_client (ap_node st) \<and> n_timer (ap_node st') = n_timer (ap_node st)
     \<and> n_bpf (ap_node st') \<noteq> None"

lemma keeps_trans: "keeps a b \<Longrightarrow> keeps b c \<Longrightarrow> keeps a c"
  by (simp add: keeps_def)

lemma apply_tt_slot_effect:
  assumes s: "n_bpf (ap_node st) = Some s"
  shows "ap_slots (apply_tt_slot env li st x) = ap_slots st @ [slot_entry (ap_slot_idx st) x]"
    and "ap_slot_idx (apply_tt_slot env li st x) = ap_slot_idx st + 1"
    and "ap_success (apply_tt_slot env li st x) \<longleftrightarrow> ap_success st \<and> tt_installs env (ap_slot_idx st) x"
    and "keeps st (apply_tt_slot env li st x)"
    and "workload_to_cbs_keys (ap_node (apply_tt_slot env li st x)) = workload_to_cbs_keys (ap_node st)"
    and "\<exists>s'. n_bpf (ap_node (apply_tt_slot env li st x)) = Some s' \<and> cbs_map s' = cbs_map s
      \<and> tt_table_map s' = (if room_slot env (slot_key (ap_slot_idx st) x)
          then (tt_table_map s)(slot_key (ap_slot_idx st) x \<mapsto> slot_bpf x) else tt_table_map s)"
proof -
  let ?pid = "find_pid_by_comm (env_proc env) (tt_task_id x)"
  let ?st = "apply_tt_slot env li st x"
  have "ap_slots ?st = ap_slots st @ [slot_entry (ap_slot_idx st) x] \<and> ap_slot_idx ?st = ap_slot_idx st + 1
    \<and> (ap_success ?st \<longleftrightarrow> ap_success st \<and> tt_installs env (ap_slot_idx st) x) \<and> keeps st ?st
    \<and> workload_to_cbs_keys (ap_node ?st) = workload_to_cbs_keys (ap_node st)
    \<and> (\<exists>s'. n_bpf (ap_node ?st) = Some s' \<and> cbs_map s' = cbs_map s
      \<and> tt_table_map s' = (if room_slot env (slot_key (ap_slot_idx st) x)
          then (tt_table_map s)(slot_key (ap_slot_idx st) x \<mapsto> slot_bpf x) else tt_table_map s))"
  proof (cases "?pid < 0")
    case True
    then show ?thesis
      using s by (simp add: apply_tt_slot_def Let_def update_with_skel tt_installs_def keeps_def)
  next
    case False
    obtain ok n1 where im: "install_meta env ?pid (tt_meta li x) (ap_node st) = (ok, n1)" by fastforce
    note e = install_meta_effect [OF s, of env ?pid "tt_meta li x", unfolded im, simplified]
    show ?thesis
    proof (cases ok)
      case True
      then show ?thesis
        using False e
        by (simp add: apply_tt_slot_def Let_def im update_with_skel [OF e(2)] tt_installs_def keeps_def)
    next
      case nok: False
      then show ?thesis
        using False e
        by (simp add: apply_tt_slot_def Let_def im update_with_skel [OF e(2)] tt_installs_def keeps_def)
    qed
  qed
  then show "ap_slots ?st = ap_slots st @ [slot_entry (ap_slot_idx st) x]" "ap_slot_idx ?st = ap_slot_idx st + 1"
    "ap_success ?st \<longleftrightarrow> ap_success st \<and> tt_installs env (ap_slot_idx st) x" "keeps st ?st"
    "workload_to_cbs_keys (ap_node ?st) = workload_to_cbs_keys (ap_node st)"
    "\<exists>s'. n_bpf (ap_node ?st) = Some s' \<and> cbs_map s' = cbs_map s
      \<and> tt_table_map s' = (if room_slot env (slot_key (ap_slot_idx st) x)
          then (tt_table_map s)(slot_key (ap_slot_idx st) x \<mapsto> slot_bpf x) else tt_table_map s)"
    by blast+
qed

lemma apply_cbs_entry_effect:
  assumes s: "n_bpf (ap_node st) = Some s"
  shows "ap_slots (apply_cbs_entry env li cpu st c) = ap_slots st"
    and "ap_slot_idx (apply_cbs_entry env li cpu st c) = ap_slot_idx st"
    and "ap_success (apply_cbs_entry env li cpu st c) \<longleftrightarrow> ap_success st \<and> cbs_installs env c"
    and "keeps st (apply_cbs_entry env li cpu st c)"
    and "workload_to_cbs_keys (ap_node (apply_cbs_entry env li cpu st c))
      = (if cbs_installs env c then map_modify [] (\<lambda>ks. ks @ [cbs_key c]) (cbs_workload_id c)
           (workload_to_cbs_keys (ap_node st)) else workload_to_cbs_keys (ap_node st))"
    and "\<exists>s'. n_bpf (ap_node (apply_cbs_entry env li cpu st c)) = Some s' \<and> tt_table_map s' = tt_table_map s
      \<and> cbs_map s' = (if cbs_installs env c
          then (cbs_map s)(cbs_key c \<mapsto> cbs_state (monotonic_now_ns env (cbs_key c)) c) else cbs_map s)"
proof -
  let ?pid = "find_pid_by_comm (env_proc env) (cbs_task_id c)"
  let ?st = "apply_cbs_entry env li cpu st c"
  have "ap_slots ?st = ap_slots st \<and> ap_slot_idx ?st = ap_slot_idx st
    \<and> (ap_success ?st \<longleftrightarrow> ap_success st \<and> cbs_installs env c) \<and> keeps st ?st
    \<and> workload_to_cbs_keys (ap_node ?st)
      = (if cbs_installs env c then map_modify [] (\<lambda>ks. ks @ [cbs_key c]) (cbs_workload_id c)
           (workload_to_cbs_keys (ap_node st)) else workload_to_cbs_keys (ap_node st))
    \<and> (\<exists>s'. n_bpf (ap_node ?st) = Some s' \<and> tt_table_map s' = tt_table_map s
      \<and> cbs_map s' = (if cbs_installs env c
          then (cbs_map s)(cbs_key c \<mapsto> cbs_state (monotonic_now_ns env (cbs_key c)) c) else cbs_map s))"
  proof (cases "?pid < 0")
    case True
    then show ?thesis
      using s by (simp add: apply_cbs_entry_def Let_def cbs_installs_def keeps_def)
  next
    case False
    obtain ok n1 where im: "install_meta env ?pid (cbs_meta li cpu c) (ap_node st) = (ok, n1)" by fastforce
    note e = install_meta_effect [OF s, of env ?pid "cbs_meta li cpu c", unfolded im, simplified]
    show ?thesis
    proof (cases ok)
      case True
      then show ?thesis
        using False e
        by (simp add: apply_cbs_entry_def Let_def im update_with_skel [OF e(2)] cbs_installs_def keeps_def)
    next
      case nok: False
      then show ?thesis
        using False e
        by (simp add: apply_cbs_entry_def Let_def im cbs_installs_def keeps_def)
    qed
  qed
  then show "ap_slots ?st = ap_slots st" "ap_slot_idx ?st = ap_slot_idx st"
    "ap_success ?st \<longleftrightarrow> ap_success st \<and> cbs_installs env c" "keeps st ?st"
    "workload_to_cbs_keys (ap_node ?st)
      = (if cbs_installs env c then map_modify [] (\<lambda>ks. ks @ [cbs_key c]) (cbs_workload_id c)
           (workload_to_cbs_keys (ap_node st)) else workload_to_cbs_keys (ap_node st))"
    "\<exists>s'. n_bpf (ap_node ?st) = Some s' \<and> tt_table_map s' = tt_table_map s
      \<and> cbs_map s' = (if cbs_installs env c
          then (cbs_map s)(cbs_key c \<mapsto> cbs_state (monotonic_now_ns env (cbs_key c)) c) else cbs_map s)"
    by blast+
qed

section \<open>A table as a list of items\<close>

text \<open>The nested loops over partitions and layers visit these items in this order.\<close>

datatype item = Slot_item int TtSlot | Cbs_item int u32 CbsConfig | Empty_cpuset string

definition layer_items :: "PartitionConfig \<Rightarrow> LayerConfig \<Rightarrow> item list" where
  "layer_items p l = map (Slot_item (layer_index l)) (tt_slots l)
     @ (if cpus (cpuset p) = [] \<and> cbs_entries l \<noteq> [] then [Empty_cpuset (partition_id p)] else [])
     @ map (Cbs_item (layer_index l) (case cpus (cpuset p) of [] \<Rightarrow> 0 | c # _ \<Rightarrow> c)) (cbs_entries l)"

definition items :: "HierarchicalScheduleTable \<Rightarrow> item list" where
  "items table = concat (map (\<lambda>p. concat (map (layer_items p) (layers p))) (partitions table))"

fun apply_item :: "node_env \<Rightarrow> apply_state \<Rightarrow> item \<Rightarrow> apply_state" where
  "apply_item env st (Slot_item li x) = apply_tt_slot env li st x"
| "apply_item env st (Cbs_item li cpu c) = apply_cbs_entry env li cpu st c"
| "apply_item env st (Empty_cpuset pid) = record_apply_error (''CBS partition has empty cpuset: '' @ pid) st"

fun slot_items :: "item list \<Rightarrow> TtSlot list" where
  "slot_items [] = []"
| "slot_items (Slot_item li x # its) = x # slot_items its"
| "slot_items (Cbs_item li cpu c # its) = slot_items its"
| "slot_items (Empty_cpuset pid # its) = slot_items its"

fun cbs_items :: "item list \<Rightarrow> CbsConfig list" where
  "cbs_items [] = []"
| "cbs_items (Slot_item li x # its) = cbs_items its"
| "cbs_items (Cbs_item li cpu c # its) = c # cbs_items its"
| "cbs_items (Empty_cpuset pid # its) = cbs_items its"

fun installs :: "node_env \<Rightarrow> u32 \<Rightarrow> item list \<Rightarrow> bool" where
  "installs env idx [] \<longleftrightarrow> True"
| "installs env idx (Slot_item li x # its) \<longleftrightarrow> tt_installs env idx x \<and> installs env (idx + 1) its"
| "installs env idx (Cbs_item li cpu c # its) \<longleftrightarrow> cbs_installs env c \<and> installs env idx its"
| "installs env idx (Empty_cpuset pid # its) \<longleftrightarrow> False"

fun numbered :: "u32 \<Rightarrow> TtSlot list \<Rightarrow> (u32 \<times> TtSlot) list" where
  "numbered idx [] = []"
| "numbered idx (x # xs) = (idx, x) # numbered (idx + 1) xs"

lemma foldl_concat_map: "foldl (\<lambda>a x. foldl f a (g x)) a xs = foldl f a (concat (map g xs))"
  by (induction xs arbitrary: a) simp_all

lemma apply_layer_items: "apply_layer env p st l = foldl (apply_item env) st (layer_items p l)"
  by (simp add: apply_layer_def layer_items_def Let_def foldl_map)

lemma apply_table_items:
  "apply_table env table n = foldl (apply_item env)
     \<lparr>ap_node = n\<lparr>n_faults := update_current_limits (table_limits table) (n_faults n)\<rparr>,
      ap_slots = [], ap_slot_idx = 0, ap_success = True, ap_error = []\<rparr> (items table)"
proof -
  have "apply_partition env = (\<lambda>st p. foldl (apply_item env) st (concat (map (layer_items p) (layers p))))"
    by (rule ext, rule ext) (simp add: apply_partition_def apply_layer_items [abs_def] foldl_concat_map)
  then show ?thesis by (simp add: apply_table_def items_def foldl_concat_map)
qed

lemma apply_items_report:
  assumes "n_bpf (ap_node st) \<noteq> None"
  shows "ap_slots (foldl (apply_item env) st its)
      = ap_slots st @ map (\<lambda>(i, x). slot_entry i x) (numbered (ap_slot_idx st) (slot_items its))"
    and "ap_success (foldl (apply_item env) st its) \<longleftrightarrow> ap_success st \<and> installs env (ap_slot_idx st) its"
    and "keeps st (foldl (apply_item env) st its)"
proof -
  have "ap_slots (foldl (apply_item env) st its)
      = ap_slots st @ map (\<lambda>(i, x). slot_entry i x) (numbered (ap_slot_idx st) (slot_items its))
    \<and> (ap_success (foldl (apply_item env) st its) \<longleftrightarrow> ap_success st \<and> installs env (ap_slot_idx st) its)
    \<and> keeps st (foldl (apply_item env) st its)"
    using assms
  proof (induction its arbitrary: st)
    case Nil
    then show ?case by (simp add: keeps_def)
  next
    case (Cons it its)
    then obtain s where s: "n_bpf (ap_node st) = Some s" by auto
    show ?case
    proof (cases it)
      case (Slot_item li x)
      note e = apply_tt_slot_effect [OF s, of env li x]
      have "n_bpf (ap_node (apply_tt_slot env li st x)) \<noteq> None" using e(4) by (simp add: keeps_def)
      from Cons.IH [OF this] e show ?thesis by (auto simp: Slot_item intro: keeps_trans)
    next
      case (Cbs_item li cpu c)
      note e = apply_cbs_entry_effect [OF s, of env li cpu c]
      have "n_bpf (ap_node (apply_cbs_entry env li cpu st c)) \<noteq> None" using e(4) by (simp add: keeps_def)
      from Cons.IH [OF this] e show ?thesis by (auto simp: Cbs_item intro: keeps_trans)
    next
      case (Empty_cpuset pid)
      let ?st = "record_apply_error (''CBS partition has empty cpuset: '' @ pid) st"
      have "n_bpf (ap_node ?st) \<noteq> None" "keeps st ?st" using s by (simp_all add: keeps_def)
      with Cons.IH [of ?st] show ?thesis by (auto simp: Empty_cpuset intro: keeps_trans)
    qed
  qed
  then show "ap_slots (foldl (apply_item env) st its)
      = ap_slots st @ map (\<lambda>(i, x). slot_entry i x) (numbered (ap_slot_idx st) (slot_items its))"
    "ap_success (foldl (apply_item env) st its) \<longleftrightarrow> ap_success st \<and> installs env (ap_slot_idx st) its"
    "keeps st (foldl (apply_item env) st its)"
    by blast+
qed

lemma evict_missing_frame:
  "n_client (evict_missing W n wp) = n_client n" "workload_to_cbs_keys (evict_missing W n wp) = workload_to_cbs_keys n"
  "workload_to_slots (evict_missing W n wp) = workload_to_slots n"
  "n_bpf (evict_missing W n wp) = (if fst wp \<in> W then n_bpf n
     else map_option (without_metas (word_of_int ` set (snd wp))) (n_bpf n))"
  by (auto simp: evict_missing_def Let_def drop_all_frame n_bpf_evict_pids split: option.split)

lemma evict_missing_bpf:
  "\<exists>ps. n_bpf (foldl (evict_missing W) n wps) = map_option (without_metas ps) (n_bpf n)"
proof (induction wps arbitrary: n)
  case Nil
  show ?case by (rule exI [of _ "{}"]) (simp add: without_none)
next
  case (Cons wp wps)
  from Cons.IH [of "evict_missing W n wp"] obtain ps where
    ps: "n_bpf (foldl (evict_missing W) (evict_missing W n wp) wps) = map_option (without_metas ps) (n_bpf (evict_missing W n wp))"
    by blast
  have "without_metas ps (without_metas qs t) = without_metas (ps \<union> qs) t" for qs t
    by (simp add: without_metas_def Int_commute)
  then show ?case
    using ps by (cases "n_bpf n"; cases "fst wp \<in> W") (auto simp: evict_missing_frame)
qed

definition tracked_all :: "('k \<times> 'a list) list \<Rightarrow> 'a set" where
  "tracked_all m = set (concat (map snd m))"

lemma drop_old_table_effect:
  "n_client (drop_old_table table n) = n_client n"
  "workload_to_cbs_keys (drop_old_table table n) = []"
  "\<exists>ps. n_bpf (drop_old_table table n) = map_option (\<lambda>s. without_cbs (tracked_all (workload_to_cbs_keys n))
     (without_slots (tracked_all (workload_to_slots n)) (without_metas ps s))) (n_bpf n)"
proof -
  let ?n1 = "foldl (evict_missing (table_workloads table)) n (workload_to_pids n)"
  have f: "n_client ?n1 = n_client n" "workload_to_cbs_keys ?n1 = workload_to_cbs_keys n"
    "workload_to_slots ?n1 = workload_to_slots n"
    by (rule foldl_frame, rule evict_missing_frame)+
  show "n_client (drop_old_table table n) = n_client n" "workload_to_cbs_keys (drop_old_table table n) = []"
    by (simp_all add: drop_old_table_def Let_def foldl_concat_map drop_all_frame f)
  obtain ps where "n_bpf ?n1 = map_option (without_metas ps) (n_bpf n)" using evict_missing_bpf by blast
  then show "\<exists>ps. n_bpf (drop_old_table table n) = map_option (\<lambda>s. without_cbs (tracked_all (workload_to_cbs_keys n))
     (without_slots (tracked_all (workload_to_slots n)) (without_metas ps s))) (n_bpf n)"
    by (cases "n_bpf n") (auto simp: drop_old_table_def Let_def foldl_concat_map n_bpf_drop_cbs n_bpf_drop_slots
        drop_all_frame f tracked_all_def)
qed

lemma table_callback_report:
  assumes "n_bpf n \<noteq> None" and "ncl_connected (n_client n)"
  shows "\<exists>error. ncl_written (n_client (table_callback env table n)) = ncl_written (n_client n)
      @ [\<lparr>ev_node_id = ncl_node_id (n_client n),
          ev_event = Applied \<lparr>ta_table_id = table_id table, ta_success = installs env 0 (items table), ta_error = error\<rparr>\<rparr>]
    \<and> slot_table (n_timer (table_callback env table n))
      = std_sort by_offset (map (\<lambda>(i, x). slot_entry i x) (numbered 0 (slot_items (items table))))"
proof -
  let ?n1 = "drop_old_table table n"
  let ?n2 = "?n1\<lparr>n_faults := update_current_limits (table_limits table) (n_faults ?n1)\<rparr>"
  let ?st0 = "\<lparr>ap_node = ?n2, ap_slots = [], ap_slot_idx = 0, ap_success = True, ap_error = []\<rparr>"
  have "n_bpf ?n1 \<noteq> None" using assms(1) drop_old_table_effect(3) [of table n] by auto
  then have "n_bpf (ap_node ?st0) \<noteq> None" by simp
  note r = apply_items_report [OF this, of env "items table"]
  have "n_client (ap_node (apply_table env table ?n1)) = n_client n"
    using r(3) drop_old_table_effect(1) [of table n] by (simp add: apply_table_items keeps_def)
  moreover have "ap_success (apply_table env table ?n1) = installs env 0 (items table)"
    using r(2) by (simp add: apply_table_items)
  moreover have "ap_slots (apply_table env table ?n1) = map (\<lambda>(i, x). slot_entry i x) (numbered 0 (slot_items (items table)))"
    using r(1) by (simp add: apply_table_items)
  ultimately show ?thesis
    using assms(2)
    by (auto simp: table_callback_def Let_def send_table_applied_def write_event_def set_schedule_table_def
        split: option.split prod.split)
qed

text \<open>C17: A node tells the truth about a table. While it is connected and its programs are loaded, it
  answers a schedule table with exactly one event. That event reports success exactly when every task of
  the table is a running process, every entry found room in the kernel's maps and no partition with
  servers lacks a CPU. In either case the timer gets all slots of the table, numbered in order.\<close>

theorem table_applied_truthful:
  assumes "n_bpf n \<noteq> None" and "ncl_connected (n_client n)"
  shows "\<exists>error. ncl_written (n_client (table_callback env table n)) = ncl_written (n_client n)
      @ [\<lparr>ev_node_id = ncl_node_id (n_client n),
          ev_event = Applied \<lparr>ta_table_id = table_id table, ta_success = installs env 0 (items table), ta_error = error\<rparr>\<rparr>]
    \<and> slot_table (n_timer (table_callback env table n))
      = std_sort by_offset (map (\<lambda>(i, x). slot_entry i x) (numbered 0 (slot_items (items table))))"
  using assms by (rule table_callback_report)

section \<open>Servers\<close>

definition cbs_tracked :: "Node \<Rightarrow> bool" where
  "cbs_tracked n \<longleftrightarrow> map_ok (workload_to_cbs_keys n) \<and>
     (\<forall>s. n_bpf n = Some s \<longrightarrow> dom (cbs_map s) \<subseteq> tracked_all (workload_to_cbs_keys n))"

lemma tracked_all_iff: "x \<in> tracked_all m \<longleftrightarrow> (\<exists>v ks. (v, ks) \<in> set m \<and> x \<in> set ks)"
  by (force simp: tracked_all_def)

lemma map_at_tracked:
  assumes "map_ok m"
  shows "x \<in> set (map_at [] w m) \<longleftrightarrow> (\<exists>ks. (w, ks) \<in> set m \<and> x \<in> set ks)"
proof (cases "map_find w m")
  case None
  then have "map_at [] w m = []" "w \<notin> fst ` set m" by (simp_all add: map_at_def map_find_None [symmetric])
  then show ?thesis by force
next
  case (Some ks)
  then have "map_at [] w m = ks" by (simp add: map_at_def)
  moreover have "(w, ks') \<in> set m \<longleftrightarrow> ks' = ks" for ks'
    using map_find_iff [OF assms, of w ks'] Some by auto
  ultimately show ?thesis by simp
qed

lemma tracked_all_modify:
  assumes "map_ok m"
  shows "tracked_all (map_modify [] (\<lambda>ks. ks @ [k]) w m) = insert k (tracked_all m)"
proof (rule set_eqI)
  fix x
  have "x \<in> tracked_all (map_modify [] (\<lambda>ks. ks @ [k]) w m)
      \<longleftrightarrow> x = k \<or> x \<in> set (map_at [] w m) \<or> (\<exists>v ks. (v, ks) \<in> set m \<and> v \<noteq> w \<and> x \<in> set ks)"
    unfolding tracked_all_iff map_modify_def set_map_put [OF assms]
    by (auto; intro exI [of _ w] exI [of _ "map_at [] w m @ [k]"]; simp)
  then show "x \<in> tracked_all (map_modify [] (\<lambda>ks. ks @ [k]) w m) \<longleftrightarrow> x \<in> insert k (tracked_all m)"
    unfolding insert_iff map_at_tracked [OF assms] tracked_all_iff by blast
qed

lemma tracked_all_erase:
  assumes "map_ok m"
  shows "tracked_all m \<subseteq> tracked_all (map_erase w m) \<union> tracked_at w m"
proof
  fix x
  assume "x \<in> tracked_all m"
  then obtain v ks where m: "(v, ks) \<in> set m" "x \<in> set ks" by (force simp: tracked_all_def)
  show "x \<in> tracked_all (map_erase w m) \<union> tracked_at w m"
  proof (cases "v = w")
    case True
    then have "map_find w m = Some ks" using m(1) map_find_iff [OF assms] by blast
    then show ?thesis using m(2) by (simp add: tracked_at_def)
  next
    case False
    then have "(v, ks) \<in> set (map_erase w m)" using m(1) by (simp add: map_erase_def)
    then show ?thesis using m(2) by (force simp: tracked_all_def)
  qed
qed

lemma apply_items_servers:
  assumes "n_bpf (ap_node st) = Some s" and "cbs_tracked (ap_node st)" and "dom (cbs_map s) \<subseteq> D"
  shows "cbs_tracked (ap_node (foldl (apply_item env) st its)) \<and>
    (\<exists>s'. n_bpf (ap_node (foldl (apply_item env) st its)) = Some s' \<and>
       dom (cbs_map s') \<subseteq> D \<union> cbs_key ` set (cbs_items its))"
  using assms
proof (induction its arbitrary: st s D)
  case Nil
  then show ?case by auto
next
  case (Cons it its)
  show ?case
  proof (cases it)
    case (Slot_item li x)
    note e = apply_tt_slot_effect [OF Cons.prems(1), of env li x]
    obtain s' where "n_bpf (ap_node (apply_tt_slot env li st x)) = Some s'" "cbs_map s' = cbs_map s" using e(6) by blast
    then show ?thesis
      using Cons.IH [of "apply_tt_slot env li st x" s' D] Cons.prems e(5) by (simp add: Slot_item cbs_tracked_def)
  next
    case (Cbs_item li cpu c)
    note e = apply_cbs_entry_effect [OF Cons.prems(1), of env li cpu c]
    let ?st = "apply_cbs_entry env li cpu st c"
    obtain s' where s': "n_bpf (ap_node ?st) = Some s'" "cbs_map s' = (if cbs_installs env c
          then (cbs_map s)(cbs_key c \<mapsto> cbs_state (monotonic_now_ns env (cbs_key c)) c) else cbs_map s)"
      using e(6) by blast
    have "cbs_tracked (ap_node ?st)"
      using Cons.prems(1,2) s' e(5) by (auto simp: cbs_tracked_def tracked_all_modify map_ok_modify)
    moreover have "dom (cbs_map s') \<subseteq> insert (cbs_key c) D" using s'(2) Cons.prems(3) by auto
    ultimately show ?thesis
      using Cons.IH [of ?st s' "insert (cbs_key c) D"] s'(1) by (simp add: Cbs_item)
  next
    case (Empty_cpuset pid)
    then show ?thesis using Cons.IH [of _ s D] Cons.prems by simp
  qed
qed

text \<open>C18: No server outlives its table. If every server in the kernel is tracked, then after a new table
  the kernel has no servers but those of that table, and all of them are tracked again, even when parts of
  the table could not be installed. Stopping a workload also keeps all servers tracked.\<close>

theorem no_stale_servers:
  assumes tracked: "cbs_tracked n" and s: "n_bpf n = Some s"
  shows "cbs_tracked (table_callback env table n)
    \<and> (\<exists>s'. n_bpf (table_callback env table n) = Some s' \<and>
         dom (cbs_map s') \<subseteq> cbs_key ` set (cbs_items (items table)))
    \<and> cbs_tracked (evict_workload wid n)"
proof -
  let ?n1 = "drop_old_table table n"
  let ?n2 = "?n1\<lparr>n_faults := update_current_limits (table_limits table) (n_faults ?n1)\<rparr>"
  let ?st0 = "\<lparr>ap_node = ?n2, ap_slots = [], ap_slot_idx = 0, ap_success = True, ap_error = []\<rparr>"
  obtain ps where b: "n_bpf ?n1 = map_option (\<lambda>s. without_cbs (tracked_all (workload_to_cbs_keys n))
      (without_slots (tracked_all (workload_to_slots n)) (without_metas ps s))) (n_bpf n)"
    using drop_old_table_effect(3) by blast
  let ?s = "without_cbs (tracked_all (workload_to_cbs_keys n))
      (without_slots (tracked_all (workload_to_slots n)) (without_metas ps s))"
  have tc: "n_bpf (table_callback env table n) = n_bpf (ap_node (foldl (apply_item env) ?st0 (items table)))"
    "workload_to_cbs_keys (table_callback env table n)
       = workload_to_cbs_keys (ap_node (foldl (apply_item env) ?st0 (items table)))"
    by (simp_all add: table_callback_def Let_def apply_table_items)
  have st0: "n_bpf (ap_node ?st0) = Some ?s" using b s by simp
  have empty: "dom (cbs_map ?s) \<subseteq> {}"
    using tracked s by (auto simp: cbs_tracked_def without_cbs_def without_slots_def without_metas_def)
  then have "cbs_tracked (ap_node ?st0)"
    using st0 by (auto simp: cbs_tracked_def drop_old_table_effect)
  note new = apply_items_servers [OF st0 this empty, of env "items table"]
  have "dom (cbs_map s) \<subseteq> tracked_all (workload_to_cbs_keys n)" "map_ok (workload_to_cbs_keys n)"
    using tracked s by (auto simp: cbs_tracked_def)
  then have "cbs_tracked (evict_workload wid n)"
    using s tracked_all_erase [of "workload_to_cbs_keys n" wid]
    by (auto simp: cbs_tracked_def evict_workload_def evict_effects map_ok_erase without_cbs_def
        without_slots_def without_metas_def)
  with new show ?thesis by (auto simp: cbs_tracked_def tc)
qed

section \<open>Slots\<close>

definition put_all :: "('k \<rightharpoonup> 'v) \<Rightarrow> ('k \<times> 'v) list \<Rightarrow> ('k \<rightharpoonup> 'v)" where
  "put_all m kvs = foldl (\<lambda>m kv. m(fst kv \<mapsto> snd kv)) m kvs"

lemma put_all_other: "k \<notin> fst ` set kvs \<Longrightarrow> put_all m kvs k = m k"
  unfolding put_all_def by (induction kvs arbitrary: m) auto

lemma put_all_mem: "distinct (map fst kvs) \<Longrightarrow> (k, v) \<in> set kvs \<Longrightarrow> put_all m kvs k = Some v"
proof (induction kvs arbitrary: m)
  case (Cons kv kvs)
  show ?case
  proof (cases "kv = (k, v)")
    case True
    with Cons.prems(1) show ?thesis
      using put_all_other [of k kvs "m(k \<mapsto> v)"] by (simp add: put_all_def)
  next
    case False
    with Cons show ?thesis by (simp add: put_all_def)
  qed
qed simp

definition slot_puts :: "u32 \<Rightarrow> TtSlot list \<Rightarrow> (TtSlotKey \<times> TtSlotBpf) list" where
  "slot_puts idx xs = map (\<lambda>(i, x). (slot_key i x, slot_bpf x)) (numbered idx xs)"

lemma slot_puts_Cons: "slot_puts idx (x # xs) = (slot_key idx x, slot_bpf x) # slot_puts (idx + 1) xs"
  by (simp add: slot_puts_def)

lemma put_all_Cons: "put_all m (kv # kvs) = put_all (m(fst kv \<mapsto> snd kv)) kvs"
  by (simp add: put_all_def)

lemma apply_items_slots:
  assumes "n_bpf (ap_node st) = Some s" and "installs env (ap_slot_idx st) its"
  shows "\<exists>s'. n_bpf (ap_node (foldl (apply_item env) st its)) = Some s' \<and>
    tt_table_map s' = put_all (tt_table_map s) (slot_puts (ap_slot_idx st) (slot_items its))"
  using assms
proof (induction its arbitrary: st s)
  case Nil
  then show ?case by (simp add: slot_puts_def put_all_def)
next
  case (Cons it its)
  show ?case
  proof (cases it)
    case (Slot_item li x)
    note e = apply_tt_slot_effect [OF Cons.prems(1), of env li x]
    obtain s' where s': "n_bpf (ap_node (apply_tt_slot env li st x)) = Some s'"
      "tt_table_map s' = (tt_table_map s)(slot_key (ap_slot_idx st) x \<mapsto> slot_bpf x)"
      using e(6) Cons.prems(2) by (auto simp: Slot_item tt_installs_def)
    have "put_all (tt_table_map s) (slot_puts (ap_slot_idx st) (x # slot_items its))
        = put_all (tt_table_map s') (slot_puts (ap_slot_idx st + 1) (slot_items its))"
      by (simp only: slot_puts_Cons put_all_Cons s'(2) fst_conv snd_conv)
    then show ?thesis
      using Cons.IH [OF s'(1)] Cons.prems(2) e(2) by (simp add: Slot_item)
  next
    case (Cbs_item li cpu c)
    note e = apply_cbs_entry_effect [OF Cons.prems(1), of env li cpu c]
    obtain s' where s': "n_bpf (ap_node (apply_cbs_entry env li cpu st c)) = Some s'" "tt_table_map s' = tt_table_map s"
      using e(6) by blast
    then show ?thesis
      using Cons.IH [OF s'(1)] Cons.prems(2) e(2) by (simp add: Cbs_item)
  next
    case (Empty_cpuset pid)
    then show ?thesis using Cons.prems(2) by simp
  qed
qed

lemma numbered_fst: "map fst (numbered idx xs) = map (\<lambda>k. idx + of_nat k) [0..<length xs]"
proof (induction xs arbitrary: idx)
  case (Cons x xs)
  have "map (\<lambda>k. idx + of_nat k) [0..<Suc (length xs)] = idx # map (\<lambda>k. idx + 1 + of_nat k) [0..<length xs]"
    by (simp add: upt_conv_Cons map_Suc_upt [symmetric] add.assoc del: upt_Suc)
  with Cons show ?case by simp
qed simp

lemma slot_puts_distinct:
  assumes "length xs < 2 ^ 32"
  shows "distinct (map fst (slot_puts idx xs))"
proof -
  have "inj_on (\<lambda>k. idx + of_nat k :: u32) {0..<length xs}"
  proof (rule inj_onI)
    fix a b
    assume ab: "a \<in> {0..<length xs}" "b \<in> {0..<length xs}" "idx + of_nat a = (idx + of_nat b :: u32)"
    then have "unat (of_nat a :: u32) = unat (of_nat b :: u32)" by simp
    then show "a = b" using ab assms by (simp add: unat_of_nat)
  qed
  then have "distinct (map fst (numbered idx xs))" by (simp add: numbered_fst distinct_map)
  then have "distinct (map (key_slot_idx \<circ> fst) (slot_puts idx xs))"
    by (simp add: slot_puts_def comp_def split_beta slot_key_def)
  then show ?thesis by (auto simp: distinct_map inj_on_def)
qed

lemma table_callback_slots:
  assumes s: "n_bpf n = Some s" and ok: "installs env 0 (items table)"
    and len: "length (slot_items (items table)) < 2 ^ 32"
  shows "\<exists>s'. n_bpf (table_callback env table n) = Some s' \<and>
    (\<forall>(i, x)\<in>set (numbered 0 (slot_items (items table))). tt_table_map s' (slot_key i x) = Some (slot_bpf x))"
proof -
  let ?n1 = "drop_old_table table n"
  let ?n2 = "?n1\<lparr>n_faults := update_current_limits (table_limits table) (n_faults ?n1)\<rparr>"
  let ?st0 = "\<lparr>ap_node = ?n2, ap_slots = [], ap_slot_idx = 0, ap_success = True, ap_error = []\<rparr>"
  obtain s1 where "n_bpf (ap_node ?st0) = Some s1" using s drop_old_table_effect(3) [of table n] by auto
  from apply_items_slots [OF this, of env "items table"] ok obtain s' where
    s': "n_bpf (table_callback env table n) = Some s'"
    "tt_table_map s' = put_all (tt_table_map s1) (slot_puts 0 (slot_items (items table)))"
    by (auto simp: table_callback_def Let_def apply_table_items)
  have "tt_table_map s' (slot_key i x) = Some (slot_bpf x)" if "(i, x) \<in> set (numbered 0 (slot_items (items table)))" for i x
    unfolding s'(2)
    by (rule put_all_mem [OF slot_puts_distinct [OF len]]) (use that in \<open>force simp: slot_puts_def\<close>)
  with s'(1) show ?thesis by auto
qed

lemma slot_items_table: "slot_items (items table) = concat (map (\<lambda>p. concat (map tt_slots (layers p))) (partitions table))"
proof -
  have append: "slot_items (xs @ ys) = slot_items xs @ slot_items ys" for xs ys
    by (induction xs rule: slot_items.induct) simp_all
  have cat: "slot_items (concat xss) = concat (map slot_items xss)" for xss
    by (induction xss) (simp_all add: append)
  have "slot_items (map (Slot_item li) xs) = xs" for li xs by (induction xs) simp_all
  moreover have "slot_items (map (Cbs_item li cpu) cs) = []" for li cpu cs by (induction cs) simp_all
  ultimately have "slot_items (layer_items p l) = tt_slots l" for p l
    by (simp add: layer_items_def append)
  then show ?thesis by (simp add: items_def cat comp_def)
qed

lemma numbered_nth: "i < length xs \<Longrightarrow> (idx + of_nat i, xs ! i) \<in> set (numbered idx xs)"
proof (induction xs arbitrary: idx i)
  case (Cons x xs)
  show ?case
  proof (cases i)
    case (Suc j)
    with Cons.IH [of j "idx + 1"] Cons.prems show ?thesis by (simp add: ac_simps)
  qed simp
qed simp

text \<open>C16: A table that is reported as applied is the table the kernel has. Let a connected node with loaded
  programs answer a schedule table with a report of success. Then every slot of the table, in the order of
  its partitions and layers, is in the kernel's slot map under its CPU and its number in that order, and
  the kernel's slot has the hashes, the offset, the duration, the deadline and the CPU of the table's
  slot. There are fewer than \<open>2^32\<close> slots.\<close>

theorem applied_slots_in_kernel:
  assumes s: "n_bpf n = Some s" and conn: "ncl_connected (n_client n)"
    and slots: "slots = concat (map (\<lambda>p. concat (map tt_slots (layers p))) (partitions table))" "length slots < 2 ^ 32"
    and reported: "last (ncl_written (n_client (table_callback env table n))) = \<lparr>ev_node_id = nd, ev_event = Applied a\<rparr>"
      "ta_success a"
  shows "\<exists>s'. n_bpf (table_callback env table n) = Some s' \<and> (\<forall>i<length slots.
    tt_table_map s' \<lparr>key_cpu = tt_cpu (slots ! i), key_slot_idx = of_nat i\<rparr> = Some
      \<lparr>ts_workload_id_hash = tt_workload_id_hash (slots ! i), ts_task_id_hash = tt_task_id_hash (slots ! i),
       ts_offset_us = tt_offset_us (slots ! i), ts_duration_us = tt_duration_us (slots ! i),
       ts_deadline_us = tt_deadline_us (slots ! i), ts_cpu = tt_cpu (slots ! i)\<rparr>)"
proof -
  have "installs env 0 (items table)"
    using table_callback_report [OF _ conn, of env table] s reported by auto
  moreover have eq: "slot_items (items table) = slots" using slots(1) by (simp add: slot_items_table)
  ultimately obtain s' where s': "n_bpf (table_callback env table n) = Some s'"
    "\<forall>(i, x)\<in>set (numbered 0 slots). tt_table_map s' (slot_key i x) = Some (slot_bpf x)"
    using table_callback_slots [OF s, of env table] slots(2) by auto
  have "tt_table_map s' (slot_key (of_nat i) (slots ! i)) = Some (slot_bpf (slots ! i))" if "i < length slots" for i
    using s'(2) numbered_nth [OF that, of 0] by auto
  with s'(1) show ?thesis by (auto simp: slot_key_def slot_bpf_def)
qed

text \<open>
  A slot whose task is not running is written to the kernel's slot map but not tracked, so neither an
  eviction nor the next table deletes it.
\<close>

theorem missing_task_slot_untracked:
  assumes "n_bpf (ap_node st) = Some s" and "find_pid_by_comm (env_proc env) (tt_task_id x) < 0"
    and "room_slot env (slot_key (ap_slot_idx st) x)"
  shows "\<exists>s'. n_bpf (ap_node (apply_tt_slot env li st x)) = Some s'
    \<and> tt_table_map s' (slot_key (ap_slot_idx st) x) = Some (slot_bpf x)"
    and "workload_to_slots (ap_node (apply_tt_slot env li st x)) = workload_to_slots (ap_node st)"
proof -
  show "\<exists>s'. n_bpf (ap_node (apply_tt_slot env li st x)) = Some s'
      \<and> tt_table_map s' (slot_key (ap_slot_idx st) x) = Some (slot_bpf x)"
    using apply_tt_slot_effect(6) [OF assms(1), of env li x] assms(3) by auto
  show "workload_to_slots (ap_node (apply_tt_slot env li st x)) = workload_to_slots (ap_node st)"
    using assms by (simp add: apply_tt_slot_def Let_def update_with_skel)
qed

section \<open>An example\<close>

definition demo_env :: node_env where
  "demo_env = \<lparr>env_proc = [(''self'', None), (''10'', Some ''task_1'' ), (''11'', Some ''srv'')],
     room_meta = (\<lambda>_. True), room_slot = (\<lambda>_. True), room_cbs = (\<lambda>_. True), monotonic_now_ns = (\<lambda>_. 1000)\<rparr>"

definition demo_slot :: TtSlot where
  "demo_slot = \<lparr>tt_workload_id = ''w'', tt_task_id = ''task_1'', tt_offset_us = 0, tt_duration_us = 100,
     tt_deadline_us = 900, tt_cpu = 2, tt_workload_id_hash = 5, tt_task_id_hash = 7, tt_current_limit = 1\<rparr>"

definition demo_server :: CbsConfig where
  "demo_server = \<lparr>cbs_workload_id = ''w'', cbs_task_id = ''srv'', cbs_budget_us = 200, cbs_period_us = 1000,
     cbs_deadline_us = 1000, cbs_workload_id_hash = 5, cbs_task_id_hash = 8, cbs_current_limit = 0\<rparr>"

definition demo_table :: HierarchicalScheduleTable where
  "demo_table = \<lparr>table_id = ''t'', table_node_id = ''n'', hyperperiod_us = 1000, epoch_ns = 1,
     partitions = [\<lparr>partition_id = ''p'', cpuset = \<lparr>cpus = [2], isolated = True\<rparr>,
       layers = [\<lparr>layer_index = 0, layer_model = TIME_TRIGGERED, tt_slots = [demo_slot],
                 cbs_entries = [demo_server]\<rparr>]\<rparr>]\<rparr>"

definition demo_node :: Node where
  "demo_node = (Node_init (BpfLoader_init\<lparr>skel := Some (put_cbs 99 demo_cbs (bpf_loaded 12))\<rparr>)
      (TimerMaster_init None) ((NodeClient_init ''o:1'' ''n'' None)\<lparr>ncl_connected := True\<rparr>))
      \<lparr>workload_to_pids := [(''v'', [20])], workload_to_hash := [(''v'', 3)], workload_to_cbs_keys := [(''v'', [99])]\<rparr>"

lemma demo_node_facts:
  "n_bpf demo_node = Some (put_cbs 99 demo_cbs (bpf_loaded 12))" "ncl_connected (n_client demo_node)"
  "map_find ''v'' (workload_to_hash demo_node) = Some 3" "workload_to_cbs_keys demo_node = [(''v'', [99])]"
  "ncl_written (n_client demo_node) = []"
  by (simp_all add: demo_node_def Node_init_def NodeClient_init_def map_find_def)

lemma demo_tracked: "cbs_tracked demo_node"
  by (simp add: cbs_tracked_def demo_node_facts map_ok_def tracked_all_def bpf_loaded_def)

lemma demo_items: "items demo_table = [Slot_item 0 demo_slot, Cbs_item 0 2 demo_server]"
  by (simp add: items_def demo_table_def layer_items_def)

lemma demo_pids:
  "find_pid_by_comm (env_proc demo_env) ''task_1'' = 10" "find_pid_by_comm (env_proc demo_env) ''srv'' = 11"
  by code_simp+

lemma demo_installs: "installs demo_env 0 (items demo_table)"
  using demo_pids by (simp add: demo_items tt_installs_def cbs_installs_def demo_slot_def demo_server_def demo_env_def)

theorem table_applied_truthful_witness:
  "\<exists>error. map ev_event (ncl_written (n_client (table_callback demo_env demo_table demo_node)))
     = [Applied \<lparr>ta_table_id = ''t'', ta_success = True, ta_error = error\<rparr>]"
proof -
  have "table_id demo_table = ''t''" by (simp add: demo_table_def)
  then show ?thesis
    using table_applied_truthful [of demo_node demo_env demo_table] demo_node_facts demo_installs by auto
qed

theorem no_stale_servers_witness:
  "\<exists>s. n_bpf (table_callback demo_env demo_table demo_node) = Some s \<and> dom (cbs_map s) \<subseteq> {cbs_key demo_server}"
  using no_stale_servers [OF demo_tracked demo_node_facts(1), of demo_env demo_table "''v''"] by (auto simp: demo_items)

theorem applied_slots_in_kernel_witness:
  "\<exists>s slot. n_bpf (table_callback demo_env demo_table demo_node) = Some s
    \<and> tt_table_map s \<lparr>key_cpu = 2, key_slot_idx = 0\<rparr> = Some slot \<and> ts_duration_us slot = 100 \<and> ts_deadline_us slot = 900"
proof -
  let ?slots = "concat (map (\<lambda>p. concat (map tt_slots (layers p))) (partitions demo_table))"
  have slots: "?slots = [demo_slot]" by (simp add: demo_table_def)
  obtain error where "ncl_written (n_client (table_callback demo_env demo_table demo_node)) = [] @
      [\<lparr>ev_node_id = ncl_node_id (n_client demo_node), ev_event = Applied \<lparr>ta_table_id = table_id demo_table,
        ta_success = installs demo_env 0 (items demo_table), ta_error = error\<rparr>\<rparr>]"
    using table_callback_report [of demo_node demo_env demo_table] demo_node_facts by auto
  then have "last (ncl_written (n_client (table_callback demo_env demo_table demo_node)))
      = \<lparr>ev_node_id = ncl_node_id (n_client demo_node), ev_event = Applied \<lparr>ta_table_id = table_id demo_table,
        ta_success = True, ta_error = error\<rparr>\<rparr>"
    using demo_installs by simp
  from applied_slots_in_kernel [OF demo_node_facts(1,2) refl _ this] slots
  show ?thesis by (fastforce simp: demo_slot_def)
qed

theorem evict_workload_complete_witness:
  "map_find ''v'' (workload_to_pids (evict_workload ''v'' demo_node)) = None
    \<and> n_bpf (evict_workload ''v'' demo_node) \<noteq> None"
  using evict_workload_complete [OF demo_node_facts(1,3), of "''v''"] by simp

end
