(* ===== verification/System.thy ===== *)
theory System
  imports Replay Node_Apply
begin

text \<open>
  The orchestrator and a node together: what an admitted workload or a stop request becomes in the
  kernel of a node. The orchestrator's side is the run of \<open>Replay\<close>, the node's side the handling of the
  commands written to its stream.
\<close>

section \<open>The service in a run of the main program\<close>

text \<open>The service of a run of the main program has itself run, so the two kinds of runs speak of the same states.\<close>

lemma service_run_add:
  assumes "service_run b sinfo" and "AddSchedInfo clk clk' request sinfo = (res, sinfo')"
  shows "\<exists>b. service_run b sinfo'"
proof -
  have "res = 0 \<or> res = -1" using assms(2) by (cases rule: AddSchedInfo_cases [of request clk clk' sinfo]) auto
  then show ?thesis
  proof
    assume "res = 0"
    with assms have "service_run True sinfo'" using service_run.added [of b sinfo] by simp
    then show ?thesis ..
  next
    assume res: "res = -1"
    show ?thesis
    proof (cases "workload_tasks sinfo' = workload_tasks sinfo")
      case True
      with assms res have "service_run b sinfo'" using service_run.rejected [of b sinfo] by simp
      then show ?thesis ..
    next
      case False
      from service_run.dropped [OF assms(1) assms(2) [unfolded res] False] show ?thesis ..
    qed
  qed
qed

lemma service_run_remove:
  assumes "service_run b sinfo" and "RemoveWorkload clk w trigger_push sinfo = (res, sinfo')"
  shows "\<exists>b. service_run b sinfo'"
proof (cases res)
  case (Inl e)
  with assms service_run.thrown show ?thesis by blast
next
  case (Inr x)
  obtain ok resolved where "x = (ok, resolved)" by (cases x)
  with Inr assms have rm: "service_run b sinfo" "RemoveWorkload clk w trigger_push sinfo = (Inr (ok, resolved), sinfo')" by simp_all
  show ?thesis
  proof (cases ok)
    case True
    then have "service_run True sinfo'" using service_run.removed [OF rm(1)] rm(2) by simp
    then show ?thesis ..
  next
    case False
    then show ?thesis
      using rm service_run.unknown [of b sinfo clk w trigger_push sinfo'] service_run.failed [of b sinfo clk w trigger_push _ sinfo']
      by (cases resolved) auto
  qed
qed

lemma orch_run_service: "orch_run a st \<Longrightarrow> \<exists>b. service_run b (fst st)"
proof (induction rule: orch_run.induct)
  case (start mgr)
  show ?case using service_run.start by auto
next
  case (add a sinfo orch r clk clk' request res sinfo')
  then show ?case using service_run_add by fastforce
next
  case (recover a sinfo orch r clk writes w policy reply sinfo' orch')
  obtain res sinfo1 where rm: "RemoveWorkload clk w False sinfo = (res, sinfo1)" by fastforce
  have "sinfo' = (if policy = RECOVERY_STOP then sinfo1 else sinfo)"
    using recover(2) rm by (cases res) (auto simp: EnforceRecoveryPolicy_def Let_def case_prod_unfold)
  moreover from recover.IH obtain b where "service_run b sinfo" by auto
  ultimately show ?case using service_run_remove [OF _ rm] by fastforce
next
  case (turn a sinfo orch r writes now_ns wall)
  then obtain b where "service_run b sinfo" by auto
  from service_run.get [OF this, of True] show ?case
    by (auto simp: replay_iteration_split GetScheduleTables_def)
qed simp_all

section \<open>Slots of a generated table\<close>

lemma built_slots:
  assumes "(cpu, s) \<in> set scheds" and "x \<in> set (pcs_tt_slots s)"
  shows "mk_tt_slot x \<in> set (slot_items (items (build_table epoch node_id scheds hp)))"
proof -
  have "(cpu, s) \<in> set (filter (\<lambda>(_, sched). \<not> (pcs_tt_slots sched = [] \<and> pcs_cbs_allocations sched = [])) scheds)"
    using assms by auto
  then have "mk_partition cpu s \<in> set (partitions (build_table epoch node_id scheds hp))"
    unfolding build_table_def by force
  moreover have "mk_tt_slot x \<in> set (concat (map tt_slots (layers (mk_partition cpu s))))"
    using assms(2) by (simp add: mk_partition_def)
  ultimately show ?thesis unfolding slot_items_table by force
qed

lemma rel_mset_image:
  assumes "rel_mset R A B" "x \<in># A"
  shows "\<exists>y. y \<in># B \<and> R x y"
proof -
  from assms(1) obtain xs ys where "mset xs = A" "mset ys = B" "list_all2 R xs ys"
    by (auto simp: rel_mset_def)
  with assms(2) show ?thesis by (metis in_set_conv_nth list_all2_conv_all_nth set_mset_mset)
qed

lemma release_has_slot:
  assumes ok: "cpu_schedule_ok cpu tt cbs s" and t: "t \<in> set tt" "0 < ct_period_us t"
    and k: "k < unat (calculate_hyperperiod (positive_periods tt)) div unat (ct_period_us t)"
  shows "\<exists>x\<in>set (pcs_tt_slots s). slot_in_frame cpu (unat (calculate_hyperperiod (positive_periods tt))) (t, k) x"
proof -
  let ?H = "unat (calculate_hyperperiod (positive_periods tt))"
  have placed: "tt_placed cpu ?H tt (pcs_tt_slots s)"
    using ok t(1) by (auto simp: cpu_schedule_ok_def split: if_splits)
  have "(t, k) \<in> set (frames ?H tt)"
    using t k by (auto simp: frames_def word_gt_0 intro!: bexI [of _ t])
  then show ?thesis
    using rel_mset_image [of "slot_in_frame cpu ?H" "mset (frames ?H tt)" "mset (pcs_tt_slots s)" "(t, k)"] placed
    by (auto simp: tt_placed_def)
qed

text \<open>A kernel slot that serves the release \<open>k\<close> of a task, counted from zero.\<close>

definition slot_serves :: "int \<Rightarrow> ClassifiedTask \<Rightarrow> nat \<Rightarrow> TtSlotBpf \<Rightarrow> bool" where
  "slot_serves cpu t k slot \<longleftrightarrow> ts_cpu slot = word_of_int cpu
     \<and> ts_workload_id_hash slot = fnv1a_hash (ct_workload_id t) \<and> ts_task_id_hash slot = fnv1a_hash (ct_task_id t)
     \<and> ts_duration_us slot = ct_wcet_us t \<and> k * unat (ct_period_us t) \<le> unat (ts_offset_us slot)
     \<and> unat (ts_offset_us slot) + unat (ct_wcet_us t) \<le> k * unat (ct_period_us t) + unat (ct_deadline_us t)"

lemma slot_in_frame_serves:
  "slot_in_frame cpu H (t\<lparr>ct_assigned_cpu := c\<rparr>, k) x \<Longrightarrow> slot_serves cpu t k (slot_bpf (mk_tt_slot x))"
  by (auto simp: slot_serves_def slot_bpf_def mk_tt_slot_def slot_end_def)

text \<open>
  The periodic time-triggered tasks among the tasks of a node, and the cycle of a task's CPU when \<open>f\<close>
  assigns the workloads to CPUs: the least common multiple of the periods on that CPU.
\<close>

definition periodic_tt :: "ClassifiedTask list \<Rightarrow> ClassifiedTask list" where
  "periodic_tt ts = filter (\<lambda>t. ct_mechanism t = TT \<and> 0 < ct_period_us t) ts"

definition cpu_cycle :: "(string \<Rightarrow> int) \<Rightarrow> ClassifiedTask list \<Rightarrow> ClassifiedTask \<Rightarrow> nat" where
  "cpu_cycle f ts t = Lcm ((\<lambda>u. unat (ct_period_us u)) `
     {u \<in> set (periodic_tt ts). f (ct_workload_id u) = f (ct_workload_id t)})"

lemma whole_periods_Lcm:
  assumes "whole_periods H ts"
  shows "H = Lcm ((\<lambda>u. unat (ct_period_us u)) ` {u \<in> set ts. 0 < ct_period_us u})"
proof (rule dvd_antisym)
  from assms obtain u where u: "u \<in> set ts" "unat (ct_period_us u) = H" "0 < H" by (auto simp: whole_periods_def)
  then have "0 < ct_period_us u" by (auto simp: word_gt_0)
  with u show "H dvd Lcm ((\<lambda>u. unat (ct_period_us u)) ` {u \<in> set ts. 0 < ct_period_us u})"
    by (intro dvd_Lcm) auto
  show "Lcm ((\<lambda>u. unat (ct_period_us u)) ` {u \<in> set ts. 0 < ct_period_us u}) dvd H"
    using assms by (intro Lcm_least) (auto simp: whole_periods_def)
qed

lemma positive_periods_shared:
  assumes "\<forall>u\<in>set ts. 0 < ct_period_us u \<longrightarrow> ct_assigned_cpu u = cpu"
  shows "positive_periods (on_cpu cpu ts) = positive_periods ts"
proof -
  have "filter (\<lambda>t. 0 < ct_period_us t) (on_cpu cpu ts) = filter (\<lambda>t. 0 < ct_period_us t) ts"
    unfolding on_cpu_def filter_filter by (rule filter_cong) (use assms in auto)
  then show ?thesis by (simp add: positive_periods_def)
qed

text \<open>The slots of a generated table, CPU by CPU.\<close>

definition table_serves :: "(string \<Rightarrow> int) \<Rightarrow> ClassifiedTask list \<Rightarrow> HierarchicalScheduleTable \<Rightarrow> ClassifiedTask \<Rightarrow> bool" where
  "table_serves f ts table t \<longleftrightarrow> (\<forall>k < cpu_cycle f ts t div unat (ct_period_us t).
       \<exists>x\<in>set (slot_items (items table)). slot_serves (f (ct_workload_id t)) t k (slot_bpf x))
     \<and> ((\<forall>u\<in>set (periodic_tt ts). f (ct_workload_id u) = f (ct_workload_id t))
          \<longrightarrow> unat (hyperperiod_us table) = cpu_cycle f ts t)"

lemma cpu_serves:
  assumes t: "t \<in> set (periodic_tt ts)" and bounds: "\<forall>t\<in>set ts. unat (ct_period_us t) < 2 ^ 31"
    and tt: "tt = map (\<lambda>t. t\<lparr>ct_assigned_cpu := f (ct_workload_id t)\<rparr>) (filter (\<lambda>t. ct_mechanism t = TT) ts)"
    and s: "(f (ct_workload_id t), s) \<in> set scheds"
      "cpu_schedule_ok (f (ct_workload_id t)) (on_cpu (f (ct_workload_id t)) tt) cbs s"
    and table: "table = build_table epoch n scheds (calculate_hyperperiod (positive_periods (filter (\<lambda>t. ct_mechanism t = TT) ts)))"
  shows "table_serves f ts table t"
proof -
  let ?cpu = "f (ct_workload_id t)" let ?t = "t\<lparr>ct_assigned_cpu := ?cpu\<rparr>"
  let ?H = "unat (calculate_hyperperiod (positive_periods (on_cpu ?cpu tt)))"
  have t': "?t \<in> set (on_cpu ?cpu tt)" "0 < ct_period_us ?t" using t by (auto simp: on_cpu_def tt periodic_tt_def)
  then have "whole_periods ?H (on_cpu ?cpu tt)" using s(2) by (auto simp: cpu_schedule_ok_def split: if_splits)
  note H = whole_periods_Lcm [OF this]
  have "(\<lambda>u. unat (ct_period_us u)) ` {u \<in> set (on_cpu ?cpu tt). 0 < ct_period_us u}
      = (\<lambda>u. unat (ct_period_us u)) ` {u \<in> set (periodic_tt ts). f (ct_workload_id u) = ?cpu}"
    by (auto simp: on_cpu_def tt periodic_tt_def image_iff) force+
  with H have cycle: "?H = cpu_cycle f ts t" by (simp add: cpu_cycle_def)
  have small: "?H < 2 ^ 31"
    using \<open>whole_periods ?H (on_cpu ?cpu tt)\<close> bounds by (auto simp: whole_periods_def on_cpu_def tt)
  have "\<exists>x\<in>set (slot_items (items table)). slot_serves ?cpu t k (slot_bpf x)"
    if k: "k < cpu_cycle f ts t div unat (ct_period_us t)" for k
  proof -
    have "k < ?H div unat (ct_period_us ?t)" using k by (simp add: cycle)
    from release_has_slot [OF s(2) t' this] obtain x where x: "x \<in> set (pcs_tt_slots s)" "slot_in_frame ?cpu ?H (?t, k) x"
      by blast
    from built_slots [OF s(1) x(1)] slot_in_frame_serves [OF x(2)] show ?thesis unfolding table by blast
  qed
  moreover have "unat (hyperperiod_us table) = cpu_cycle f ts t"
    if "\<forall>u\<in>set (periodic_tt ts). f (ct_workload_id u) = ?cpu"
  proof -
    have "\<forall>u\<in>set tt. 0 < ct_period_us u \<longrightarrow> ct_assigned_cpu u = ?cpu" using that by (auto simp: tt periodic_tt_def)
    from positive_periods_shared [OF this] have "hyperperiod_us table = ucast (calculate_hyperperiod (positive_periods (on_cpu ?cpu tt)))"
      by (simp add: table build_table_def tt positive_periods_assigned)
    then show ?thesis using small by (simp add: unat_ucast_64_32 cycle [symmetric])
  qed
  ultimately show ?thesis by (simp add: table_serves_def)
qed

lemma table_for_tasks:
  assumes "consistent sinfo" and "node_tasks sinfo n \<noteq> []"
  shows "\<exists>table epoch. map_find n (schedule_tables sinfo) = Some table
    \<and> generate_schedule (node_config_manager sinfo) epoch n (node_tasks sinfo n) = Inr table"
proof -
  from assms(2) obtain e where "e \<in> set (workload_tasks sinfo)" "n \<in> set (we_target_nodes (snd e))"
    by (auto simp: node_tasks_def split: if_splits)
  then have "n \<in> fst ` set (schedule_tables sinfo)" using assms(1) by (auto simp: consistent_def)
  then obtain table where "map_find n (schedule_tables sinfo) = Some table"
    using map_find_None [of n "schedule_tables sinfo"] by auto
  with assms(1) show ?thesis by (auto simp: consistent_def)
qed

lemma generated_release_slots:
  assumes g: "generate_schedule mgr epoch n ts = Inr table" and ne: "ts \<noteq> []"
    and bounds: "\<forall>t\<in>set ts. unat (ct_period_us t) < 2 ^ 31" "length ts < 2 ^ 20"
  shows "\<exists>f. (\<forall>wl. f wl \<in> set (isolated_cpus mgr n)) \<and> (\<forall>t\<in>set (periodic_tt ts). table_serves f ts table t)"
proof -
  from generate_schedule_Inr [OF g ne bounds] obtain tt cbs scheds where
    a: "assigned (set (isolated_cpus mgr n)) ts tt cbs" and keys: "fst ` set scheds = set (isolated_cpus mgr n)"
    and ok: "\<forall>(cpu, s)\<in>set scheds. cpu_schedule_ok cpu (on_cpu cpu tt) (on_cpu cpu cbs) s"
    and table: "table = build_table epoch n scheds (calculate_hyperperiod (positive_periods (filter (\<lambda>t. ct_mechanism t = TT) ts)))"
    by blast
  from a obtain f where f: "\<forall>wl. f wl \<in> set (isolated_cpus mgr n)"
    and tt: "tt = map (\<lambda>t. t\<lparr>ct_assigned_cpu := f (ct_workload_id t)\<rparr>) (filter (\<lambda>t. ct_mechanism t = TT) ts)"
    by (auto simp: assigned_def)
  have "table_serves f ts table t" if t: "t \<in> set (periodic_tt ts)" for t
  proof -
    have "f (ct_workload_id t) \<in> fst ` set scheds" using f keys by simp
    then obtain s where s: "(f (ct_workload_id t), s) \<in> set scheds" by force
    with ok have "cpu_schedule_ok (f (ct_workload_id t)) (on_cpu (f (ct_workload_id t)) tt) (on_cpu (f (ct_workload_id t)) cbs) s"
      by blast
    from cpu_serves [OF t bounds(1) tt s this table] show ?thesis .
  qed
  with f show ?thesis by blast
qed

lemma same_table_serves: "same_table a b \<Longrightarrow> table_serves f ts a t \<Longrightarrow> table_serves f ts b t"
proof -
  assume st: "same_table a b" and ts: "table_serves f ts a t"
  from st have "partitions a = partitions b" "hyperperiod_us a = hyperperiod_us b"
    unfolding same_table_def by (cases a; cases b; simp)+
  with ts show ?thesis by (simp add: table_serves_def slot_items_table)
qed

section \<open>From admission to the kernel\<close>

text \<open>What a node that has reported a table as applied holds in the kernel for a task of the table.\<close>

lemma applied_serves:
  assumes s: "n_bpf nd = Some s" and conn: "ncl_connected (n_client nd)"
    and len: "length (slot_items (items table)) < 2 ^ 32"
    and reported: "last (ncl_written (n_client (table_callback env table nd))) = \<lparr>ev_node_id = name, ev_event = Applied a\<rparr>"
      "ta_success a"
    and serves: "table_serves f ts table t" and k: "k < cpu_cycle f ts t div unat (ct_period_us t)"
  shows "\<exists>s' key slot. n_bpf (table_callback env table nd) = Some s' \<and> tt_table_map s' key = Some slot
    \<and> key_cpu key = word_of_int (f (ct_workload_id t)) \<and> slot_serves (f (ct_workload_id t)) t k slot"
proof -
  have "installs env 0 (items table)"
    using table_callback_report [OF _ conn, of env table] s reported by auto
  from table_callback_slots [OF s this len] obtain s' where s': "n_bpf (table_callback env table nd) = Some s'"
    "\<forall>(i, x)\<in>set (numbered 0 (slot_items (items table))). tt_table_map s' (slot_key i x) = Some (slot_bpf x)" by blast
  from serves k obtain x where x: "x \<in> set (slot_items (items table))" "slot_serves (f (ct_workload_id t)) t k (slot_bpf x)"
    by (auto simp: table_serves_def)
  from x(1) obtain i where "i < length (slot_items (items table))" "slot_items (items table) ! i = x"
    by (auto simp: in_set_conv_nth)
  with numbered_nth [of i "slot_items (items table)" 0] have "(of_nat i, x) \<in> set (numbered 0 (slot_items (items table)))"
    by auto
  with s'(2) have "tt_table_map s' (slot_key (of_nat i) x) = Some (slot_bpf x)" by blast
  moreover have "key_cpu (slot_key (of_nat i) x) = word_of_int (f (ct_workload_id t))"
    using x(2) by (simp add: slot_serves_def slot_bpf_def slot_key_def)
  ultimately show ?thesis using s'(1) x(2) by blast
qed


definition demo_env_t :: node_env where
  "demo_env_t = demo_env\<lparr>env_proc := [(''12'', Some ''t'')]\<rparr>"

lemma demo_table_installs:
  "installs demo_env_t 0 (items (table_for (schedule_tables demo_service) ''n1''))"
  "length (slot_items (items (table_for (schedule_tables demo_service) ''n1''))) = 1"
  by code_simp+

lemma demo_admitted_task:
  "map ct_mechanism (node_tasks demo_service ''n1'') = [TT]"
  by code_simp

lemma demo_told:
  assumes "last_table 7 (sent (fst (snd (demo_turn (\<lambda>_. True))))) = Some table"
  shows "length (slot_items (items table)) = 1" and "installs demo_env_t 0 (items table)"
proof -
  have turn: "replay_iteration (\<lambda>_. True) 0 (\<lambda>_. 9) (demo_service, demo_orch, replay_init) =
      (fst (demo_turn (\<lambda>_. True)), fst (snd (demo_turn (\<lambda>_. True))), snd (snd (demo_turn (\<lambda>_. True))))"
    by (simp add: demo_turn_def)
  have "connected_nodes demo_orch \<noteq> []" "schedule_tables demo_service \<noteq> []"
    "\<forall>e\<in>set (connected_nodes demo_orch). True" "\<forall>n t. next_retry_time replay_init n = Some t \<longrightarrow> t \<le> 0"
    "map_find ''n1'' (connected_nodes demo_orch) = Some 7"
    using demo_service_table by (auto simp: demo_orch_simps replay_init_def map_find_def)
  with replay_turn_effect [OF demo_before_run _ _ _ _ turn]
  have "\<exists>t. last_table 7 (sent (fst (snd (demo_turn (\<lambda>_. True))))) = Some t
    \<and> same_table (table_for (schedule_tables demo_service) ''n1'') t" by blast
  with assms have "same_table (table_for (schedule_tables demo_service) ''n1'') table" by simp
  then have "partitions table = partitions (table_for (schedule_tables demo_service) ''n1'')"
    unfolding same_table_def by (cases table; cases "table_for (schedule_tables demo_service) ''n1''") simp
  then have "items table = items (table_for (schedule_tables demo_service) ''n1'')" by (simp add: items_def)
  with demo_table_installs show "length (slot_items (items table)) = 1" "installs demo_env_t 0 (items table)" by simp_all
qed

section \<open>From a stop request to the kernel\<close>

lemma RemoveWorkload_known:
  assumes "map_find w (workload_tasks sinfo) \<noteq> None"
  shows "\<exists>ok sinfo'. RemoveWorkload clk w False sinfo = (Inr (ok, Some w), sinfo')"
  using assms by (auto simp: RemoveWorkload_def Let_def split: sum.split)

text \<open>C3: A stop request arrives in the kernel. When the recovery service is told to stop an admitted
  workload, it never fails with an exception; the workload is no longer admitted and every other one still
  is, no new table is announced, and the stop command is written to every connected node whose stream can
  be written, in the order of the registry, and to no other. The reply is 0 exactly when all nodes could
  be written. A node with loaded programs that runs processes of the workload and handles the command
  loses exactly the kernel entries, slots and servers it tracked for it, and exactly its slots leave the timer.\<close>

theorem stop_reaches_kernel:
  assumes w: "map_find w (workload_tasks sinfo) \<noteq> None"
    and nd: "n_bpf nd = Some s" "map_find w (workload_to_pids nd) \<noteq> None" "map_find w (workload_to_hash nd) = Some h"
  shows "\<exists>sinfo' orch' cmd nd' s'.
      EnforceRecoveryPolicy clk writes w RECOVERY_STOP (sinfo, orch)
        = (Inr (if \<forall>e\<in>set (connected_nodes orch). writes (snd e) then 0 else -1), sinfo', orch')
    \<and> (\<forall>v. map_find v (workload_tasks sinfo') = (if v = w then None else map_find v (workload_tasks sinfo)))
    \<and> schedule_changed sinfo' = schedule_changed sinfo
    \<and> sent orch' = sent orch @ map (\<lambda>e. (snd e, cmd)) (filter (\<lambda>e. writes (snd e)) (connected_nodes orch))
    \<and> handle_command env cmd (Inr nd) = Inr nd' \<and> n_bpf nd' = Some s'
    \<and> (\<forall>p. task_meta_map s' p = (if p \<in> word_of_int ` tracked_at w (workload_to_pids nd) then None else task_meta_map s p))
    \<and> (\<forall>key. tt_table_map s' key = (if key \<in> tracked_at w (workload_to_slots nd) then None else tt_table_map s key))
    \<and> (\<forall>key. cbs_map s' key = (if key \<in> tracked_at w (workload_to_cbs_keys nd) then None else cbs_map s key))
    \<and> slot_table (n_timer nd') = filter (\<lambda>e. se_workload_id_hash e \<noteq> h) (slot_table (n_timer nd))"
proof -
  let ?cmd = "Recovery \<lparr>rs_workload_id = w, rs_action = ACTION_STOP\<rparr>"
  obtain ok sinfo' where rm: "RemoveWorkload clk w False sinfo = (Inr (ok, Some w), sinfo')"
    using RemoveWorkload_known [OF w] by blast
  note rm' = RemoveWorkload_effect [OF rm]
  have o_side: "EnforceRecoveryPolicy clk writes w RECOVERY_STOP (sinfo, orch)
      = (Inr (if \<forall>e\<in>set (connected_nodes orch). writes (snd e) then 0 else -1), sinfo',
         orch\<lparr>sent := sent orch @ map (\<lambda>e. (snd e, ?cmd)) (filter (\<lambda>e. writes (snd e)) (connected_nodes orch))\<rparr>)"
    by (simp add: EnforceRecoveryPolicy_def rm broadcast_effect)
  have n_side: "handle_command env ?cmd (Inr nd) = Inr (evict_workload w nd)"
    using nd(2) by (auto simp: handle_command_def recovery_callback_def)
  let ?s' = "without_cbs (tracked_at w (workload_to_cbs_keys nd)) (without_slots (tracked_at w (workload_to_slots nd))
      (without_metas (word_of_int ` tracked_at w (workload_to_pids nd)) s))"
  have bpf: "n_bpf (evict_workload w nd) = Some ?s'"
    using nd(1) by (simp add: evict_workload_def evict_effects)
  have timer: "slot_table (n_timer (evict_workload w nd)) = filter (\<lambda>e. se_workload_id_hash e \<noteq> h) (slot_table (n_timer nd))"
    using nd(3) by (simp add: evict_workload_def evict_effects)
  have "\<forall>v. map_find v (workload_tasks sinfo') = (if v = w then None else map_find v (workload_tasks sinfo))"
    using rm'(2) by (simp add: map_find_erase)
  moreover have "\<forall>p. task_meta_map ?s' p = (if p \<in> word_of_int ` tracked_at w (workload_to_pids nd) then None else task_meta_map s p)"
    "\<forall>key. tt_table_map ?s' key = (if key \<in> tracked_at w (workload_to_slots nd) then None else tt_table_map s key)"
    "\<forall>key. cbs_map ?s' key = (if key \<in> tracked_at w (workload_to_cbs_keys nd) then None else cbs_map s key)"
    by (simp_all add: without_metas_def without_slots_def without_cbs_def restrict_map_def)
  ultimately show ?thesis
    using o_side n_side bpf timer rm'(1)
    by (intro exI [of _ sinfo'] exI [of _ "orch\<lparr>sent := sent orch @ map (\<lambda>e. (snd e, ?cmd))
        (filter (\<lambda>e. writes (snd e)) (connected_nodes orch))\<rparr>"] exI [of _ ?cmd] exI [of _ "evict_workload w nd"] exI [of _ ?s'])
      simp
qed

definition demo_node_w :: Node where
  "demo_node_w = demo_node\<lparr>workload_to_pids := [(''w'', [12])], workload_to_hash := [(''w'', 5)]\<rparr>"

theorem stop_reaches_kernel_witness:
  "\<exists>sinfo' orch'. EnforceRecoveryPolicy (\<lambda>_. 8) (\<lambda>_. True) ''w'' RECOVERY_STOP (demo_service, demo_orch) = (Inr 0, sinfo', orch')
    \<and> map_find ''w'' (workload_tasks sinfo') = None \<and> length (sent orch') = 1"
proof -
  have "map fst (workload_tasks demo_service) = [''w'']" by code_simp
  then have w: "map_find ''w'' (workload_tasks demo_service) \<noteq> None" by (auto simp: map_find_None)
  have "n_bpf demo_node_w = Some (put_cbs 99 demo_cbs (bpf_loaded 12))" "map_find ''w'' (workload_to_pids demo_node_w) \<noteq> None"
    "map_find ''w'' (workload_to_hash demo_node_w) = Some 5"
    using demo_node_facts(1) by (simp_all add: demo_node_w_def map_find_def)
  from stop_reaches_kernel [OF w this, of "\<lambda>_. 8" "\<lambda>_. True" demo_orch demo_env] show ?thesis
    by (auto simp: demo_orch_simps)
qed

end
