(* ===== verification/Sched_Trace.thy ===== *)
theory Sched_Trace
  imports Std_Containers Std_String
begin

text \<open>
  The scheduling trace of a node, the part built with \<open>CONFIG_TRACE_BPF_EVENT\<close>: the two trace points of
  \<open>timpani-n/src/bpf/schedstat.bpf.c\<close>, the \<open>SchedstatMonitor\<close> that loads them and selects the traced
  processes, the \<open>GpdataWriter\<close> that prints the events, and the lines of \<open>timpani-n/src/main.cpp\<close> that
  connect the three. Process ids are only stored and compared, and are integers. A hash map is a partial
  function; whether it has room for a new key is a parameter, as are the clocks, the results of libbpf
  and of the C file operations.
\<close>

section \<open>The trace points\<close>

record sched_time =
  st_ts_wakeup :: u64
  st_ts_start :: u64

record schedstat_event =
  ev_pid :: int
  ev_cpu :: i32
  ev_ts_wakeup :: u64
  ev_ts_start :: u64
  ev_ts_stop :: u64

record schedstat_bpf =
  sb_buffer :: "schedstat_event list"
  pid_filter_map :: "int \<rightharpoonup> u8"
  sched_waking_map :: "int \<rightharpoonup> sched_time"
  sched_switch_map :: "int \<rightharpoonup> sched_time"

definition schedstat_maps :: schedstat_bpf where
  "schedstat_maps = \<lparr>sb_buffer = [], pid_filter_map = Map.empty, sched_waking_map = Map.empty,
     sched_switch_map = Map.empty\<rparr>"

text \<open>\<open>bpf_map_update_elem\<close> with \<open>BPF_ANY\<close>: a present key is overwritten, a new one needs room.\<close>

definition hash_update :: "bool \<Rightarrow> 'k \<Rightarrow> 'v \<Rightarrow> ('k \<rightharpoonup> 'v) \<Rightarrow> ('k \<rightharpoonup> 'v)" where
  "hash_update room k v m = (if room \<or> m k \<noteq> None then m(k \<mapsto> v) else m)"

definition sched_waking :: "bool \<Rightarrow> u64 \<Rightarrow> int \<Rightarrow> schedstat_bpf \<Rightarrow> schedstat_bpf" where
  "sched_waking room time pid s =
     (case pid_filter_map s pid of
        None \<Rightarrow> s
      | Some _ \<Rightarrow> s\<lparr>sched_waking_map :=
          hash_update room pid \<lparr>st_ts_wakeup = time, st_ts_start = 0\<rparr> (sched_waking_map s)\<rparr>)"

text \<open>What the kernel answers during one switch: the CPU, whether the ring buffer has room for an event,
  whether the task that leaves the CPU is still runnable, and whether the two maps have room.\<close>

record switch_answers =
  sw_cpu :: i32
  sw_reserve :: bool
  sw_prev_running :: bool
  sw_room_waking :: bool
  sw_room_switch :: bool

definition sched_switch_out :: "switch_answers \<Rightarrow> u64 \<Rightarrow> int \<Rightarrow> schedstat_bpf \<Rightarrow> schedstat_bpf" where
  "sched_switch_out a time pid s =
     (case sched_switch_map s pid of
        None \<Rightarrow> s
      | Some pdata \<Rightarrow>
          (let s1 = (if sw_reserve a
                     then s\<lparr>sb_buffer := sb_buffer s @ [\<lparr>ev_pid = pid, ev_cpu = sw_cpu a,
                              ev_ts_wakeup = st_ts_wakeup pdata, ev_ts_start = st_ts_start pdata, ev_ts_stop = time\<rparr>]\<rparr>
                     else s);
               s2 = (if sw_prev_running a
                     then s1\<lparr>sched_waking_map := hash_update (sw_room_waking a) pid
                              \<lparr>st_ts_wakeup = st_ts_wakeup pdata, st_ts_start = 0\<rparr> (sched_waking_map s1)\<rparr>
                     else s1)
           in s2\<lparr>sched_switch_map := (sched_switch_map s2)(pid := None)\<rparr>))"

definition sched_switch_in :: "switch_answers \<Rightarrow> u64 \<Rightarrow> int \<Rightarrow> schedstat_bpf \<Rightarrow> schedstat_bpf" where
  "sched_switch_in a time pid s =
     (case pid_filter_map s pid of
        None \<Rightarrow> s
      | Some _ \<Rightarrow>
          (case sched_waking_map s pid of
             None \<Rightarrow> s
           | Some pdata \<Rightarrow>
               s\<lparr>sched_switch_map := hash_update (sw_room_switch a) pid
                   \<lparr>st_ts_wakeup = st_ts_wakeup pdata, st_ts_start = time\<rparr> (sched_switch_map s),
                 sched_waking_map := (sched_waking_map s)(pid := None)\<rparr>))"

definition sched_switch :: "switch_answers \<Rightarrow> u64 \<Rightarrow> int \<Rightarrow> int \<Rightarrow> schedstat_bpf \<Rightarrow> schedstat_bpf" where
  "sched_switch a time prev next s = sched_switch_in a time next (sched_switch_out a time prev s)"

section \<open>The monitor\<close>

record SchedstatMonitor =
  sm_callback :: bool
  sm_running :: bool
  sm_pid_filter_map_fd :: int
  sm_skel :: "schedstat_bpf option"
  sm_ring_buffer :: bool

definition SchedstatMonitor_init :: SchedstatMonitor where
  "SchedstatMonitor_init = \<lparr>sm_callback = False, sm_running = False, sm_pid_filter_map_fd = - 1, sm_skel = None,
     sm_ring_buffer = False\<rparr>"

text \<open>The results of libbpf while the monitor starts.\<close>

record start_answers =
  sa_open :: bool
  sa_load :: int
  sa_ring_buffer :: bool
  sa_attach :: int
  sa_map_fd :: int

definition monitor_start :: "start_answers \<Rightarrow> bool \<Rightarrow> SchedstatMonitor \<Rightarrow> SchedstatMonitor \<times> bool" where
  "monitor_start a callback m =
     (if sm_running m then (m, True)
      else let m = m\<lparr>sm_callback := callback\<rparr> in
        if \<not> callback then (m, False)
        else let m = m\<lparr>sm_skel := (if sa_open a then Some schedstat_maps else None)\<rparr> in
          if \<not> sa_open a then (m, False)
          else if sa_load a < 0 then (m\<lparr>sm_skel := None\<rparr>, False)
          else let m = m\<lparr>sm_ring_buffer := sa_ring_buffer a\<rparr> in
            if \<not> sa_ring_buffer a then (m\<lparr>sm_skel := None\<rparr>, False)
            else if sa_attach a < 0 then (m\<lparr>sm_ring_buffer := False, sm_skel := None\<rparr>, False)
            else let m = m\<lparr>sm_pid_filter_map_fd := sa_map_fd a\<rparr> in
              if sa_map_fd a < 0 then (m\<lparr>sm_ring_buffer := False, sm_skel := None\<rparr>, False)
              else (m\<lparr>sm_running := True\<rparr>, True))"

definition monitor_stop :: "SchedstatMonitor \<Rightarrow> SchedstatMonitor" where
  "monitor_stop m = m\<lparr>sm_running := False, sm_callback := False, sm_pid_filter_map_fd := - 1, sm_ring_buffer := False,
     sm_skel := None\<rparr>"

definition is_active :: "SchedstatMonitor \<Rightarrow> bool" where
  "is_active m \<longleftrightarrow> sm_running m \<and> 0 \<le> sm_pid_filter_map_fd m"

definition add_pid :: "bool \<Rightarrow> int \<Rightarrow> SchedstatMonitor \<Rightarrow> SchedstatMonitor \<times> bool" where
  "add_pid room pid m =
     (if pid \<le> 0 \<or> \<not> is_active m then (m, False)
      else case sm_skel m of
        None \<Rightarrow> (m, False)
      | Some s \<Rightarrow> (m\<lparr>sm_skel := Some (s\<lparr>pid_filter_map := hash_update room pid 1 (pid_filter_map s)\<rparr>)\<rparr>,
                   room \<or> pid_filter_map s pid \<noteq> None))"

text \<open>Deleting an absent key fails with \<open>ENOENT\<close>, which counts as success.\<close>

definition remove_pid :: "int \<Rightarrow> SchedstatMonitor \<Rightarrow> SchedstatMonitor \<times> bool" where
  "remove_pid pid m =
     (if pid \<le> 0 \<or> sm_pid_filter_map_fd m < 0 then (m, False)
      else case sm_skel m of
        None \<Rightarrow> (m, False)
      | Some s \<Rightarrow> (m\<lparr>sm_skel := Some (s\<lparr>pid_filter_map := (pid_filter_map s)(pid := None)\<rparr>)\<rparr>, True))"

section \<open>The writer\<close>

type_synonym timespec = "u64 \<times> u64"

text \<open>A line of the output file: the name of the task, the node, the CPU and the three times in microseconds.\<close>

record gpdata_line =
  gl_task :: string
  gl_node :: string
  gl_cpu :: i32
  gl_wakeup :: u64
  gl_start :: u64
  gl_stop :: u64

text \<open>\<open>gw_lines\<close> is what the file on disk holds; \<open>gw_file\<close> says whether it is open.\<close>

record GpdataWriter =
  gw_node_id :: string
  gw_file :: bool
  gw_lines :: "gpdata_line list"
  gw_ktime_offset_ns :: u64
  gw_started :: bool

definition GpdataWriter_init :: "string \<Rightarrow> GpdataWriter" where
  "GpdataWriter_init node_id = \<lparr>gw_node_id = (if node_id = [] then ''node'' else node_id), gw_file = False,
     gw_lines = [], gw_ktime_offset_ns = 0, gw_started = False\<rparr>"

definition timespec_to_ns :: "timespec \<Rightarrow> u64" where
  "timespec_to_ns ts = fst ts * 1000000000 + snd ts"

text \<open>A reading is the answer of the three \<open>clock_gettime\<close> calls of a turn; \<open>None\<close> if one of them fails.\<close>

fun calibrate_loop :: "(timespec \<times> timespec \<times> timespec) option list \<Rightarrow> u64 \<Rightarrow> u64 \<Rightarrow> u64 option" where
  "calibrate_loop [] best_delta best_offset = Some best_offset"
| "calibrate_loop (None # readings) best_delta best_offset = None"
| "calibrate_loop (Some (t1, t2, t3) # readings) best_delta best_offset =
     (let ns_t1 = timespec_to_ns t1; ns_t2 = timespec_to_ns t2; ns_t3 = timespec_to_ns t3;
          delta = ns_t3 - ns_t1;
          midpoint = (ns_t1 + ns_t3) div 2
      in if delta < best_delta then calibrate_loop readings delta (midpoint - ns_t2)
         else calibrate_loop readings best_delta best_offset)"

definition calibrate_ktime_offset_locked ::
  "(nat \<Rightarrow> (timespec \<times> timespec \<times> timespec) option) \<Rightarrow> GpdataWriter \<Rightarrow> GpdataWriter \<times> bool" where
  "calibrate_ktime_offset_locked clocks w =
     (case calibrate_loop (map clocks [0..<20]) (- 1) 0 of
        None \<Rightarrow> (w, False)
      | Some best_offset \<Rightarrow> (w\<lparr>gw_ktime_offset_ns := best_offset\<rparr>, True))"

definition writer_start ::
  "(nat \<Rightarrow> (timespec \<times> timespec \<times> timespec) option) \<Rightarrow> GpdataWriter \<Rightarrow> GpdataWriter \<times> bool" where
  "writer_start clocks w =
     (if gw_started w then (w, True)
      else case calibrate_ktime_offset_locked clocks w of
        (w, False) \<Rightarrow> (w, False)
      | (w, True) \<Rightarrow> (w\<lparr>gw_started := True\<rparr>, True))"

definition writer_stop :: "GpdataWriter \<Rightarrow> GpdataWriter" where
  "writer_stop w = w\<lparr>gw_started := False, gw_file := False\<rparr>"

definition to_realtime_ns :: "GpdataWriter \<Rightarrow> u64 \<Rightarrow> u64" where
  "to_realtime_ns w monotonic_ns = gw_ktime_offset_ns w + monotonic_ns"

definition kNsPerUs :: u64 where "kNsPerUs = 1000"

definition ns_to_us_round_up :: "u64 \<Rightarrow> u64" where
  "ns_to_us_round_up ns = (ns + (kNsPerUs - 1)) div kNsPerUs"

text \<open>Opening with mode \<open>w+\<close> empties the file.\<close>

definition ensure_file_opened_locked :: "bool \<Rightarrow> GpdataWriter \<Rightarrow> GpdataWriter \<times> bool" where
  "ensure_file_opened_locked opens w =
     (if gw_file w then (w, True)
      else if opens then (w\<lparr>gw_file := True, gw_lines := []\<rparr>, True)
      else (w, False))"

definition event_line :: "GpdataWriter \<Rightarrow> schedstat_event \<Rightarrow> string \<Rightarrow> gpdata_line" where
  "event_line w event task_name = \<lparr>gl_task = c_str task_name, gl_node = c_str (gw_node_id w), gl_cpu = ev_cpu event,
     gl_wakeup = ns_to_us_round_up (to_realtime_ns w (ev_ts_wakeup event)),
     gl_start = ns_to_us_round_up (to_realtime_ns w (ev_ts_start event)),
     gl_stop = ns_to_us_round_up (to_realtime_ns w (ev_ts_stop event))\<rparr>"

definition line_text :: "gpdata_line \<Rightarrow> string" where
  "line_text l = gl_task l @ replicate (16 - length (gl_task l)) CHR '' '' @ '' 0 0 '' @ gl_node l @ ''-C''
     @ int_to_string (sint (gl_cpu l)) @ '' 0 '' @ nat_to_string (unat (gl_wakeup l)) @ '' ''
     @ nat_to_string (unat (gl_start l)) @ '' '' @ nat_to_string (unat (gl_stop l)) @ '' 0'' @ [CHR 0x0A]"

definition writer_write_event :: "bool \<Rightarrow> bool \<Rightarrow> schedstat_event \<Rightarrow> string \<Rightarrow> GpdataWriter \<Rightarrow> GpdataWriter" where
  "writer_write_event opens prints event task_name w =
     (if \<not> gw_started w then w
      else case ensure_file_opened_locked opens w of
        (w, False) \<Rightarrow> w\<lparr>gw_started := False\<rparr>
      | (w, True) \<Rightarrow>
          if prints then w\<lparr>gw_lines := gw_lines w @ [event_line w event task_name]\<rparr>
          else w\<lparr>gw_started := False\<rparr>)"

section \<open>The trace in the node daemon\<close>

record gpdata =
  gd_writer :: "GpdataWriter option"
  gd_monitor :: SchedstatMonitor
  gpdata_pid_to_task :: "(int, string) std_map"

definition gpdata_init :: gpdata where
  "gpdata_init = \<lparr>gd_writer = None, gd_monitor = SchedstatMonitor_init, gpdata_pid_to_task = []\<rparr>"

definition gpdata_start ::
  "bool \<Rightarrow> string \<Rightarrow> (nat \<Rightarrow> (timespec \<times> timespec \<times> timespec) option) \<Rightarrow> start_answers \<Rightarrow> gpdata \<Rightarrow> gpdata" where
  "gpdata_start enable_plot node_id clocks a g =
     (if \<not> enable_plot then g
      else case writer_start clocks (GpdataWriter_init node_id) of
        (w, False) \<Rightarrow> g\<lparr>gd_writer := None\<rparr>
      | (w, True) \<Rightarrow>
          (case monitor_start a True (gd_monitor g) of
             (m, False) \<Rightarrow> g\<lparr>gd_writer := None, gd_monitor := m\<rparr>
           | (m, True) \<Rightarrow> g\<lparr>gd_writer := Some w, gd_monitor := m\<rparr>))"

text \<open>The callback given to the monitor, and the function libbpf calls for each event of the ring buffer.\<close>

definition gpdata_event :: "bool \<Rightarrow> bool \<Rightarrow> schedstat_event \<Rightarrow> gpdata \<Rightarrow> gpdata" where
  "gpdata_event opens prints event g =
     (case gd_writer g of
        None \<Rightarrow> g
      | Some w \<Rightarrow>
          (let task_name = (case map_find (ev_pid event) (gpdata_pid_to_task g) of Some n \<Rightarrow> n | None \<Rightarrow> [])
           in if task_name = [] then g else g\<lparr>gd_writer := Some (writer_write_event opens prints event task_name w)\<rparr>))"

definition ring_buffer_callback :: "bool \<Rightarrow> bool \<Rightarrow> schedstat_event \<Rightarrow> gpdata \<Rightarrow> gpdata" where
  "ring_buffer_callback opens prints event g =
     (if sm_callback (gd_monitor g) then gpdata_event opens prints event g else g)"

text \<open>One turn of the poll loop: the result of \<open>ring_buffer__poll\<close>, which delivers the pending events in
  order, and what the file operations answer for each of them. The second component says whether the loop
  goes on; \<open>EINTR\<close> is 4.\<close>

definition poll_turn :: "int \<Rightarrow> (schedstat_event \<Rightarrow> bool \<times> bool) \<Rightarrow> gpdata \<Rightarrow> gpdata \<times> bool" where
  "poll_turn ret file g =
     (if ret < 0 then (g, ret = - 4)
      else case sm_skel (gd_monitor g) of
        None \<Rightarrow> (g, True)
      | Some s \<Rightarrow>
          (fold (\<lambda>event. ring_buffer_callback (fst (file event)) (snd (file event)) event) (sb_buffer s)
             (g\<lparr>gd_monitor := (gd_monitor g)\<lparr>sm_skel := Some (s\<lparr>sb_buffer := []\<rparr>)\<rparr>\<rparr>), True))"

fun trace_poll_loop :: "(int \<times> (schedstat_event \<Rightarrow> bool \<times> bool)) list \<Rightarrow> gpdata \<Rightarrow> gpdata" where
  "trace_poll_loop [] g = g"
| "trace_poll_loop ((ret, file) # polls) g =
     (if sm_running (gd_monitor g)
      then case poll_turn ret file g of (g, True) \<Rightarrow> trace_poll_loop polls g | (g, False) \<Rightarrow> g
      else g)"

text \<open>A new table: the processes of the old one are no longer traced.\<close>

definition gpdata_forget :: "bool \<Rightarrow> gpdata \<Rightarrow> gpdata" where
  "gpdata_forget enable_plot g =
     (if enable_plot \<and> is_active (gd_monitor g)
      then g\<lparr>gpdata_pid_to_task := [],
             gd_monitor := fold (\<lambda>pid m. fst (remove_pid pid m)) (map fst (gpdata_pid_to_task g)) (gd_monitor g)\<rparr>
      else g)"

definition gpdata_register :: "bool \<Rightarrow> bool \<Rightarrow> int \<Rightarrow> string \<Rightarrow> gpdata \<Rightarrow> gpdata" where
  "gpdata_register enable_plot room pid task_id g =
     (if enable_plot \<and> is_active (gd_monitor g)
      then case add_pid room pid (gd_monitor g) of
        (m, True) \<Rightarrow> g\<lparr>gd_monitor := m, gpdata_pid_to_task := map_put pid task_id (gpdata_pid_to_task g)\<rparr>
      | (m, False) \<Rightarrow> g\<lparr>gd_monitor := m\<rparr>
      else g)"

definition gpdata_shutdown :: "gpdata \<Rightarrow> gpdata" where
  "gpdata_shutdown g = g\<lparr>gd_monitor := monitor_stop (gd_monitor g), gd_writer := map_option writer_stop (gd_writer g)\<rparr>"

section \<open>Runs\<close>

text \<open>
  A run of the trace points, from their loading, along a clock that does not go back: the time of the last
  step, the events already delivered by the ring buffer, and the maps. Between the steps the monitor may
  select any processes, and the poll loop takes what the ring buffer holds.
\<close>

inductive trace_run :: "u64 \<Rightarrow> schedstat_event list \<Rightarrow> schedstat_bpf \<Rightarrow> bool" where
  load: "trace_run 0 [] schedstat_maps"
| waking: "trace_run t d s \<Longrightarrow> t \<le> t' \<Longrightarrow> trace_run t' d (sched_waking room t' pid s)"
| switch: "trace_run t d s \<Longrightarrow> t \<le> t' \<Longrightarrow> trace_run t' d (sched_switch a t' prev next s)"
| select: "trace_run t d s \<Longrightarrow> trace_run t d (s\<lparr>pid_filter_map := f\<rparr>)"
| poll: "trace_run t d s \<Longrightarrow> trace_run t (d @ sb_buffer s) (s\<lparr>sb_buffer := []\<rparr>)"

definition event_ok :: "u64 \<Rightarrow> schedstat_event \<Rightarrow> bool" where
  "event_ok t e \<longleftrightarrow> ev_ts_wakeup e \<le> ev_ts_start e \<and> ev_ts_start e \<le> ev_ts_stop e \<and> ev_ts_stop e \<le> t"

definition runs_apart :: "schedstat_event \<Rightarrow> schedstat_event \<Rightarrow> bool" where
  "runs_apart a b \<longleftrightarrow> (ev_pid a = ev_pid b \<longrightarrow> ev_ts_stop a \<le> ev_ts_start b)"

definition times_ok :: "u64 \<Rightarrow> schedstat_event list \<Rightarrow> (int \<rightharpoonup> sched_time) \<Rightarrow> (int \<rightharpoonup> sched_time) \<Rightarrow> bool" where
  "times_ok t evs w r \<longleftrightarrow>
     (\<forall>p x. w p = Some x \<longrightarrow> st_ts_wakeup x \<le> t) \<and>
     (\<forall>p x. r p = Some x \<longrightarrow> st_ts_wakeup x \<le> st_ts_start x \<and> st_ts_start x \<le> t
        \<and> (\<forall>e\<in>set evs. ev_pid e = p \<longrightarrow> ev_ts_stop e \<le> st_ts_start x)) \<and>
     (\<forall>e\<in>set evs. event_ok t e) \<and> sorted_wrt runs_apart evs"

lemma times_ok_later: "times_ok t evs w r \<Longrightarrow> t \<le> t' \<Longrightarrow> times_ok t' evs w r"
  unfolding times_ok_def event_ok_def by (meson order_trans)

lemma times_ok_waking:
  assumes "times_ok t evs w r" "st_ts_wakeup x \<le> t"
  shows "times_ok t evs (hash_update room p x w) r"
  using assms by (auto simp: times_ok_def hash_update_def)

lemma times_ok_forget:
  assumes "times_ok t evs w r"
  shows "times_ok t evs (w(p := None)) r" and "times_ok t evs w (r(p := None))"
  using assms by (auto simp: times_ok_def)

lemma times_ok_start:
  assumes "times_ok t evs w r" "st_ts_wakeup x \<le> t" "st_ts_start x = t"
  shows "times_ok t evs w (hash_update room p x r)"
  using assms by (auto simp: times_ok_def hash_update_def event_ok_def)

lemma times_ok_event:
  assumes "times_ok t evs w r" "r p = Some x"
  shows "times_ok t (evs @ [\<lparr>ev_pid = p, ev_cpu = c, ev_ts_wakeup = st_ts_wakeup x,
    ev_ts_start = st_ts_start x, ev_ts_stop = t\<rparr>]) w (r(p := None))"
  using assms by (auto simp: times_ok_def event_ok_def runs_apart_def sorted_wrt_append)

lemma times_ok_switch_out:
  assumes ok: "times_ok t (d @ sb_buffer s) (sched_waking_map s) (sched_switch_map s)"
    and s': "s' = sched_switch_out a t pid s"
  shows "times_ok t (d @ sb_buffer s') (sched_waking_map s') (sched_switch_map s')"
proof (cases "sched_switch_map s pid")
  case None
  with ok s' show ?thesis by (simp add: sched_switch_out_def)
next
  case (Some x)
  let ?e = "\<lparr>ev_pid = pid, ev_cpu = sw_cpu a, ev_ts_wakeup = st_ts_wakeup x, ev_ts_start = st_ts_start x, ev_ts_stop = t\<rparr>"
  let ?evs = "d @ sb_buffer s @ (if sw_reserve a then [?e] else [])"
  have evs: "times_ok t ?evs (sched_waking_map s) ((sched_switch_map s)(pid := None))"
    using times_ok_event [OF ok Some, of "sw_cpu a"] times_ok_forget(2) [OF ok, of pid] by simp
  have "st_ts_wakeup x \<le> st_ts_start x" "st_ts_start x \<le> t"
    using ok Some by (auto simp: times_ok_def)
  then have "times_ok t ?evs (hash_update (sw_room_waking a) pid \<lparr>st_ts_wakeup = st_ts_wakeup x, st_ts_start = 0\<rparr>
      (sched_waking_map s)) ((sched_switch_map s)(pid := None))"
    by (intro times_ok_waking [OF evs]) (simp add: order_trans [of _ "st_ts_start x"])
  with evs show ?thesis
    by (cases "sw_reserve a"; cases "sw_prev_running a") (simp_all add: s' sched_switch_out_def Some Let_def)
qed

lemma times_ok_switch_in:
  assumes ok: "times_ok t (d @ sb_buffer s) (sched_waking_map s) (sched_switch_map s)"
    and s': "s' = sched_switch_in a t pid s"
  shows "times_ok t (d @ sb_buffer s') (sched_waking_map s') (sched_switch_map s')"
proof (cases "sched_waking_map s pid")
  case (Some x)
  then have "st_ts_wakeup x \<le> t" using ok by (auto simp: times_ok_def)
  then have "times_ok t (d @ sb_buffer s) ((sched_waking_map s)(pid := None))
      (hash_update (sw_room_switch a) pid \<lparr>st_ts_wakeup = st_ts_wakeup x, st_ts_start = t\<rparr> (sched_switch_map s))"
    by (intro times_ok_start times_ok_forget(1) [OF ok]) simp_all
  with ok Some show ?thesis by (simp add: s' sched_switch_in_def split: option.split)
qed (use ok s' in \<open>simp add: sched_switch_in_def split: option.split\<close>)

lemma trace_run_times_ok:
  "trace_run t d s \<Longrightarrow> times_ok t (d @ sb_buffer s) (sched_waking_map s) (sched_switch_map s)"
proof (induction rule: trace_run.induct)
  case load
  show ?case by (simp add: times_ok_def schedstat_maps_def)
next
  case (waking t d s t' room pid)
  from times_ok_waking [OF times_ok_later [OF waking.IH waking.hyps(2)]] times_ok_later [OF waking.IH waking.hyps(2)]
  show ?case by (simp add: sched_waking_def split: option.split)
next
  case (switch t d s t' a prev "next")
  show ?case
    unfolding sched_switch_def
    by (rule times_ok_switch_in [OF times_ok_switch_out [OF times_ok_later [OF switch.IH switch.hyps(2)] refl] refl])
qed simp_all

lemma ns_to_us_round_up_mono:
  assumes "a \<le> b" "unat off + unat b + 999 < 2 ^ 64"
  shows "ns_to_us_round_up (off + a) \<le> ns_to_us_round_up (off + b)"
proof -
  have "unat (ns_to_us_round_up (off + x)) = (unat off + unat x + 999) div 1000" if "unat x \<le> unat b" for x
    using that assms(2) by (simp add: ns_to_us_round_up_def kNsPerUs_def unat_div word_nat)
  moreover have "unat a \<le> unat b" using assms(1) by (simp add: word_le_nat_alt)
  ultimately show ?thesis by (simp add: word_le_nat_alt div_le_mono)
qed

text \<open>C37: In every run of the trace points along a clock that does not go back, every recorded run of a
  process was woken up before it started and started before it stopped, and two recorded runs of one
  process do not overlap and are in order, however the monitor selects processes, and also when updates
  fail for lack of room. The microsecond times the writer prints keep both orders, as long as the offset
  plus the clock stays below 2 to the 64.\<close>

theorem trace_records_ordered:
  assumes "trace_run t delivered s" "unat (gw_ktime_offset_ns w) + unat t + 999 < 2 ^ 64"
  shows "(\<forall>e\<in>set (delivered @ sb_buffer s). event_ok t e
        \<and> gl_wakeup (event_line w e n) \<le> gl_start (event_line w e n)
        \<and> gl_start (event_line w e n) \<le> gl_stop (event_line w e n))
    \<and> sorted_wrt (\<lambda>a b. ev_pid a = ev_pid b \<longrightarrow> ev_ts_stop a \<le> ev_ts_start b
        \<and> gl_stop (event_line w a n) \<le> gl_start (event_line w b n)) (delivered @ sb_buffer s)"
proof -
  let ?us = "\<lambda>x. ns_to_us_round_up (gw_ktime_offset_ns w + x)"
  have ok: "\<forall>e\<in>set (delivered @ sb_buffer s). event_ok t e" "sorted_wrt runs_apart (delivered @ sb_buffer s)"
    using trace_run_times_ok [OF assms(1)] by (auto simp: times_ok_def)
  have us: "?us a \<le> ?us b" if "a \<le> b" "b \<le> t" for a b
    using that assms(2) by (intro ns_to_us_round_up_mono) (auto simp: word_le_nat_alt)
  have "event_ok t e \<Longrightarrow> ?us (ev_ts_wakeup e) \<le> ?us (ev_ts_start e) \<and> ?us (ev_ts_start e) \<le> ?us (ev_ts_stop e)" for e
    by (auto simp: event_ok_def intro!: us)
  moreover have "ev_ts_stop a \<le> ev_ts_start b \<and> ?us (ev_ts_stop a) \<le> ?us (ev_ts_start b)"
    if "runs_apart a b" "b \<in> set (delivered @ sb_buffer s)" "ev_pid a = ev_pid b" for a b
  proof -
    have "event_ok t b" using ok(1) that(2) by blast
    then have "ev_ts_start b \<le> t" unfolding event_ok_def by (meson order_trans)
    with that show ?thesis by (simp add: runs_apart_def us)
  qed
  then have "sorted_wrt (\<lambda>a b. ev_pid a = ev_pid b \<longrightarrow> ev_ts_stop a \<le> ev_ts_start b
      \<and> ?us (ev_ts_stop a) \<le> ?us (ev_ts_start b)) (delivered @ sb_buffer s)"
    by (intro sorted_wrt_mono_rel [OF _ ok(2)]) simp
  ultimately show ?thesis using ok(1) by (simp add: event_line_def to_realtime_ns_def)
qed

text \<open>A process is selected, woken at 5, runs from 7 to 9, is preempted and runs again from 12 to 20.\<close>

definition demo_answers :: switch_answers where
  "demo_answers = \<lparr>sw_cpu = 1, sw_reserve = True, sw_prev_running = True, sw_room_waking = True, sw_room_switch = True\<rparr>"

definition demo_trace :: schedstat_bpf where
  "demo_trace =
     sched_switch demo_answers 20 77 0 (sched_switch demo_answers 12 0 77 (sched_switch demo_answers 9 77 0
       (sched_switch demo_answers 7 0 77 (sched_waking True 5 77 (schedstat_maps\<lparr>pid_filter_map := [77 \<mapsto> 1]\<rparr>)))))"

lemma demo_trace_run: "trace_run 20 [] demo_trace"
  unfolding demo_trace_def
  by (rule trace_run.switch [of 12], rule trace_run.switch [of 9], rule trace_run.switch [of 7],
      rule trace_run.switch [of 5], rule trace_run.waking [of 0], rule trace_run.select, rule trace_run.load) simp_all

lemma demo_trace_buffer:
  "sb_buffer demo_trace =
     [\<lparr>ev_pid = 77, ev_cpu = 1, ev_ts_wakeup = 5, ev_ts_start = 7, ev_ts_stop = 9\<rparr>,
      \<lparr>ev_pid = 77, ev_cpu = 1, ev_ts_wakeup = 5, ev_ts_start = 12, ev_ts_stop = 20\<rparr>]"
  by (simp add: demo_trace_def sched_switch_def sched_switch_out_def sched_switch_in_def sched_waking_def
      hash_update_def demo_answers_def schedstat_maps_def)

theorem trace_records_ordered_witness:
  "length (sb_buffer demo_trace) = 2
    \<and> ev_ts_stop (sb_buffer demo_trace ! 0) \<le> ev_ts_start (sb_buffer demo_trace ! 1)
    \<and> gl_wakeup (event_line (GpdataWriter_init ''n1'') (sb_buffer demo_trace ! 0) ''brake'')
        \<le> gl_start (event_line (GpdataWriter_init ''n1'') (sb_buffer demo_trace ! 0) ''brake'')"
  using trace_records_ordered [OF demo_trace_run, of "GpdataWriter_init ''n1''" "''brake''"]
  by (simp add: demo_trace_buffer GpdataWriter_init_def)

section \<open>The offset between the clocks\<close>

text \<open>A reading of clocks that differ by \<open>d\<close> nanoseconds: the monotonic clock is read between the two
  readings of the real-time clock, which is ahead of it and below 2 to the 63 nanoseconds.\<close>

definition reading_of :: "nat \<Rightarrow> timespec \<times> timespec \<times> timespec \<Rightarrow> bool" where
  "reading_of d = (\<lambda>(t1, t2, t3).
     unat (timespec_to_ns t1) \<le> unat (timespec_to_ns t2) + d \<and>
     unat (timespec_to_ns t2) + d \<le> unat (timespec_to_ns t3) \<and>
     unat (timespec_to_ns t2) \<le> unat (timespec_to_ns t1) \<and> unat (timespec_to_ns t3) < 2 ^ 63)"

definition window :: "timespec \<times> timespec \<times> timespec \<Rightarrow> nat" where
  "window = (\<lambda>(t1, t2, t3). unat (timespec_to_ns t3) - unat (timespec_to_ns t1))"

definition near :: "nat \<Rightarrow> nat \<Rightarrow> u64 \<Rightarrow> bool" where
  "near d w off \<longleftrightarrow> 2 * \<bar>int (unat off) - int d\<bar> \<le> int w + 1"

lemma near_wider: "near d w off \<Longrightarrow> w \<le> w' \<Longrightarrow> near d w' off"
  by (simp add: near_def)

lemma half_window:
  fixes a b c d :: nat
  assumes "a \<le> b + d" "b + d \<le> c" "b \<le> a"
  shows "2 * \<bar>int ((a + c) div 2 - b) - int d\<bar> \<le> int (c - a) + 1"
proof -
  define h where "h = (a + c) div 2"
  have h: "2 * h \<le> a + c" "a + c \<le> 2 * h + 1" unfolding h_def by linarith+
  have "b \<le> h" "a \<le> c" using assms h by linarith+
  then have sub: "int (h - b) = int h - int b" "int (c - a) = int c - int a" by simp_all
  have "int a \<le> int b + int d" "int b + int d \<le> int c" "2 * int h \<le> int a + int c"
    "int a + int c \<le> 2 * int h + 1"
    using assms h by linarith+
  then have "2 * (int h - int b - int d) \<le> int c - int a + 1" "2 * - (int h - int b - int d) \<le> int c - int a + 1"
    by presburger+
  then have "2 * \<bar>int h - int b - int d\<bar> \<le> int c - int a + 1" unfolding abs_if by simp
  then show ?thesis by (simp only: sub flip: h_def)
qed

lemma reading_near:
  assumes "reading_of d (t1, t2, t3)"
  shows "unat (timespec_to_ns t3 - timespec_to_ns t1) = window (t1, t2, t3)"
    and "near d (window (t1, t2, t3)) ((timespec_to_ns t1 + timespec_to_ns t3) div 2 - timespec_to_ns t2)"
proof -
  let ?a = "timespec_to_ns t1" and ?b = "timespec_to_ns t2" and ?c = "timespec_to_ns t3"
  have le: "unat ?a \<le> unat ?b + d" "unat ?b + d \<le> unat ?c" "unat ?b \<le> unat ?a" "unat ?c < 2 ^ 63"
    using assms by (simp_all add: reading_of_def)
  then have ac: "unat ?a \<le> unat ?c" by linarith
  then show "unat (?c - ?a) = window (t1, t2, t3)"
    by (simp add: window_def unat_diff_le word_le_nat_alt)
  have mid: "unat ((?a + ?c) div 2) = (unat ?a + unat ?c) div 2"
    using le ac by (simp add: unat_div unat_add_small)
  moreover have "unat ?b \<le> (unat ?a + unat ?c) div 2" using le ac by linarith
  ultimately have "unat ((?a + ?c) div 2 - ?b) = (unat ?a + unat ?c) div 2 - unat ?b"
    by (simp add: unat_diff_le word_le_nat_alt)
  then show "near d (window (t1, t2, t3)) ((?a + ?c) div 2 - ?b)"
    unfolding near_def window_def prod.case by (simp only:) (rule half_window [OF le(1-3)])
qed

lemma calibrate_loop_near:
  assumes "\<forall>r\<in>set rs. reading_of d r" "near d (unat best) off"
  shows "\<exists>off'. calibrate_loop (map Some rs) best off = Some off' \<and> near d (unat best) off'
    \<and> (\<forall>r\<in>set rs. near d (window r) off')"
  using assms
proof (induction rs arbitrary: best off)
  case (Cons r rs)
  obtain t1 t2 t3 where r: "r = (t1, t2, t3)" by (cases r)
  have reading: "reading_of d (t1, t2, t3)" using Cons.prems(1) r by simp
  note rn = reading_near [OF reading]
  have rest: "\<forall>r\<in>set rs. reading_of d r" using Cons.prems(1) by simp
  let ?w = "timespec_to_ns t3 - timespec_to_ns t1"
  show ?case
  proof (cases "?w < best")
    case True
    have "near d (unat ?w) ((timespec_to_ns t1 + timespec_to_ns t3) div 2 - timespec_to_ns t2)"
      using rn by simp
    from Cons.IH [OF rest this] True rn(1) show ?thesis
      by (fastforce simp: r Let_def word_less_nat_alt intro: near_wider)
  next
    case False
    then have "unat best \<le> window r" using rn(1) by (simp add: r word_less_nat_alt not_less)
    with Cons.IH [OF rest Cons.prems(2)] False show ?thesis
      by (fastforce simp: r Let_def intro: near_wider)
  qed
qed simp

text \<open>C39: The calibration of the writer finds the offset between the two clocks: if they differ by
  \<open>d\<close> nanoseconds during the twenty readings, the calibration succeeds and the stored offset is off by at
  most half of the narrowest reading, rounded up to a nanosecond.\<close>

theorem calibration_error:
  assumes "\<forall>i<20. clocks i = Some (readings i) \<and> reading_of d (readings i)"
  shows "\<exists>w'. calibrate_ktime_offset_locked clocks w = (w', True)
    \<and> (\<forall>i<20. 2 * \<bar>int (unat (gw_ktime_offset_ns w')) - int d\<bar> \<le> int (window (readings i)) + 1)"
proof -
  have clocks: "map clocks [0..<20] = map Some (map readings [0..<20])" using assms by simp
  have all: "\<forall>r\<in>set (map readings [0..<20]). reading_of d r" using assms by simp
  have "d < 2 ^ 63" using assms [rule_format, of 0] by (cases "readings 0") (simp add: reading_of_def)
  then have "near d (unat (- 1 :: u64)) 0" by (simp add: near_def unsigned_minus_1_eq_mask mask_eq_exp_minus_1)
  from calibrate_loop_near [OF all this] show ?thesis
    unfolding calibrate_ktime_offset_locked_def clocks near_def by fastforce
qed

theorem calibration_error_witness:
  "\<exists>w'. calibrate_ktime_offset_locked (\<lambda>i. Some ((100, 0), (40, 3), (100, 8))) (GpdataWriter_init []) = (w', True)
    \<and> 2 * \<bar>int (unat (gw_ktime_offset_ns w')) - 59999999999\<bar> \<le> 9"
proof -
  let ?r = "((100, 0), (40, 3), (100, 8)) :: timespec \<times> timespec \<times> timespec"
  have r: "reading_of 59999999999 ?r" and w: "window ?r = 8"
    by (simp_all add: reading_of_def window_def timespec_to_ns_def)
  have "\<exists>w'. calibrate_ktime_offset_locked (\<lambda>i. Some ?r) (GpdataWriter_init []) = (w', True)
    \<and> (\<forall>i<20::nat. 2 * \<bar>int (unat (gw_ktime_offset_ns w')) - int 59999999999\<bar> \<le> int (window ?r) + 1)"
    by (rule calibration_error) (simp add: r)
  then obtain w' where "calibrate_ktime_offset_locked (\<lambda>i. Some ?r) (GpdataWriter_init []) = (w', True)"
    "\<forall>i<20::nat. 2 * \<bar>int (unat (gw_ktime_offset_ns w')) - int 59999999999\<bar> \<le> int (window ?r) + 1" by blast
  from this(1) this(2) [rule_format, of 0] w show ?thesis by auto
qed

section \<open>The traced processes\<close>

text \<open>While the monitor is active, the processes the kernel traces are exactly those the daemon has a name for.\<close>

definition gpdata_ok :: "gpdata \<Rightarrow> bool" where
  "gpdata_ok g \<longleftrightarrow> map_ok (gpdata_pid_to_task g) \<and>
     (is_active (gd_monitor g) \<longrightarrow> (\<exists>s. sm_skel (gd_monitor g) = Some s
        \<and> dom (pid_filter_map s) = fst ` set (gpdata_pid_to_task g) \<and> (\<forall>pid\<in>dom (pid_filter_map s). 0 < pid)))"

lemma is_active_skel [simp]: "is_active (m\<lparr>sm_skel := x\<rparr>) = is_active m"
  by (simp add: is_active_def)

lemma dom_hash_update [simp]:
  "dom (hash_update room k v m) = (if room \<or> m k \<noteq> None then insert k (dom m) else dom m)"
  by (auto simp: hash_update_def)

lemma add_pid_effect:
  assumes "sm_skel m = Some s" "is_active m" "0 < pid"
  shows "add_pid room pid m = (m\<lparr>sm_skel := Some (s\<lparr>pid_filter_map := hash_update room pid 1 (pid_filter_map s)\<rparr>)\<rparr>,
    room \<or> pid \<in> dom (pid_filter_map s))"
  using assms by (auto simp: add_pid_def)

lemma gpdata_register_ok [preserve]:
  assumes "gpdata_ok g"
  shows "gpdata_ok (gpdata_register enable_plot room pid task_id g)"
proof (cases "enable_plot \<and> is_active (gd_monitor g) \<and> 0 < pid")
  case True
  then obtain s where s: "sm_skel (gd_monitor g) = Some s" "dom (pid_filter_map s) = fst ` set (gpdata_pid_to_task g)"
    "\<forall>pid\<in>dom (pid_filter_map s). 0 < pid" "map_ok (gpdata_pid_to_task g)"
    using assms by (auto simp: gpdata_ok_def)
  show ?thesis
  proof (cases "room \<or> pid \<in> dom (pid_filter_map s)")
    case added: True
    then have "room \<or> pid_filter_map s pid \<noteq> None" by auto
    with s True added show ?thesis
      by (simp add: gpdata_register_def add_pid_effect gpdata_ok_def fst_set_map_put map_ok_put)
  next
    case False
    then have "\<not> room" "pid_filter_map s pid = None" by auto
    with s True False show ?thesis
      by (simp add: gpdata_register_def add_pid_effect gpdata_ok_def)
  qed
next
  case False
  with assms show ?thesis by (auto simp: gpdata_register_def add_pid_def)
qed

lemma remove_pids_effect:
  assumes "sm_skel m = Some s" "is_active m" "\<forall>pid\<in>set pids. 0 < pid"
  shows "fold (\<lambda>pid m. fst (remove_pid pid m)) pids m
    = m\<lparr>sm_skel := Some (s\<lparr>pid_filter_map := (\<lambda>p. if p \<in> set pids then None else pid_filter_map s p)\<rparr>)\<rparr>"
  using assms
proof (induction pids arbitrary: m s)
  case (Cons pid pids)
  have "fst (remove_pid pid m) = m\<lparr>sm_skel := Some (s\<lparr>pid_filter_map := (pid_filter_map s)(pid := None)\<rparr>)\<rparr>"
    using Cons.prems by (auto simp: remove_pid_def is_active_def)
  moreover have "(\<lambda>p. if p \<in> set pids then None else (f(pid := None)) p)
      = (\<lambda>p. if p \<in> set (pid # pids) then None else f p)" for f :: "int \<rightharpoonup> u8"
    by auto
  ultimately show ?case
    using Cons.prems Cons.IH [of "fst (remove_pid pid m)" "s\<lparr>pid_filter_map := (pid_filter_map s)(pid := None)\<rparr>"]
    by (simp cong: if_cong)
qed simp

lemma gpdata_forget_ok [preserve]:
  assumes "gpdata_ok g"
  shows "gpdata_ok (gpdata_forget enable_plot g)"
proof (cases "enable_plot \<and> is_active (gd_monitor g)")
  case True
  then obtain s where s: "sm_skel (gd_monitor g) = Some s" "dom (pid_filter_map s) = fst ` set (gpdata_pid_to_task g)"
    "\<forall>pid\<in>dom (pid_filter_map s). 0 < pid"
    using assms by (auto simp: gpdata_ok_def)
  moreover from s(2) have "(\<lambda>p. if p \<in> fst ` set (gpdata_pid_to_task g) then None else pid_filter_map s p) = Map.empty"
    by (auto simp: fun_eq_iff dom_def)
  ultimately show ?thesis
    using True by (simp add: gpdata_forget_def gpdata_ok_def remove_pids_effect)
qed (use assms in \<open>auto simp: gpdata_forget_def\<close>)

lemma gpdata_start_ok: "gpdata_ok (gpdata_start enable_plot node_id clocks a gpdata_init)"
  by (auto simp: gpdata_ok_def gpdata_start_def gpdata_init_def SchedstatMonitor_init_def monitor_start_def
      is_active_def schedstat_maps_def Let_def split: prod.split bool.split)

lemma gpdata_shutdown_ok [preserve]: "gpdata_ok g \<Longrightarrow> gpdata_ok (gpdata_shutdown g)"
  by (simp add: gpdata_ok_def gpdata_shutdown_def monitor_stop_def is_active_def)

lemma filter_map_kept [frame]:
  "pid_filter_map (sched_waking room t pid s) = pid_filter_map s"
  "pid_filter_map (sched_switch a t prev next s) = pid_filter_map s"
  by (simp_all add: sched_waking_def sched_switch_def sched_switch_out_def sched_switch_in_def Let_def split: option.split)

text \<open>A trace point changes the maps of a loaded skeleton.\<close>

definition trace_point :: "(schedstat_bpf \<Rightarrow> schedstat_bpf) \<Rightarrow> gpdata \<Rightarrow> gpdata" where
  "trace_point f g = g\<lparr>gd_monitor := (gd_monitor g)\<lparr>sm_skel := map_option f (sm_skel (gd_monitor g))\<rparr>\<rparr>"

lemma trace_point_ok [preserve]:
  assumes "gpdata_ok g" "\<And>s. pid_filter_map (f s) = pid_filter_map s"
  shows "gpdata_ok (trace_point f g)"
  using assms by (auto simp: gpdata_ok_def trace_point_def)

lemma ring_buffer_callback_frame [frame]:
  "gd_monitor (ring_buffer_callback opens prints e g) = gd_monitor g"
  "gpdata_pid_to_task (ring_buffer_callback opens prints e g) = gpdata_pid_to_task g"
  by (simp_all add: ring_buffer_callback_def gpdata_event_def Let_def split: option.split)

lemma ring_buffer_callbacks_frame [frame]:
  "gd_monitor (fold (\<lambda>e. ring_buffer_callback (f e) (h e) e) es g) = gd_monitor g"
  "gpdata_pid_to_task (fold (\<lambda>e. ring_buffer_callback (f e) (h e) e) es g) = gpdata_pid_to_task g"
  by (induction es arbitrary: g) (simp_all add: frame)

lemma poll_turn_ok [preserve]: "gpdata_ok g \<Longrightarrow> gpdata_ok (fst (poll_turn ret file g))"
  by (cases "sm_skel (gd_monitor g)") (simp_all add: gpdata_ok_def poll_turn_def frame)

text \<open>The life of the trace in the daemon: tables are applied, processes registered, the trace points run and
  the ring buffer is polled, in any order.\<close>

inductive gpdata_reach :: "gpdata \<Rightarrow> bool" where
  start: "gpdata_reach (gpdata_start enable_plot node_id clocks a gpdata_init)"
| register: "gpdata_reach g \<Longrightarrow> gpdata_reach (gpdata_register enable_plot room pid task_id g)"
| forget: "gpdata_reach g \<Longrightarrow> gpdata_reach (gpdata_forget enable_plot g)"
| waking: "gpdata_reach g \<Longrightarrow> gpdata_reach (trace_point (sched_waking room t pid) g)"
| switch: "gpdata_reach g \<Longrightarrow> gpdata_reach (trace_point (sched_switch sw t prev next) g)"
| poll: "gpdata_reach g \<Longrightarrow> gpdata_reach (fst (poll_turn ret file g))"
| shutdown: "gpdata_reach g \<Longrightarrow> gpdata_reach (gpdata_shutdown g)"

text \<open>C38: In every reachable state of the trace the daemon's table of names is a well-formed map, and while the
  monitor is active its BPF maps are loaded and the processes the kernel traces are exactly those the table
  names, all with positive ids: no process of an old table stays traced, and every traced process has a name.\<close>

theorem traced_processes_named:
  assumes "gpdata_reach g"
  shows "map_ok (gpdata_pid_to_task g) \<and> (is_active (gd_monitor g) \<longrightarrow>
    (\<exists>s. sm_skel (gd_monitor g) = Some s
      \<and> (\<forall>pid. pid_filter_map s pid \<noteq> None \<longleftrightarrow> map_find pid (gpdata_pid_to_task g) \<noteq> None)
      \<and> (\<forall>pid. pid_filter_map s pid \<noteq> None \<longrightarrow> 0 < pid)))"
proof -
  from assms have ok: "gpdata_ok g"
    by (induction rule: gpdata_reach.induct) (auto intro: gpdata_start_ok preserve simp: frame)
  have find: "map_find pid (gpdata_pid_to_task g) \<noteq> None \<longleftrightarrow> pid \<in> fst ` set (gpdata_pid_to_task g)" for pid
    by (auto simp: map_find_None)
  from ok show ?thesis unfolding find gpdata_ok_def by (auto simp: dom_def set_eq_iff)
qed

definition demo_gpdata :: gpdata where
  "demo_gpdata = gpdata_register True True 77 ''brake'' (gpdata_start True ''n1'' (\<lambda>i. Some ((100, 0), (40, 3), (100, 8)))
     \<lparr>sa_open = True, sa_load = 0, sa_ring_buffer = True, sa_attach = 0, sa_map_fd = 5\<rparr> gpdata_init)"

theorem traced_processes_named_witness:
  "is_active (gd_monitor demo_gpdata) \<and> map_find 77 (gpdata_pid_to_task demo_gpdata) = Some ''brake''
    \<and> (\<exists>s. sm_skel (gd_monitor demo_gpdata) = Some s \<and> pid_filter_map s 77 \<noteq> None)"
proof -
  have active: "is_active (gd_monitor demo_gpdata)" "map_find 77 (gpdata_pid_to_task demo_gpdata) = Some ''brake''"
    by code_simp+
  have "gpdata_reach demo_gpdata"
    unfolding demo_gpdata_def by (rule gpdata_reach.register, rule gpdata_reach.start)
  from traced_processes_named [OF this] active show ?thesis by auto
qed

end
