(* ===== verification/Sample_Apps.thy ===== *)
theory Sample_Apps
  imports Std_Double Std_String
begin

text \<open>
  The sample workloads of \<open>sample-apps/src\<close>: the compute kernels, the statistics and the periodic loop of
  \<open>sample_apps.c\<close>, the sporadic task \<open>cbstask.c\<close> and the lookup of a process name in \<open>sched.c\<close>. The answers of
  the clocks, of \<open>rand\<close> and of \<open>malloc\<close> are parameters. The sieve computes with signed \<open>int\<close>s; where an addition or a product would leave
  the range of \<open>int\<close>, which C leaves undefined, the model's value is \<open>None\<close>.
\<close>

section \<open>Configuration and statistics\<close>

record rt_task_config_t =
  period_ms :: u64
  deadline_ms :: u64
  runtime_us :: u64
  task_priority :: int
  enable_stats :: bool
  task_name :: string

record rt_stats_t =
  min_runtime_us :: u64
  max_runtime_us :: u64
  avg_runtime_us :: u64
  total_runtime_us :: u64
  deadline_misses :: u64
  iterations :: u64
  last_runtime_us :: u64

definition rt_task_init :: rt_task_config_t where
  "rt_task_init = \<lparr>period_ms = 100, deadline_ms = 100, runtime_us = 50000, task_priority = 50, enable_stats = True,
     task_name = ''rt_task''\<rparr>"

definition rt_stats_init :: rt_stats_t where
  "rt_stats_init = \<lparr>min_runtime_us = - 1, max_runtime_us = 0, avg_runtime_us = 0, total_runtime_us = 0,
     deadline_misses = 0, iterations = 0, last_runtime_us = 0\<rparr>"

definition rt_stats_update :: "u64 \<Rightarrow> bool \<Rightarrow> rt_stats_t \<Rightarrow> rt_stats_t" where
  "rt_stats_update runtime deadline_miss s =
     (let s = s\<lparr>last_runtime_us := runtime, total_runtime_us := total_runtime_us s + runtime,
                iterations := iterations s + 1\<rparr>;
          s = (if runtime < min_runtime_us s then s\<lparr>min_runtime_us := runtime\<rparr> else s);
          s = (if max_runtime_us s < runtime then s\<lparr>max_runtime_us := runtime\<rparr> else s);
          s = s\<lparr>avg_runtime_us := total_runtime_us s div iterations s\<rparr>
      in if deadline_miss then s\<lparr>deadline_misses := deadline_misses s + 1\<rparr> else s)"

section \<open>Compute kernels\<close>

definition EXIT_SUCCESS :: int where "EXIT_SUCCESS = 0"
definition EXIT_FAILURE :: int where "EXIT_FAILURE = 1"

text \<open>The loop with a bound on its turns; \<open>None\<close> stands for a loop that is still running.\<close>

fun fibonacci_loop :: "nat \<Rightarrow> u64 \<Rightarrow> u64 \<Rightarrow> u64 \<Rightarrow> (u64 \<times> u64) option" where
  "fibonacci_loop 0 f1 f2 i = None"
| "fibonacci_loop (Suc turns) f1 f2 i =
     (let fn = f1 + f2 in
      if fn AND 0x8000000000000000 = 0 then fibonacci_loop turns f2 fn (i + 1) else Some (fn, i + 1))"

definition stress_cpu_fibonacci :: "nat \<Rightarrow> int option" where
  "stress_cpu_fibonacci turns =
     map_option (\<lambda>(fn, i). if 0xa94fad42221f2702 \<noteq> fn then EXIT_FAILURE else EXIT_SUCCESS) (fibonacci_loop turns 0 1 0)"

text \<open>\<open>rnd\<close> gives the answers of \<open>rand\<close>, which are at most \<open>RAND_MAX\<close>.\<close>

definition matrix_dim :: "int \<Rightarrow> nat" where
  "matrix_dim msize = (if msize \<le> 0 then 64 else nat msize)"

definition matrix_a :: "nat \<Rightarrow> (nat \<Rightarrow> nat) \<Rightarrow> nat \<Rightarrow> nat \<Rightarrow> nat \<Rightarrow> double" where
  "matrix_a rand_max rnd msize i j = fdiv (of_nat (rnd (2 * (i * msize + j)))) (of_nat rand_max)"

definition matrix_b :: "nat \<Rightarrow> (nat \<Rightarrow> nat) \<Rightarrow> nat \<Rightarrow> nat \<Rightarrow> nat \<Rightarrow> double" where
  "matrix_b rand_max rnd msize i j = fdiv (of_nat (rnd (2 * (i * msize + j) + 1))) (of_nat rand_max)"

definition matrix_c :: "nat \<Rightarrow> (nat \<Rightarrow> nat) \<Rightarrow> nat \<Rightarrow> nat \<Rightarrow> nat \<Rightarrow> double" where
  "matrix_c rand_max rnd msize i j =
     foldl (\<lambda>c k. fadd c (fl (matrix_a rand_max rnd msize i k * matrix_b rand_max rnd msize k j))) 0 [0..<msize]"

definition matrix_checksum :: "nat \<Rightarrow> (nat \<Rightarrow> nat) \<Rightarrow> nat \<Rightarrow> double" where
  "matrix_checksum rand_max rnd msize =
     foldl (\<lambda>checksum i. foldl (\<lambda>checksum j. fadd checksum (matrix_c rand_max rnd msize i j)) checksum [0..<msize]) 0 [0..<msize]"

definition stress_cpu_matrix :: "nat \<Rightarrow> (nat \<Rightarrow> nat) \<Rightarrow> int \<Rightarrow> int" where
  "stress_cpu_matrix rand_max rnd msize =
     (if matrix_checksum rand_max rnd (matrix_dim msize) < 0 then EXIT_FAILURE else EXIT_SUCCESS)"

definition crypto_step :: "u32 list \<Rightarrow> nat \<Rightarrow> u32 list \<Rightarrow> u32 list" where
  "crypto_step data i hash =
     (let w = data ! (i mod 16);
          w = (push_bit 1 w OR drop_bit 31 w) XOR hash ! (i mod 8);
          temp = hash ! 7 + w + of_nat i
      in [temp, hash ! 0, hash ! 1, hash ! 2, hash ! 3 + temp, hash ! 4, hash ! 5, hash ! 6])"

definition crypto_round :: "u32 list \<times> u32 list \<Rightarrow> u32 list \<times> u32 list" where
  "crypto_round st =
     (let (data, hash) = st;
          hash = fold (crypto_step data) [0..<64] hash
      in (map (\<lambda>i. data ! i XOR hash ! (i mod 8)) [0..<16], hash))"

definition stress_cpu_crypto :: "(nat \<Rightarrow> u32) \<Rightarrow> int \<Rightarrow> int" where
  "stress_cpu_crypto rnd rounds =
     (let rounds = (if rounds \<le> 0 then 1000 else rounds);
          hash = [0x6a09e667, 0xbb67ae85, 0x3c6ef372, 0xa54ff53a, 0x510e527f, 0x9b05688c, 0x1f83d9ab, 0x5be0cd19];
          (data, hash) = (crypto_round ^^ nat rounds) (map rnd [0..<16], hash);
          final_hash = foldl (XOR) 0 hash
      in if final_hash = 0 then EXIT_FAILURE else EXIT_SUCCESS)"

definition INT_RANGE :: nat where "INT_RANGE = 2 ^ 31"

function mark_multiples :: "nat \<Rightarrow> nat \<Rightarrow> nat \<Rightarrow> bool list \<Rightarrow> bool list option" where
  "mark_multiples limit i j is_prime =
     (if j \<le> limit \<and> 0 < i
      then if INT_RANGE \<le> j + i then None else mark_multiples limit i (j + i) (is_prime[j := False])
      else Some is_prime)"
  by pat_completeness auto
termination by (relation "measure (\<lambda>(limit, i, j, is_prime). Suc limit - j)") auto

function sieve_loop :: "nat \<Rightarrow> nat \<Rightarrow> bool list \<Rightarrow> bool list option" where
  "sieve_loop limit i is_prime =
     (if INT_RANGE \<le> i * i then None
      else if i * i \<le> limit
      then case (if is_prime ! i then mark_multiples limit i (i * i) is_prime else Some is_prime) of
             None \<Rightarrow> None
           | Some is_prime' \<Rightarrow> sieve_loop limit (i + 1) is_prime'
      else Some is_prime)"
  by pat_completeness auto
termination
proof (relation "measure (\<lambda>(limit, i, is_prime). Suc limit - i)")
  fix limit i :: nat and is_prime is_prime' :: "bool list"
  assume "\<not> INT_RANGE \<le> i * i" and "i * i \<le> limit"
  moreover have "i \<le> i * i" by (cases i) simp_all
  ultimately have "i \<le> limit" by linarith
  then show "((limit, i + 1, is_prime'), limit, i, is_prime) \<in> measure (\<lambda>(limit, i, is_prime). Suc limit - i)"
    by simp
qed simp

declare mark_multiples.simps [simp del] sieve_loop.simps [simp del]

definition sieve :: "nat \<Rightarrow> bool list option" where
  "sieve limit =
     (if INT_RANGE \<le> limit + 1 then None
      else sieve_loop limit 2 ((replicate (limit + 1) True)[1 := False, 0 := False]))"

definition prime_count :: "nat \<Rightarrow> bool list \<Rightarrow> int" where
  "prime_count limit is_prime = foldl (\<lambda>n i. if is_prime ! i then n + 1 else n) 0 [2..<limit + 1]"

definition prime_limit :: "int \<Rightarrow> nat" where
  "prime_limit limit = (if limit \<le> 0 then 100000 else nat limit)"

definition stress_cpu_prime :: "bool \<Rightarrow> int \<Rightarrow> int option" where
  "stress_cpu_prime allocated limit =
     (let limit = prime_limit limit in
      if INT_RANGE \<le> limit + 1 then None
      else if \<not> allocated then Some EXIT_FAILURE
      else case sieve limit of
             None \<Rightarrow> None
           | Some is_prime \<Rightarrow>
               if limit = 100000 \<and> prime_count limit is_prime \<noteq> 9592 then Some EXIT_FAILURE
               else Some EXIT_SUCCESS)"

text \<open>The busy loops read the CPU clock until the runtime is reached; the result is the index of the last
  reading, \<open>None\<close> if the loop does not end.\<close>

partial_function (option) busy_wait :: "(nat \<Rightarrow> u64) \<Rightarrow> u64 \<Rightarrow> u64 \<Rightarrow> nat \<Rightarrow> nat option" where
  "busy_wait clock start_ns runtime_ns i =
     (if runtime_ns \<le> clock i - start_ns then Some i else busy_wait clock start_ns runtime_ns (Suc i))"

definition stress_cpu_busyloop :: "(nat \<Rightarrow> u64) \<Rightarrow> i32 \<Rightarrow> nat option" where
  "stress_cpu_busyloop clock runtime = busy_wait clock (clock 0) (scast (runtime * 1000)) 1"

section \<open>The periodic task\<close>

type_synonym timespec = "int \<times> int"

definition ts_ns :: "timespec \<Rightarrow> int" where
  "ts_ns a = fst a * 1000000000 + snd a"

definition strtoul10 :: "string \<Rightarrow> u64" where
  "strtoul10 s =
     (let (neg, r) = take_sign (dropWhile is_space s);
          v = digits_val (takeWhile is_digit r)
      in if 2 ^ 64 \<le> v then - 1 else if neg then - of_nat v else of_nat v)"

definition atoi :: "string \<Rightarrow> int" where
  "atoi s = (case strtol10 s of None \<Rightarrow> 0 | Some (v, _) \<Rightarrow> sint (of_int v :: i32))"

record app_options =
  task_config :: rt_task_config_t
  algo :: int
  loop_cnt :: int
  use_timer :: bool
  use_bpf :: bool

definition app_options_init :: app_options where
  "app_options_init = \<lparr>task_config = rt_task_init, algo = 1, loop_cnt = 10, use_timer = False, use_bpf = False\<rparr>"

text \<open>
  \<open>opts\<close> is what \<open>getopt_long\<close> returns, option by option with its argument. A left result is the exit status of
  a program that ends while it reads its options.
\<close>

fun parse_app_options :: "(char \<times> string) list \<Rightarrow> app_options \<Rightarrow> int + app_options" where
  "parse_app_options [] o1 = Inr o1"
| "parse_app_options ((opt, optarg) # opts) o1 =
     (let c = task_config o1 in
      if opt = CHR ''p'' then parse_app_options opts (o1\<lparr>task_config := c\<lparr>period_ms := strtoul10 optarg\<rparr>\<rparr>)
      else if opt = CHR ''d'' then parse_app_options opts (o1\<lparr>task_config := c\<lparr>deadline_ms := strtoul10 optarg\<rparr>\<rparr>)
      else if opt = CHR ''r'' then parse_app_options opts (o1\<lparr>task_config := c\<lparr>runtime_us := strtoul10 optarg\<rparr>\<rparr>)
      else if opt = CHR ''P'' then
        (if atoi optarg < 1 \<or> 99 < atoi optarg then Inl EXIT_FAILURE
         else parse_app_options opts (o1\<lparr>task_config := c\<lparr>task_priority := atoi optarg\<rparr>\<rparr>))
      else if opt = CHR ''a'' then
        (if atoi optarg < 1 \<or> 8 < atoi optarg then Inl EXIT_FAILURE
         else parse_app_options opts (o1\<lparr>algo := atoi optarg\<rparr>))
      else if opt = CHR ''l'' then parse_app_options opts (o1\<lparr>loop_cnt := atoi optarg\<rparr>)
      else if opt = CHR ''s'' then parse_app_options opts (o1\<lparr>task_config := c\<lparr>enable_stats := True\<rparr>\<rparr>)
      else if opt = CHR ''t'' then parse_app_options opts (o1\<lparr>use_timer := True\<rparr>)
      else if opt = CHR ''b'' then parse_app_options opts (o1\<lparr>use_bpf := True\<rparr>)
      else if opt = CHR ''h'' \<or> opt = CHR ''V'' then Inl EXIT_SUCCESS
      else Inl EXIT_FAILURE)"

definition app_config :: "(char \<times> string) list \<Rightarrow> string list \<Rightarrow> int + app_options" where
  "app_config opts rest =
     bindE (parse_app_options opts app_options_init) (\<lambda>o1.
       case rest of
         [] \<Rightarrow> Inl EXIT_FAILURE
       | name # _ \<Rightarrow>
           (let c = (task_config o1)\<lparr>task_name := take 15 (c_str name)\<rparr>;
                c = (if deadline_ms c = 100 \<and> period_ms c \<noteq> 100 then c\<lparr>deadline_ms := period_ms c\<rparr> else c)
            in Inr (o1\<lparr>task_config := c\<rparr>)))"

text \<open>First expiry and interval of the periodic timer.\<close>

definition periodic_timer :: "u64 \<Rightarrow> timespec" where
  "periodic_timer period = (int (unat (period div 1000)), int (unat (period mod 1000 * 1000000)))"

definition deadline_time :: "u64 \<Rightarrow> timespec \<Rightarrow> timespec" where
  "deadline_time deadline before =
     (let sec = fst before + int (unat (deadline div 1000));
          nsec = snd before + int (unat (deadline mod 1000 * 1000000))
      in if 1000000000 \<le> nsec then (sec + 1, nsec - 1000000000) else (sec, nsec))"

text \<open>One period, from the readings of the clock before and after the work.\<close>

definition app_iteration :: "rt_task_config_t \<Rightarrow> timespec \<Rightarrow> timespec \<Rightarrow> rt_stats_t \<Rightarrow> rt_stats_t" where
  "app_iteration c before after s =
     (let runtime = of_int ((ts_ns after - ts_ns before) div 1000);
          deadline_miss = ts_ns (deadline_time (deadline_ms c) before) < ts_ns after
      in if enable_stats c then rt_stats_update runtime deadline_miss s else s)"

text \<open>How a wait for the next period ends: the work runs between two readings of the clock, the wake-up is
  skipped, or waiting fails and the loop is left.\<close>

datatype wakeup = Work timespec timespec | Skipped | Wait_failed

fun app_loop :: "rt_task_config_t \<Rightarrow> wakeup list \<Rightarrow> rt_stats_t \<Rightarrow> rt_stats_t" where
  "app_loop c [] s = s"
| "app_loop c (Work before after # ws) s = app_loop c ws (app_iteration c before after s)"
| "app_loop c (Skipped # ws) s = app_loop c ws s"
| "app_loop c (Wait_failed # ws) s = s"

section \<open>The sporadic task\<close>

record cbs_task =
  task_mit_ms :: u64
  task_wcet_ms :: u64
  last_wakeup_ns :: u64

definition get_random :: "nat \<Rightarrow> u32 \<Rightarrow> u32 \<Rightarrow> u32" where
  "get_random r mn mx = of_nat r mod (mx - mn + 1) + mn"

definition inter_arrival_ns :: "nat \<Rightarrow> cbs_task \<Rightarrow> u64" where
  "inter_arrival_ns r t =
     (let random_pct = ucast (get_random r 0 50);
          extra_ms = task_mit_ms t * random_pct div 100
      in (task_mit_ms t + extra_ms) * 1000000)"

text \<open>The time the task sleeps, with \<open>now_ns\<close> the monotonic clock when it is read.\<close>

definition sleep_ns :: "nat \<Rightarrow> u64 \<Rightarrow> cbs_task \<Rightarrow> u64" where
  "sleep_ns r now_ns t =
     (let ia = inter_arrival_ns r t in
      if last_wakeup_ns t \<noteq> 0
      then let diff_ns = now_ns - last_wakeup_ns t in if diff_ns < ia then ia - diff_ns else 0
      else ia)"

definition get_cbs_event :: "nat \<Rightarrow> u64 \<Rightarrow> u64 \<Rightarrow> cbs_task \<Rightarrow> timespec \<times> cbs_task" where
  "get_cbs_event r now_ns woke_ns t =
     (let ns = sleep_ns r now_ns t
      in ((int (unat (ns div 1000000000)), int (unat (ns mod 1000000000))), t\<lparr>last_wakeup_ns := woke_ns\<rparr>))"

definition do_workload :: "(nat \<Rightarrow> u64) \<Rightarrow> cbs_task \<Rightarrow> nat option" where
  "do_workload clock t =
     (let runtime_ns = task_wcet_ms t * 1000000;
          runtime_adjust_ns = runtime_ns * 95 div 100
      in busy_wait clock (clock 0) runtime_adjust_ns 1)"

section \<open>Process names\<close>

text \<open>The contents of \<open>/proc/<pid>/comm\<close>, if the file opens, are read into the 16 bytes of \<open>name\<close>.\<close>

definition get_process_name_by_pid :: "string option \<Rightarrow> string \<Rightarrow> string" where
  "get_process_name_by_pid comm name =
     (case comm of
        None \<Rightarrow> name
      | Some content \<Rightarrow>
          (let bytes_read = take 16 content; n = length bytes_read; name = bytes_read @ drop n name
           in if 0 < n \<and> bytes_read ! (n - 1) = CHR 0x0A then name[n - 1 := CHR 0x00] else name))"

section \<open>The sieve\<close>

definition prime_nat :: "nat \<Rightarrow> bool" where
  "prime_nat n \<longleftrightarrow> 2 \<le> n \<and> (\<forall>d. d dvd n \<longrightarrow> d = 1 \<or> d = n)"

text \<open>Not crossed out after the turns below \<open>i\<close>: no divisor from 2 up to \<open>i\<close> but the number itself.\<close>

definition unsieved :: "nat \<Rightarrow> nat \<Rightarrow> bool" where
  "unsieved i n \<longleftrightarrow> 2 \<le> n \<and> (\<forall>d. 2 \<le> d \<longrightarrow> d < i \<longrightarrow> d dvd n \<longrightarrow> d = n)"

lemma mark_multiples_correct:
  assumes "0 < i" "length ps = Suc limit" "limit + i < INT_RANGE"
  shows "\<exists>ps'. mark_multiples limit i j ps = Some ps' \<and> length ps' = Suc limit
    \<and> (\<forall>n\<le>limit. ps' ! n \<longleftrightarrow> ps ! n \<and> \<not> (\<exists>k. n = j + k * i))"
  using assms
proof (induction limit i j ps rule: mark_multiples.induct)
  case (1 limit i j ps)
  show ?case
  proof (cases "j \<le> limit")
    case True
    have step: "(\<exists>k. n = j + k * i) \<longleftrightarrow> n = j \<or> (\<exists>k. n = j + i + k * i)" for n
    proof
      assume "\<exists>k. n = j + k * i"
      then obtain k where "n = j + k * i" by blast
      then show "n = j \<or> (\<exists>k. n = j + i + k * i)" by (cases k) auto
    next
      assume "n = j \<or> (\<exists>k. n = j + i + k * i)"
      then show "\<exists>k. n = j + k * i"
        by (elim disjE exE) (auto intro: exI [of _ 0], metis mult_Suc)
    qed
    have small: "\<not> INT_RANGE \<le> j + i" using True "1.prems"(3) by simp
    then obtain ps' where ps': "mark_multiples limit i (j + i) (ps[j := False]) = Some ps'" "length ps' = Suc limit"
      "\<forall>n\<le>limit. ps' ! n \<longleftrightarrow> ps[j := False] ! n \<and> \<not> (\<exists>k. n = j + i + k * i)"
      using "1.IH" True "1.prems" by auto
    have "mark_multiples limit i j ps = Some ps'"
      using True "1.prems"(1) small ps'(1) by (subst mark_multiples.simps) simp
    moreover have "ps' ! n \<longleftrightarrow> ps ! n \<and> \<not> (\<exists>k. n = j + k * i)" if "n \<le> limit" for n
      unfolding step using ps'(3) that True "1.prems"(2) by (auto simp: nth_list_update)
    ultimately show ?thesis using ps'(2) by blast
  next
    case False
    then have "\<not> (\<exists>k. n = j + k * i)" if "n \<le> limit" for n using that by auto
    with False "1.prems"(2) show ?thesis by (subst mark_multiples.simps) simp
  qed
qed

lemma unsieved_Suc: "unsieved (Suc i) n \<longleftrightarrow> unsieved i n \<and> (2 \<le> i \<longrightarrow> i dvd n \<longrightarrow> i = n)"
  by (auto simp: unsieved_def less_Suc_eq)

lemma unsieved_mark:
  assumes "2 \<le> i" "unsieved i i"
  shows "unsieved (Suc i) n \<longleftrightarrow> unsieved i n \<and> \<not> (\<exists>k. n = i * i + k * i)"
proof -
  have "(i dvd n \<longrightarrow> i = n) \<longleftrightarrow> \<not> (\<exists>k. n = i * i + k * i)" if un: "unsieved i n"
  proof
    assume hyp: "i dvd n \<longrightarrow> i = n"
    show "\<not> (\<exists>k. n = i * i + k * i)"
    proof
      assume "\<exists>k. n = i * i + k * i"
      then obtain k where k: "n = (i + k) * i" by (auto simp: algebra_simps)
      with hyp have "i = (i + k) * i" by simp
      with assms(1) show False by simp
    qed
  next
    assume none: "\<not> (\<exists>k. n = i * i + k * i)"
    show "i dvd n \<longrightarrow> i = n"
    proof
      assume "i dvd n"
      then obtain k where k: "n = i * k" by (rule dvdE)
      have "k < i"
      proof (rule ccontr)
        assume "\<not> k < i"
        then obtain m where "k = i + m" by (auto simp: not_less dest: le_Suc_ex)
        then have "n = i * i + m * i" using k by (simp add: algebra_simps)
        with none show False by blast
      qed
      have "2 \<le> n" using un by (simp add: unsieved_def)
      moreover have "k \<noteq> 0" using \<open>2 \<le> n\<close> k by (auto intro: ccontr)
      moreover have "2 \<le> k \<longrightarrow> k = n" using un k \<open>k < i\<close> by (auto simp: unsieved_def)
      ultimately have "k = 1" using k assms(1) by (cases "2 \<le> k") auto
      with k show "i = n" by simp
    qed
  qed
  with assms(1) show ?thesis by (auto simp: unsieved_Suc)
qed

lemma unsieved_skip:
  assumes "2 \<le> i" "\<not> unsieved i i"
  shows "unsieved (Suc i) n \<longleftrightarrow> unsieved i n"
proof -
  from assms obtain d where d: "2 \<le> d" "d < i" "d dvd i" by (auto simp: unsieved_def)
  have "i = n" if "unsieved i n" "i dvd n"
  proof -
    have "d dvd n" using d(3) that(2) by (rule dvd_trans)
    with that(1) d have "d = n" by (auto simp: unsieved_def)
    moreover have "i \<le> n" using that by (intro dvd_imp_le) (auto simp: unsieved_def)
    ultimately show ?thesis using d(2) by simp
  qed
  with assms(1) show ?thesis by (auto simp: unsieved_Suc)
qed

lemma unsieved_root:
  assumes "n < i * i"
  shows "unsieved i n \<longleftrightarrow> prime_nat n"
proof
  assume "prime_nat n"
  then show "unsieved i n" by (fastforce simp: prime_nat_def unsieved_def)
next
  assume un: "unsieved i n"
  have "d = 1 \<or> d = n" if "d dvd n" for d
  proof (rule ccontr)
    assume not: "\<not> (d = 1 \<or> d = n)"
    from that obtain e where e: "n = d * e" by (rule dvdE)
    have "2 \<le> n" using un by (simp add: unsieved_def)
    then have "d \<noteq> 0" "e \<noteq> 0" using e by (auto intro: ccontr)
    moreover have "e \<noteq> 1" using e not by auto
    ultimately have de: "2 \<le> d" "2 \<le> e" using not by linarith+
    then have "d \<noteq> n" "e \<noteq> n" using e by simp_all
    moreover have "d dvd n" "e dvd n" unfolding e by simp_all
    ultimately have "\<not> d < i" "\<not> e < i" using un de unfolding unsieved_def by blast+
    then have "i \<le> d" "i \<le> e" by simp_all
    then have "i * i \<le> n" unfolding e by (rule mult_le_mono)
    with assms show False by simp
  qed
  with un show "prime_nat n" by (simp add: prime_nat_def unsieved_def)
qed

lemma sieve_stays_in_int:
  fixes i limit :: nat
  assumes "i * i \<le> limit" "limit + 92681 < INT_RANGE"
  shows "limit + i < INT_RANGE" and "(i + 1) * (i + 1) < INT_RANGE"
proof -
  have "i < 46341"
  proof (rule ccontr)
    assume "\<not> i < 46341"
    then have "46341 * 46341 \<le> i * i" by (intro mult_le_mono) simp_all
    with assms show False by (simp add: INT_RANGE_def)
  qed
  with assms show "limit + i < INT_RANGE" "(i + 1) * (i + 1) < INT_RANGE" by (simp_all add: algebra_simps)
qed

lemma sieve_loop_correct:
  assumes "2 \<le> i" "length ps = Suc limit" "\<forall>n\<le>limit. ps ! n \<longleftrightarrow> unsieved i n"
    and "i * i < INT_RANGE" "limit + 92681 < INT_RANGE"
  shows "\<exists>ps'. sieve_loop limit i ps = Some ps' \<and> (\<forall>n\<le>limit. ps' ! n \<longleftrightarrow> prime_nat n)"
  using assms
proof (induction limit i ps rule: sieve_loop.induct)
  case (1 limit i ps)
  show ?case
  proof (cases "i * i \<le> limit")
    case True
    note small = sieve_stays_in_int [OF True "1.prems"(5)]
    have "i \<le> limit" using True by (rule order_trans [rotated]) simp
    then have i: "ps ! i \<longleftrightarrow> unsieved i i" using "1.prems"(3) by blast
    obtain ps1 where ps1: "(if ps ! i then mark_multiples limit i (i * i) ps else Some ps) = Some ps1"
      "length ps1 = Suc limit" "\<forall>m\<le>limit. ps1 ! m \<longleftrightarrow> unsieved (i + 1) m"
    proof (cases "ps ! i")
      case True
      with mark_multiples_correct [of i ps limit "i * i"] "1.prems"(1-3) small(1) i unsieved_mark [of i] that
      show ?thesis by auto
    next
      case False
      with "1.prems"(1-3) i unsieved_skip [of i] that show ?thesis by auto
    qed
    from "1.IH" [of ps1] ps1 True "1.prems"(1,4,5) small(2)
    obtain ps' where "sieve_loop limit (i + 1) ps1 = Some ps'" "\<forall>n\<le>limit. ps' ! n \<longleftrightarrow> prime_nat n" by auto
    moreover have "sieve_loop limit i ps = sieve_loop limit (i + 1) ps1"
      using True "1.prems"(4) ps1(1) by (subst sieve_loop.simps) simp
    ultimately show ?thesis by simp
  next
    case False
    then have "\<forall>n\<le>limit. ps ! n \<longleftrightarrow> prime_nat n" using "1.prems"(3) unsieved_root [of _ i] by simp
    with False "1.prems"(4) show ?thesis by (subst sieve_loop.simps) simp
  qed
qed

lemma sieve_prime:
  assumes "1 \<le> limit" "limit + 92681 < INT_RANGE"
  shows "\<exists>ps. sieve limit = Some ps \<and> (\<forall>n\<le>limit. ps ! n \<longleftrightarrow> prime_nat n)"
proof -
  let ?ps = "(replicate (limit + 1) True)[1 := False, 0 := False]"
  have "?ps ! m \<longleftrightarrow> unsieved 2 m" if "m \<le> limit" for m
  proof -
    have "?ps ! m \<longleftrightarrow> m \<noteq> 0 \<and> m \<noteq> 1"
      using that assms(1) by (simp add: nth_list_update del: replicate_Suc)
    moreover have "unsieved 2 m \<longleftrightarrow> 2 \<le> m" by (simp add: unsieved_def)
    ultimately show ?thesis by linarith
  qed
  then have "\<exists>ps'. sieve_loop limit 2 ?ps = Some ps' \<and> (\<forall>n\<le>limit. ps' ! n \<longleftrightarrow> prime_nat n)"
    using assms(2) by (intro sieve_loop_correct) (simp_all add: INT_RANGE_def)
  with assms(2) show ?thesis by (simp add: sieve_def)
qed

lemma foldl_count:
  "foldl (\<lambda>n i. if P i then n + 1 else n) (n :: int) xs = n + int (length (filter P xs))"
  by (induction xs arbitrary: n) auto

lemma prime_count_card:
  assumes "\<forall>n\<le>limit. ps ! n \<longleftrightarrow> prime_nat n"
  shows "prime_count limit ps = int (card {p. p \<le> limit \<and> prime_nat p})"
proof -
  have "{p. p \<le> limit \<and> prime_nat p} = set (filter (\<lambda>i. ps ! i) [2..<limit + 1])"
    using assms by (auto simp: prime_nat_def)
  then have "card {p. p \<le> limit \<and> prime_nat p} = length (filter (\<lambda>i. ps ! i) [2..<limit + 1])"
    by (simp only: distinct_card distinct_filter distinct_upt)
  then show ?thesis by (simp add: prime_count_def foldl_count)
qed

text \<open>C40: The prime workload computes the primes. Let the limit be positive and leave room for the last
  steps of the loops below \<open>2^31\<close>. Then no \<open>int\<close> overflows, the sieve holds \<open>true\<close> exactly at the primes,
  its count is their number, and the workload returns; it fails only if the limit is 100000 and the number
  of primes up to it were not the expected 9592.\<close>

theorem stress_cpu_prime_correct:
  assumes "0 < limit" and "limit + 92681 < 2 ^ 31"
  shows "\<exists>ps. sieve (nat limit) = Some ps \<and> (\<forall>n\<le>nat limit. ps ! n \<longleftrightarrow> prime_nat n)
    \<and> prime_count (nat limit) ps = int (card {p. p \<le> nat limit \<and> prime_nat p})
    \<and> stress_cpu_prime True limit
        = Some (if limit = 100000 \<and> card {p. p \<le> 100000 \<and> prime_nat p} \<noteq> 9592 then EXIT_FAILURE else EXIT_SUCCESS)"
proof -
  have one: "1 \<le> nat limit" and small: "nat limit + 92681 < INT_RANGE"
    using assms by (simp_all add: INT_RANGE_def nat_less_iff)
  obtain ps where ps: "sieve (nat limit) = Some ps" "\<forall>n\<le>nat limit. ps ! n \<longleftrightarrow> prime_nat n"
    using sieve_prime [OF one small] by blast
  note count = prime_count_card [OF ps(2)]
  have "limit = 100000 \<longleftrightarrow> nat limit = 100000" by auto
  then have "stress_cpu_prime True limit = Some (if limit = 100000
      \<and> card {p. p \<le> 100000 \<and> prime_nat p} \<noteq> 9592 then EXIT_FAILURE else EXIT_SUCCESS)"
    using assms(1) small ps(1) count by (auto simp: stress_cpu_prime_def prime_limit_def)
  with ps count show ?thesis by blast
qed

theorem stress_cpu_prime_correct_witness:
  "prime_nat 7 \<and> \<not> prime_nat 9 \<and> card {p. p \<le> 10 \<and> prime_nat p} = 4 \<and> stress_cpu_prime True 10 = Some EXIT_SUCCESS"
proof -
  let ?ps = "[False, False, True, True, False, True, False, True, False, False, False]"
  have eval: "sieve 10 = Some ?ps" "prime_count 10 ?ps = 4"
    by (simp_all add: sieve_def sieve_loop.simps mark_multiples.simps INT_RANGE_def prime_count_def upt_rec)
      (simp add: numeral_eq_Suc)
  have "nat 10 = 10" by simp
  with stress_cpu_prime_correct [of 10] eval(1)
  have all: "\<forall>n\<le>10. ?ps ! n \<longleftrightarrow> prime_nat n" "prime_count 10 ?ps = int (card {p. p \<le> 10 \<and> prime_nat p})"
    "stress_cpu_prime True 10 = Some EXIT_SUCCESS" by auto
  show ?thesis using all(1) [rule_format, of 7] all(1) [rule_format, of 9] all(2,3) eval(2) by simp
qed

text \<open>At the top of the range even the size of the array overflows.\<close>

lemma stress_cpu_prime_overflow: "stress_cpu_prime allocated 2147483647 = None"
  by (simp add: stress_cpu_prime_def prime_limit_def INT_RANGE_def)

section \<open>The other kernels\<close>

text \<open>The Fibonacci loop ends after 92 turns, and its check succeeds.\<close>

lemma fibonacci_loop_more: "fibonacci_loop turns f1 f2 i = Some r \<Longrightarrow> fibonacci_loop (turns + k) f1 f2 i = Some r"
  by (induction turns f1 f2 i rule: fibonacci_loop.induct) (auto simp: Let_def split: if_splits)

lemma fibonacci_succeeds: "92 \<le> turns \<Longrightarrow> stress_cpu_fibonacci turns = Some EXIT_SUCCESS"
proof -
  have run: "fibonacci_loop 92 0 1 0 = Some (0xa94fad42221f2702, 92)" by code_simp
  assume "92 \<le> turns"
  then obtain k where turns: "turns = 92 + k" by (auto dest: le_Suc_ex)
  show ?thesis unfolding turns stress_cpu_fibonacci_def fibonacci_loop_more [OF run] by simp
qed

lemma foldl_fadd_nonneg:
  assumes "\<And>k. 0 \<le> f k" "0 \<le> c"
  shows "0 \<le> foldl (\<lambda>c k. fadd c (f k)) c ks"
  using assms(2) by (induction ks arbitrary: c) (simp_all add: fadd_def fl_nonneg assms(1))

lemma matrix_c_nonneg: "0 \<le> matrix_c rand_max rnd msize i j"
  unfolding matrix_c_def
  by (rule foldl_fadd_nonneg) (simp_all add: matrix_a_def matrix_b_def fdiv_def fl_nonneg)

text \<open>The matrix workload cannot fail: its checksum is a rounded sum of products that are not negative.\<close>

lemma stress_cpu_matrix_succeeds: "stress_cpu_matrix rand_max rnd msize = EXIT_SUCCESS"
proof -
  have "0 \<le> foldl (\<lambda>checksum i. foldl (\<lambda>checksum j. fadd checksum (matrix_c rand_max rnd n i j)) checksum js) c is"
    if "0 \<le> c" for js "is" n c
    using that by (induction "is" arbitrary: c) (simp_all add: foldl_fadd_nonneg matrix_c_nonneg)
  then have "0 \<le> matrix_checksum rand_max rnd (matrix_dim msize)" by (simp add: matrix_checksum_def)
  then show ?thesis by (simp add: stress_cpu_matrix_def)
qed

lemma length_crypto_hash:
  "length hash = 8 \<Longrightarrow> length (snd (crypto_round (data, hash))) = 8"
proof -
  have "length (fold (crypto_step data) is hash) = 8" if "length hash = 8" for "is" and hash :: "u32 list"
    using that by (induction "is" arbitrary: hash) (simp_all add: crypto_step_def Let_def)
  then show "length hash = 8 \<Longrightarrow> length (snd (crypto_round (data, hash))) = 8" by (simp add: crypto_round_def Let_def)
qed

text \<open>A busy loop ends at the first reading at which the runtime has passed.\<close>

lemma busy_wait_first:
  assumes "runtime \<le> clock i - start" "\<forall>j. k \<le> j \<longrightarrow> j < i \<longrightarrow> \<not> runtime \<le> clock j - start" "k \<le> i"
  shows "busy_wait clock start runtime k = Some i"
  using assms(2,3)
proof (induction "i - k" arbitrary: k)
  case 0
  with assms(1) show ?case by (subst busy_wait.simps) simp
next
  case (Suc d)
  then have "busy_wait clock start runtime (Suc k) = Some i" by (intro Suc.hyps(1)) auto
  moreover have "\<not> runtime \<le> clock k - start" using Suc.hyps(2) Suc.prems by simp
  ultimately show ?case by (subst busy_wait.simps) simp
qed

lemma busy_wait_ends:
  assumes "runtime \<le> clock i - start" "k \<le> i"
  shows "\<exists>n\<le>i. busy_wait clock start runtime k = Some n \<and> runtime \<le> clock n - start"
proof -
  let ?P = "\<lambda>n. k \<le> n \<and> runtime \<le> clock n - start"
  have P: "?P (LEAST n. ?P n)" using assms by (intro LeastI [of ?P i]) simp
  moreover have "(LEAST n. ?P n) \<le> i" using assms by (intro Least_le) simp
  moreover have "\<not> ?P j" if "j < (LEAST n. ?P n)" for j using that by (rule not_less_Least)
  ultimately show ?thesis using busy_wait_first [of runtime clock "LEAST n. ?P n" start k] by blast
qed

section \<open>Statistics and deadlines\<close>

lemma ts_ns_deadline_time: "ts_ns (deadline_time d before) = ts_ns before + int (unat d) * 1000000"
proof -
  have "unat d = 1000 * unat (d div 1000) + unat (d mod 1000)" by (simp add: unat_div unat_mod)
  then have "int (unat d) = 1000 * int (unat (d div 1000)) + int (unat (d mod 1000))"
    by (metis of_nat_add of_nat_mult of_nat_numeral)
  moreover have "unat (d mod 1000 * 1000000) = unat (d mod 1000) * 1000000"
  proof (rule trans [OF unat_mult_small])
    have "unat (d mod 1000) < 1000" by (simp add: unat_mod)
    then show "unat (d mod 1000) * unat (1000000 :: u64) < 2 ^ LENGTH(64)" by simp
  qed simp
  ultimately show ?thesis by (simp add: ts_ns_def deadline_time_def Let_def)
qed

definition rt_stats_run :: "(u64 \<times> bool) list \<Rightarrow> rt_stats_t" where
  "rt_stats_run h = foldl (\<lambda>s (r, m). rt_stats_update r m s) rt_stats_init h"

text \<open>The statistics of a history of runs, as long as their sum fits 64 bits.\<close>

lemma rt_stats_run_sums:
  assumes "sum_list (map (unat \<circ> fst) h) < 2 ^ 64" "length h < 2 ^ 64"
  shows "unat (total_runtime_us (rt_stats_run h)) = sum_list (map (unat \<circ> fst) h)"
    and "unat (iterations (rt_stats_run h)) = length h"
    and "unat (deadline_misses (rt_stats_run h)) = length (filter snd h)"
  using assms
proof (induction h rule: rev_induct)
  case (snoc x h)
  obtain r m where x: "x = (r, m)" by (cases x)
  have run: "rt_stats_run (h @ [(r, m)]) = rt_stats_update r m (rt_stats_run h)" by (simp add: rt_stats_run_def)
  { case 1
    with snoc.IH(1) show ?case by (simp add: run rt_stats_update_def Let_def unat_add_small x) }
  { case 2
    with snoc.IH(2) show ?case by (simp add: run rt_stats_update_def Let_def unat_add_small x) }
  { case 3
    then have "length (filter snd h) < 2 ^ 64 - 1" by (intro le_less_trans [OF length_filter_le]) simp
    with 3 snoc.IH(3) show ?case by (simp add: run rt_stats_update_def Let_def unat_add_small x) }
qed (simp_all add: rt_stats_run_def rt_stats_init_def)

lemma rt_stats_run_extremes:
  "h \<noteq> [] \<Longrightarrow> min_runtime_us (rt_stats_run h) = Min (fst ` set h) \<and> max_runtime_us (rt_stats_run h) = Max (fst ` set h)"
proof (induction h rule: rev_induct)
  case (snoc x h)
  obtain r m where x: "x = (r, m)" by (cases x)
  have run: "rt_stats_run (h @ [x]) = rt_stats_update r m (rt_stats_run h)" by (simp add: rt_stats_run_def x)
  have mm: "min_runtime_us (rt_stats_update r m s) = min r (min_runtime_us s)"
    "max_runtime_us (rt_stats_update r m s) = max r (max_runtime_us s)" for s
    by (auto simp: rt_stats_update_def Let_def min_def max_def)
  show ?case
  proof (cases "h = []")
    case True
    then show ?thesis unfolding run mm by (simp add: x rt_stats_run_def rt_stats_init_def min_def max_def word_order.extremum_unique)
  next
    case False
    with snoc.IH show ?thesis unfolding run mm by (simp add: x)
  qed
qed simp

section \<open>Arrivals of the sporadic task\<close>

lemma inter_arrival_bounds:
  assumes "unat (task_mit_ms t) \<le> 2 ^ 40"
  shows "unat (task_mit_ms t) * 1000000 \<le> unat (inter_arrival_ns r t)"
    and "2 * unat (inter_arrival_ns r t) \<le> 3 * (unat (task_mit_ms t) * 1000000)"
proof -
  let ?pct = "ucast (get_random r 0 50) :: u64"
  define m where "m = unat (task_mit_ms t)"
  define x where "x = m * unat ?pct"
  have m: "m \<le> 2 ^ 40" using assms by (simp add: m_def)
  have "unat ?pct \<le> 50"
    unfolding unat_ucast_32_64 by (simp add: get_random_def unat_mod)
  then have x: "x \<le> m * 50" unfolding x_def by (rule mult_le_mono2)
  then have "x < 2 ^ 64" using m by simp
  then have "unat (task_mit_ms t * ?pct) = x"
    unfolding x_def m_def by (intro unat_mult_small) simp
  then have e: "unat (task_mit_ms t * ?pct div 100) = x div 100" by (simp add: unat_div)
  have le: "2 * (x div 100) \<le> m" using x by linarith
  have s: "unat (task_mit_ms t + task_mit_ms t * ?pct div 100) = m + x div 100"
    using le m by (subst unat_add_small) (simp_all add: e flip: m_def)
  have "unat (inter_arrival_ns r t) = (m + x div 100) * 1000000"
    unfolding inter_arrival_ns_def Let_def using le m by (subst unat_mult_small) (simp_all add: s)
  then show "unat (task_mit_ms t) * 1000000 \<le> unat (inter_arrival_ns r t)"
    and "2 * unat (inter_arrival_ns r t) \<le> 3 * (unat (task_mit_ms t) * 1000000)"
    using le by (simp_all flip: m_def)
qed

text \<open>Two wake-ups of the sporadic task are at least its minimum inter-arrival time apart, when
  \<open>nanosleep\<close> sleeps for at least the requested time.\<close>

lemma cbs_arrivals_apart:
  assumes "unat (task_mit_ms t) \<le> 2 ^ 40" "last_wakeup_ns t \<noteq> 0" "last_wakeup_ns t \<le> now_ns"
    and "unat now_ns + unat (sleep_ns r now_ns t) \<le> unat woke_ns"
  shows "unat (last_wakeup_ns t) + unat (task_mit_ms t) * 1000000
    \<le> unat (last_wakeup_ns (snd (get_cbs_event r now_ns woke_ns t)))"
proof -
  have d: "unat (now_ns - last_wakeup_ns t) = unat now_ns - unat (last_wakeup_ns t)"
    using assms(3) by (rule unat_diff_le)
  have le: "unat (last_wakeup_ns t) \<le> unat now_ns" using assms(3) by (simp add: word_le_nat_alt)
  have "unat (last_wakeup_ns t) + unat (inter_arrival_ns r t) \<le> unat now_ns + unat (sleep_ns r now_ns t)"
  proof (cases "now_ns - last_wakeup_ns t < inter_arrival_ns r t")
    case True
    then have "unat (sleep_ns r now_ns t) = unat (inter_arrival_ns r t) - unat (now_ns - last_wakeup_ns t)"
      using assms(2) by (simp add: sleep_ns_def Let_def unat_diff_le)
    with True d le show ?thesis by (simp add: word_less_nat_alt)
  next
    case False
    with d le show ?thesis by (simp add: word_less_nat_alt)
  qed
  then show ?thesis
    using inter_arrival_bounds(1) [OF assms(1), of r] assms(4) by (simp add: get_cbs_event_def Let_def)
qed

section \<open>Options and names\<close>

text \<open>An explicit deadline of 100 ms is taken for the default and replaced by the period.\<close>

lemma explicit_deadline_overridden:
  "app_config [(CHR ''p'', ''200''), (CHR ''d'', ''100'')] [''t''] = Inr o1 \<Longrightarrow> deadline_ms (task_config o1) = 200"
  by (auto simp: app_config_def app_options_init_def rt_task_init_def strtoul10_def take_sign_def is_space_def
      is_digit_def chr_code_def digits_val_def digit_val_def Let_def)

text \<open>A name of at most 15 characters, as the kernel gives it with a newline, is read back without the newline.\<close>

lemma process_name_read:
  assumes "length n < 16" "CHR 0x00 \<notin> set n" "CHR 0x0A \<notin> set n" "length name = 16"
  shows "c_str (get_process_name_by_pid (Some (n @ [CHR 0x0A])) name) = n"
proof -
  have "takeWhile (\<lambda>c. c \<noteq> CHR 0x00) (n @ CHR 0x00 # rest) = n" for rest
    using assms(2) by (subst takeWhile_append2) auto
  with assms show ?thesis
    by (simp add: get_process_name_by_pid_def c_str_def list_update_append nth_append)
qed

end
