(* ===== verification/Tlog.thy ===== *)
theory Tlog
  imports Std_String
begin

text \<open>
  The logger of the orchestrator, \<open>timpani-o/src/tlog.h\<close>. The output stream is the list of the lines written to it;
  the formatted local time and the text of the arguments are parameters.
\<close>

datatype LogLevel = NONE | ERROR | WARN | INFO | DEBUG

fun level_val :: "LogLevel \<Rightarrow> int" where
  "level_val NONE = - 1"
| "level_val ERROR = 0"
| "level_val WARN = 1"
| "level_val INFO = 2"
| "level_val DEBUG = 3"

instantiation LogLevel :: linorder
begin

definition less_eq_LogLevel :: "LogLevel \<Rightarrow> LogLevel \<Rightarrow> bool" where
  "less_eq_LogLevel a b \<longleftrightarrow> level_val a \<le> level_val b"

definition less_LogLevel :: "LogLevel \<Rightarrow> LogLevel \<Rightarrow> bool" where
  "less_LogLevel a b \<longleftrightarrow> level_val a < level_val b"

instance
proof
  show "a = b" if "a \<le> b" "b \<le> a" for a b :: LogLevel
    using that by (cases a; cases b) (simp_all add: less_eq_LogLevel_def)
qed (auto simp: less_eq_LogLevel_def less_LogLevel_def)

end

record Logger =
  cur_log_level :: LogLevel
  out_stream :: "string list"
  print_filename :: bool
  full_timestamp :: bool

definition Logger_init :: Logger where
  "Logger_init = \<lparr>cur_log_level = INFO, out_stream = [], print_filename = False, full_timestamp = False\<rparr>"

definition SetLogLevel :: "LogLevel \<Rightarrow> Logger \<Rightarrow> Logger" where
  "SetLogLevel level lg = lg\<lparr>cur_log_level := level\<rparr>"

definition SetOutputStream :: "string list \<Rightarrow> Logger \<Rightarrow> Logger" where
  "SetOutputStream os lg = lg\<lparr>out_stream := os\<rparr>"

definition SetPrintFileName :: "bool \<Rightarrow> Logger \<Rightarrow> Logger" where
  "SetPrintFileName enable lg = lg\<lparr>print_filename := enable\<rparr>"

definition SetFullTimestamp :: "bool \<Rightarrow> Logger \<Rightarrow> Logger" where
  "SetFullTimestamp enable lg = lg\<lparr>full_timestamp := enable\<rparr>"

fun LogLevelToStr :: "LogLevel \<Rightarrow> string" where
  "LogLevelToStr ERROR = ''E''"
| "LogLevelToStr WARN = ''W''"
| "LogLevelToStr INFO = ''I''"
| "LogLevelToStr DEBUG = ''D''"
| "LogLevelToStr NONE = ''U''"

fun base_from :: "string \<Rightarrow> string \<Rightarrow> string" where
  "base_from base [] = base"
| "base_from base (c # cs) = base_from (if c = CHR ''/'' \<or> c = CHR 0x5C then cs else base) cs"

definition GetBaseFileName :: "string \<Rightarrow> string" where
  "GetBaseFileName file_path = base_from file_path file_path"

text \<open>The time of day is printed with or without the date; the milliseconds have three digits.\<close>

definition GetCurTimestamp :: "string \<Rightarrow> string \<Rightarrow> nat \<Rightarrow> Logger \<Rightarrow> string" where
  "GetCurTimestamp date_time time ms lg =
     (let digits = nat_to_string (ms mod 1000)
      in (if full_timestamp lg then date_time else time) @ ''.'' @ replicate (3 - length digits) CHR ''0'' @ digits)"

definition Log :: "string \<Rightarrow> LogLevel \<Rightarrow> string \<Rightarrow> int \<Rightarrow> string \<Rightarrow> Logger \<Rightarrow> Logger" where
  "Log timestamp level file line args lg =
     (if cur_log_level lg < level then lg
      else lg\<lparr>out_stream := out_stream lg @ [timestamp @ '' ['' @ LogLevelToStr level @ ''] '' @
             (if print_filename lg then ''['' @ GetBaseFileName file @ '':'' @ int_to_string line @ ''] '' else []) @ args]\<rparr>)"

text \<open>\<open>formatted\<close> is what \<open>vsnprintf\<close> makes of the arguments, \<open>None\<close> if it fails.\<close>

definition Logf :: "string \<Rightarrow> LogLevel \<Rightarrow> string \<Rightarrow> int \<Rightarrow> string option \<Rightarrow> Logger \<Rightarrow> Logger" where
  "Logf timestamp level file line formatted lg =
     (if cur_log_level lg < level then lg
      else case formatted of
        None \<Rightarrow> lg
      | Some text \<Rightarrow> lg\<lparr>out_stream := out_stream lg @ [timestamp @ '' ['' @ LogLevelToStr level @ ''] '' @ ''['' @
          GetBaseFileName file @ '':'' @ int_to_string line @ ''] '' @ c_str text]\<rparr>)"

section \<open>Lemmas\<close>

definition separator :: "char \<Rightarrow> bool" where
  "separator c \<longleftrightarrow> c = CHR ''/'' \<or> c = CHR 0x5C"

lemma base_from_last:
  "base_from base cs = (if \<exists>c\<in>set cs. separator c then rev (takeWhile (\<lambda>c. \<not> separator c) (rev cs)) else base)"
proof (induction base cs rule: base_from.induct)
  case (2 base c cs)
  then show ?case
    by (cases "\<exists>c\<in>set cs. separator c") (auto simp: takeWhile_append takeWhile_eq_all_conv simp flip: separator_def)
qed simp

text \<open>The name printed is the last component of the path.\<close>

lemma GetBaseFileName_last: "GetBaseFileName f = rev (takeWhile (\<lambda>c. \<not> separator c) (rev f))"
proof (cases "\<exists>c\<in>set f. separator c")
  case False
  then have all: "takeWhile (\<lambda>c. \<not> separator c) (rev f) = rev f" by (simp add: takeWhile_eq_all_conv)
  from False show ?thesis by (simp add: GetBaseFileName_def base_from_last all)
qed (simp add: GetBaseFileName_def base_from_last)

text \<open>A line is printed exactly up to the current level, and a level of \<open>NONE\<close> silences everything but itself.\<close>

lemma Log_emits: "length (out_stream (Log t l file line args lg)) = length (out_stream lg) + (if l \<le> cur_log_level lg then 1 else 0)"
  by (auto simp: Log_def)

lemma Log_silent: "l \<noteq> NONE \<Longrightarrow> Log t l file line args (SetLogLevel NONE lg) = SetLogLevel NONE lg"
  by (cases l) (simp_all add: Log_def SetLogLevel_def less_LogLevel_def)

end
