(* ===== verification/Spec2Isabelle.thy ===== *)
theory Spec2Isabelle
  imports Peer_Bus Bpf_Runs Timer_Loop System Sched_Trace Sample_Apps Tlog
begin

text \<open>
  \<^bold>\<open>Timpani: time-triggered and constant-bandwidth scheduling of containers, verified\<close>

  \<^bold>\<open>The program.\<close> An orchestrator (\<open>timpani-o\<close>) receives workloads over gRPC, checks that they can be scheduled,
  computes one table per node, pushes the tables to the connected nodes and forwards faults. A node daemon
  (\<open>timpani-n\<close>) installs a table in the maps of a \<open>sched_ext\<close> BPF scheduler, fires its slots with a timer thread per
  CPU, watches for deadline misses and can trace the schedule. Tasks wait for their slots through a small
  library (\<open>sample-apps/src/libttsched.c\<close>); \<open>sample-apps\<close> has example tasks. \<open>libtrpc\<close> is the older D-Bus transport
  with its own serializer.

  \<^bold>\<open>Foundations.\<close>
  \<^item> \<open>Prelude\<close>: names of the machine types (words of 8 to 64 bits; \<open>int32_t\<close> is a 32-bit word read with \<open>sint\<close>), results
    of fallible operations as sums with \<open>bindE\<close>, the collections \<open>word_nat\<close>, \<open>frame\<close> and \<open>preserve\<close>.
  \<^item> \<open>Std_Containers\<close>: \<open>std::map\<close> as an ascending association list with the locale \<open>associative\<close>, \<open>std::set\<close>, and
    \<open>std::sort\<close> with the locales \<open>strict_weak_order\<close> and \<open>sorting\<close>. \<open>Std_Double\<close>: \<open>double\<close> as rationals rounded to
    53 bits. \<open>Std_String\<close>: number conversions, splitting and C strings.

  \<^bold>\<open>Orchestrator.\<close>
  \<^item> \<open>Node_Config\<close>: the YAML reader of \<open>node_config.cpp\<close>. \<open>Messages\<close>: the protobuf messages. \<open>Tlog\<close>: the logger \<open>tlog.h\<close>.
  \<^item> \<open>Global_Scheduler\<close>: every function of \<open>global_scheduler.cpp\<close>. Its lemmas are in \<open>Scheduler_Arith\<close> (gcd, lcm,
    hyperperiod, harmonic test), \<open>Scheduler_TT\<close> (search of free slots, placement, gaps, and that the search ends),
    \<open>Scheduler_CBS\<close> (budgets and utilisation with the rounding errors of doubles), \<open>Scheduler_Assign\<close> (assignment of
    workloads to CPUs) and \<open>Scheduler_Table\<close> (whole tables).
  \<^item> \<open>SchedInfo_Service\<close>: admission, roll-back, removal and publication (\<open>schedinfo_service.cpp\<close>). Its runs
    (\<open>service_run\<close>) have requests and removals with any result and tell whether the last regeneration of the tables
    succeeded; then the tables are correct schedules of the admitted workloads.
  \<^item> \<open>Fault_Client\<close>: the bounded retry queue of \<open>fault_client.cpp\<close>. \<open>Orchestrator\<close>: node streams, registry, pushes and
    recovery (\<open>orchestrator_service.cpp\<close>, \<open>recovery_service.cpp\<close>). \<open>Replay\<close>: options and the replay loop of \<open>main.cpp\<close>. Its
    runs (\<open>orch_run\<close>) have requests, recovery requests, node streams and turns of the loop, and tell whether the
    loop can know about the present tables; the marks of the loop then say what each stream was last told.

  \<^bold>\<open>Node.\<close>
  \<^item> \<open>Bpf_Sched\<close>: the callbacks of \<open>bpf/timpani.bpf.c\<close> on its maps; servers refine an abstract server on unbounded
    numbers, and a late job gets exactly one report of a missed deadline. \<open>Bpf_Loader\<close>: \<open>bpf_loader.cpp\<close>. \<open>Bpf_Runs\<close>: runs of the callbacks, with invariants by rule induction.
  \<^item> \<open>Timer_Master\<close>, \<open>Timer_Slots\<close>, \<open>Timer_Loop\<close>: \<open>timer_master.cpp\<close>, the shared memory and the waiting side in
    \<open>libttsched.c\<close>, and the loop of a CPU thread. The futex system calls are the queue of the threads that sleep on
    the counters of the shared memory: waking, waiting and interruption by a signal.
  \<^item> \<open>Fault_Monitor\<close>: \<open>fault_monitor.cpp\<close> and \<open>task_registry.cpp\<close>. \<open>Node_Client\<close>: \<open>grpc/node_client.cpp\<close>. \<open>Node_Daemon\<close>
    has the options and callbacks of \<open>timpani-n/src/main.cpp\<close>, \<open>Node_Apply\<close> the lemmas on applying tables.
  \<^item> \<open>Sched_Trace\<close>: the trace points \<open>bpf/schedstat.bpf.c\<close>, \<open>schedstat_monitor.cpp\<close>, \<open>gpdata_writer.cpp\<close> and the lines
    of \<open>main.cpp\<close> under \<open>CONFIG_TRACE_BPF_EVENT\<close>.

  \<^bold>\<open>Libraries and samples.\<close>
  \<^item> \<open>Serialize\<close>: \<open>libtrpc/src/serialize.c\<close> with the locale \<open>codec\<close>. \<open>Peer_Bus\<close>: the D-Bus handlers and calls of
    \<open>peer_dbus.c\<close> over any link that satisfies the locale \<open>bus_link\<close>.
  \<^item> \<open>Sample_Apps\<close>: kernels, statistics, options and loops of \<open>sample_apps.c\<close> and \<open>cbstask.c\<close>.

  \<^bold>\<open>Composition.\<close> \<open>System\<close> connects the parts: after a turn of the replay loop and a node's report that it has
  applied the table, every release of an admitted time-triggered task in the cycle of its CPU has a slot in the
  kernel map. The cycle is that of the periods on this CPU; a table with several CPUs has the hyperperiod of all
  of them, and \<open>Scheduler_Table\<close> shows that the slots of a CPU do not cover it. A stop request removes exactly what a
  node tracks for the workload.

  \<^bold>\<open>Parameters.\<close> Clocks, \<open>rand\<close>, the allocator, the file system and \<open>/proc\<close>, kernel helpers and constants, room in
  BPF maps, results of gRPC, libbpf, sd-bus and socket calls are arguments. What is assumed of them is a
  hypothesis of the theorem that needs it, and each such theorem is applied to a concrete instance.

  \<^bold>\<open>Bounds and fuel.\<close> Slot arithmetic is in 32 bits, so the theorems on placement ask for hyperperiods below
  2 to the 31 microseconds; 64-bit times are bounded where sums could wrap. Loops over data are recursive
  functions with a measure. The slot search is total with the measure of intervals ahead, and its version with
  a bound on the turns needs one turn more than there are intervals. The Fibonacci loop needs 92 turns. The sieve
  computes in \<open>int\<close> and has the value \<open>None\<close> where that overflows; limits below 2 to the 31 minus 92681 do not. The
  busy loops are partial functions that end at the first reading past the runtime. Runs of threads are lists
  of their turns, so statements about them hold for every length.

  \<^bold>\<open>Not modelled.\<close> The start and stop of the gRPC servers and of the daemon's \<open>main\<close>, CPU affinity and scheduling
  policy calls, and printing are sequences of system calls without results the code uses. Mutexes are not
  modelled: an operation under its lock is one step, and interleavings are sequences of such steps. In the
  samples the square-root kernel needs 80-bit floating point, the memory kernel relies on signed overflow, and
  the mixed kernel calls both. \<open>vmlinux.h\<close> is generated; the Rust port is a separate program; scripts, tests and
  container files only drive the modelled parts.
\<close>

end
